(* ===== verification/Spool_Prelude.thy ===== *)
theory Spool_Prelude
  imports Main "HOL-Library.Word" "HOL-Library.Signed_Division" "HOL-Library.State_Monad"
begin

text \<open>
  Shared ground of the development: the named collections of simplification rules, Go's
  fixed-width integers (values of type \<open>int\<close> with the wrap-around written out), decimal
  printing as \<open>fmt\<close> does it, Go errors as values, slices that are trimmed to a maximal
  length, and reachable states of a step relation with the locale that turns a preserved
  predicate into an invariant.
\<close>

named_theorems spool_defs \<open>unfoldings of the operations of a component\<close>
named_theorems frame \<open>what an operation leaves unchanged\<close>

section \<open>Definitions\<close>

subsection \<open>Fixed-width signed integers\<close>

text \<open>
  Go's \<open>int\<close> and \<open>int64\<close> (and \<open>time.Duration\<close>) are 64-bit two's complement,
  \<open>int32\<close> is 32-bit. A value is an \<open>int\<close>; every operation of the source that can leave
  the range is followed by \<open>wrap64\<close> or \<open>wrap32\<close>.
\<close>

definition wrap64 :: "int \<Rightarrow> int" where
  "wrap64 x = (x + 2 ^ 63) mod 2 ^ 64 - 2 ^ 63"

definition wrap32 :: "int \<Rightarrow> int" where
  "wrap32 x = (x + 2 ^ 31) mod 2 ^ 32 - 2 ^ 31"

definition in64 :: "int \<Rightarrow> bool" where
  "in64 x \<longleftrightarrow> - (2 ^ 63) \<le> x \<and> x < 2 ^ 63"

definition in32 :: "int \<Rightarrow> bool" where
  "in32 x \<longleftrightarrow> - (2 ^ 31) \<le> x \<and> x < 2 ^ 31"

text \<open>The conversion \<open>uint(n)\<close> of a signed 64-bit value, and the shift \<open>x << n\<close>.\<close>

definition to_uint64 :: "int \<Rightarrow> int" where
  "to_uint64 x = x mod 2 ^ 64"

definition shl64 :: "int \<Rightarrow> int \<Rightarrow> int" where
  "shl64 x n = (if n < 64 then wrap64 (x * 2 ^ nat n) else 0)"

subsection \<open>Decimal printing\<close>

definition digit_char :: "int \<Rightarrow> char" where
  "digit_char d = ''0123456789'' ! nat d"

text \<open>The decimal digits of a number that is not negative, and \<open>%d\<close>.\<close>

function show_dec :: "int \<Rightarrow> string" where
  "show_dec i = (if i < 10 then [digit_char i] else show_dec (i div 10) @ [digit_char (i mod 10)])"
  by pat_completeness auto
termination
  by (relation "measure nat") auto

declare show_dec.simps [simp del]

definition show_int :: "int \<Rightarrow> string" where
  "show_int i = (if i < 0 then ''-'' @ show_dec (- i) else show_dec i)"

text \<open>The number that a string of digits denotes.\<close>

definition digits_value :: "string \<Rightarrow> int" where
  "digits_value s = foldl (\<lambda>a c. 10 * a + (of_char c - 48)) 0 s"

subsection \<open>Errors\<close>

text \<open>
  An \<open>error\<close> value: a message made by \<open>errors.New\<close> or \<open>fmt.Errorf\<close>, a message that wraps
  another error with \<open>%w\<close>, or the sentinel \<open>queue.ErrNoTask\<close>, which the worker compares by
  identity. \<open>err_Error\<close> is the text that \<open>Error()\<close> returns.
\<close>

datatype gerr = Err string | Wrap string gerr | ErrNoTask

fun err_Error :: "gerr \<Rightarrow> string" where
  "err_Error (Err m) = m"
| "err_Error (Wrap m e) = m @ '': '' @ err_Error e"
| "err_Error ErrNoTask = ''no task available''"

subsection \<open>Bounded histories\<close>

text \<open>
  The idiom \<open>s = append(s, x); if len(s) > n { s = s[1:] }\<close>.
\<close>

definition push_bounded :: "nat \<Rightarrow> 'a list \<Rightarrow> 'a \<Rightarrow> 'a list" where
  "push_bounded n xs x = (let ys = xs @ [x] in if n < length ys then drop 1 ys else ys)"

subsection \<open>Reachable states\<close>

inductive reach :: "('s \<Rightarrow> bool) \<Rightarrow> ('s \<Rightarrow> 's \<Rightarrow> bool) \<Rightarrow> 's \<Rightarrow> bool"
  for init :: "'s \<Rightarrow> bool" and step :: "'s \<Rightarrow> 's \<Rightarrow> bool" where
  reach_init: "init s \<Longrightarrow> reach init step s"
| reach_step: "reach init step s \<Longrightarrow> step s t \<Longrightarrow> reach init step t"

locale inductive_invariant =
  fixes init :: "'s \<Rightarrow> bool" and step :: "'s \<Rightarrow> 's \<Rightarrow> bool" and inv :: "'s \<Rightarrow> bool"
  assumes init_inv: "init s \<Longrightarrow> inv s"
    and step_inv: "inv s \<Longrightarrow> step s t \<Longrightarrow> inv t"
begin

lemma reach_inv: "reach init step s \<Longrightarrow> inv s"
  by (induction rule: reach.induct) (auto intro: init_inv step_inv)

end

section \<open>Lemmas\<close>

subsection \<open>Fixed-width integers\<close>

lemma wrap64_id: "in64 x \<Longrightarrow> wrap64 x = x"
  by (simp add: wrap64_def in64_def)

lemma wrap32_id: "in32 x \<Longrightarrow> wrap32 x = x"
  by (simp add: wrap32_def in32_def)

lemma wrap64_range: "in64 (wrap64 x)"
  by (simp add: wrap64_def in64_def)

lemma wrap32_range: "in32 (wrap32 x)"
  by (simp add: wrap32_def in32_def)

lemma wrap64_eq_sint: "wrap64 x = sint (word_of_int x :: 64 word)"
  by (simp add: wrap64_def sint_sbintrunc' signed_take_bit_eq_take_bit_shift take_bit_eq_mod)

lemma wrap32_eq_sint: "wrap32 x = sint (word_of_int x :: 32 word)"
  by (simp add: wrap32_def sint_sbintrunc' signed_take_bit_eq_take_bit_shift take_bit_eq_mod)

lemma to_uint64_nonneg: "0 \<le> n \<Longrightarrow> in64 n \<Longrightarrow> to_uint64 n = n"
  by (simp add: to_uint64_def in64_def)

subsection \<open>Decimal printing is injective\<close>

lemma int_digit_cases:
  fixes d :: int
  assumes "0 \<le> d" and "d < 10"
  shows "d \<in> {0, 1, 2, 3, 4, 5, 6, 7, 8, 9}"
  using assms by (simp, presburger)

lemma digit_char_value: "0 \<le> d \<Longrightarrow> d < 10 \<Longrightarrow> of_char (digit_char d) = 48 + d"
  by (drule (1) int_digit_cases) (auto simp: digit_char_def)

lemma digit_char_range: "0 \<le> d \<Longrightarrow> d < 10 \<Longrightarrow> digit_char d \<in> set ''0123456789''"
  by (drule (1) int_digit_cases) (auto simp: digit_char_def)

lemma digits_value_append: "digits_value (s @ [c]) = 10 * digits_value s + (of_char c - 48)"
  by (simp add: digits_value_def)

lemma digits_value_show_dec: "0 \<le> i \<Longrightarrow> digits_value (show_dec i) = i"
proof (induction i rule: show_dec.induct)
  case (1 i)
  show ?case
  proof (cases "i < 10")
    case True
    with "1.prems" show ?thesis
      by (simp add: show_dec.simps [of i] digits_value_def digit_char_value)
  next
    case False
    with 1 have "digits_value (show_dec i) = 10 * (i div 10) + i mod 10"
      by (simp add: show_dec.simps [of i] digits_value_append digit_char_value)
    then show ?thesis by simp
  qed
qed

lemma show_dec_inject [simp]: "0 \<le> i \<Longrightarrow> 0 \<le> j \<Longrightarrow> show_dec i = show_dec j \<longleftrightarrow> i = j"
  by (metis digits_value_show_dec)

lemma set_show_dec: "0 \<le> i \<Longrightarrow> set (show_dec i) \<subseteq> set ''0123456789''"
proof (induction i rule: show_dec.induct)
  case (1 i)
  show ?case
  proof (cases "i < 10")
    case True
    with "1.prems" show ?thesis
      using digit_char_range [of i] by (simp add: show_dec.simps [of i])
  next
    case False
    with 1 show ?thesis
      using digit_char_range [of "i mod 10"] by (simp add: show_dec.simps [of i])
  qed
qed

lemma show_int_inject [simp]: "show_int i = show_int j \<longleftrightarrow> i = j"
proof -
  have minus: "CHR ''-'' \<notin> set (show_dec k)" if "0 \<le> k" for k
    using set_show_dec [OF that] by auto
  have "show_dec k \<noteq> CHR ''-'' # s" if "0 \<le> k" for k s
    using minus [OF that] by (metis list.set_intros(1))
  then show ?thesis by (auto simp: show_int_def) (metis not_less)+
qed

subsection \<open>Bounded histories\<close>

lemma push_bounded_length: "0 < n \<Longrightarrow> length xs \<le> n \<Longrightarrow> length (push_bounded n xs x) \<le> n"
  by (auto simp: push_bounded_def Let_def)

lemma push_bounded_last: "0 < n \<Longrightarrow> last (push_bounded n xs x) = x"
  by (cases xs) (auto simp: push_bounded_def Let_def)

lemma push_bounded_nonempty: "0 < n \<Longrightarrow> push_bounded n xs x \<noteq> []"
  by (cases xs) (auto simp: push_bounded_def Let_def)

text \<open>
  A history that was fed a whole sequence holds the last \<open>n\<close> elements of it.
\<close>

lemma push_bounded_suffix:
  assumes "xs = drop (length ys - n) ys"
  shows "push_bounded n xs x = drop (length (ys @ [x]) - n) (ys @ [x])"
  using assms by (auto simp: push_bounded_def Let_def Suc_diff_le)

lemma foldl_push_bounded:
  "foldl (push_bounded n) (drop (length ys - n) ys) xs = drop (length (ys @ xs) - n) (ys @ xs)"
proof (induction xs arbitrary: ys)
  case Nil
  then show ?case by simp
next
  case (Cons x xs)
  have "foldl (push_bounded n) (drop (length ys - n) ys) (x # xs)
      = foldl (push_bounded n) (drop (length (ys @ [x]) - n) (ys @ [x])) xs"
    by (simp only: foldl.simps push_bounded_suffix [OF refl])
  also have "\<dots> = drop (length ((ys @ [x]) @ xs) - n) ((ys @ [x]) @ xs)"
    by (rule Cons.IH)
  finally show ?case by simp
qed

end
