(* ===== verification/Spool_Time.thy ===== *)
theory Spool_Time
  imports Spool_Prelude
begin

text \<open>
  The part of Go's package \<open>time\<close> that the sources use. A \<open>time.Time\<close> is the instant it
  denotes, in nanoseconds since the Unix epoch, an \<open>int\<close>; a \<open>time.Duration\<close> is a signed
  64-bit number of nanoseconds. Formatting is in UTC.
\<close>

section \<open>Definitions\<close>

abbreviation (input) Microsecond :: int where "Microsecond \<equiv> 1000"
abbreviation (input) Millisecond :: int where "Millisecond \<equiv> 1000000"
abbreviation (input) Second :: int where "Second \<equiv> 1000000000"
abbreviation (input) Minute :: int where "Minute \<equiv> 60000000000"
abbreviation (input) Hour :: int where "Hour \<equiv> 3600000000000"

abbreviation (input) minDuration :: int where "minDuration \<equiv> - 9223372036854775808"
abbreviation (input) maxDuration :: int where "maxDuration \<equiv> 9223372036854775807"

text \<open>The zero value of \<open>time.Time\<close>: January 1, year 1.\<close>

definition zero_time :: int where
  "zero_time = - 62135596800000000000"

definition time_IsZero :: "int \<Rightarrow> bool" where
  "time_IsZero t \<longleftrightarrow> t = zero_time"

text \<open>\<open>t.Sub(u)\<close> saturates at the ends of the range of \<open>Duration\<close>.\<close>

definition time_Sub :: "int \<Rightarrow> int \<Rightarrow> int" where
  "time_Sub t u = max minDuration (min maxDuration (t - u))"

definition time_Unix :: "int \<Rightarrow> int" where
  "time_Unix t = t div Second"

text \<open>\<open>d.Round(m)\<close>: to the nearest multiple of \<open>m\<close>, halves away from zero, saturated.\<close>

definition duration_Round :: "int \<Rightarrow> int \<Rightarrow> int" where
  "duration_Round d m =
     (if m \<le> 0 then d
      else if d < 0 then
        (let r = - (d smod m); d1 = wrap64 (d - m + r)
         in if 2 * r < m then d + r else if d1 < d then d1 else minDuration)
      else
        (let r = d smod m; d1 = wrap64 (d + m - r)
         in if 2 * r < m then d - r else if d1 > d then d1 else maxDuration))"

text \<open>The years 0 to 9999, the only ones that \<open>Time.MarshalJSON\<close> accepts.\<close>

definition time_marshalable :: "int \<Rightarrow> bool" where
  "time_marshalable t \<longleftrightarrow> - 62167219200 * Second \<le> t \<and> t < 253402300800 * Second"

subsection \<open>Formatting\<close>

definition pad0 :: "nat \<Rightarrow> int \<Rightarrow> string" where
  "pad0 k n = (let s = show_dec n in replicate (k - length s) CHR ''0'' @ s)"

text \<open>Year, month and day of a day number (days since the epoch).\<close>

definition civil_of_days :: "int \<Rightarrow> int \<times> int \<times> int" where
  "civil_of_days z =
     (let z = z + 719468; era = z div 146097; doe = z mod 146097;
          yoe = (doe - doe div 1460 + doe div 36524 - doe div 146096) div 365;
          doy = doe - (365 * yoe + yoe div 4 - yoe div 100);
          mp = (5 * doy + 2) div 153;
          d = doy - (153 * mp + 2) div 5 + 1;
          m = (if mp < 10 then mp + 3 else mp - 9);
          y = yoe + era * 400
      in (if m \<le> 2 then y + 1 else y, m, d))"

text \<open>The fraction that \<open>fmtFrac\<close> prints: no trailing zeros, and no point when it is zero.\<close>

definition fmt_frac :: "int \<Rightarrow> nat \<Rightarrow> string" where
  "fmt_frac v prec =
     (let ds = rev (dropWhile (\<lambda>c. c = CHR ''0'') (rev (pad0 prec (v mod 10 ^ prec))))
      in if ds = [] then [] else ''.'' @ ds)"

definition clock_string :: "int \<Rightarrow> string" where
  "clock_string t =
     (let s = t div Second; (y, m, d) = civil_of_days (s div 86400); r = s mod 86400
      in pad0 4 y @ ''-'' @ pad0 2 m @ ''-'' @ pad0 2 d @ ''T'' @
         pad0 2 (r div 3600) @ '':'' @ pad0 2 (r div 60 mod 60) @ '':'' @ pad0 2 (r mod 60))"

text \<open>\<open>Format(time.RFC3339)\<close> and \<open>Format(time.RFC3339Nano)\<close>.\<close>

definition rfc3339 :: "int \<Rightarrow> string" where
  "rfc3339 t = clock_string t @ ''Z''"

definition rfc3339_nano :: "int \<Rightarrow> string" where
  "rfc3339_nano t = clock_string t @ fmt_frac (t mod Second) 9 @ ''Z''"

text \<open>\<open>Duration.String()\<close>; the micro sign is two bytes in UTF-8.\<close>

definition duration_String :: "int \<Rightarrow> string" where
  "duration_String d =
     (let u = \<bar>d\<bar>;
          body =
            (if u = 0 then ''0s''
             else if u < Microsecond then show_dec u @ ''ns''
             else if u < Millisecond then show_dec (u div Microsecond) @ fmt_frac u 3 @ [CHR 0xC2, CHR 0xB5] @ ''s''
             else if u < Second then show_dec (u div Millisecond) @ fmt_frac u 6 @ ''ms''
             else (let s = u div Second; m = s div 60; h = m div 60
                   in (if 0 < h then show_dec h @ ''h'' else []) @
                      (if 0 < m then show_dec (m mod 60) @ ''m'' else []) @
                      show_dec (s mod 60) @ fmt_frac u 9 @ ''s''))
      in if d < 0 then ''-'' @ body else body)"

section \<open>Lemmas\<close>

lemma time_Sub_in64: "in64 (time_Sub t u)"
  by (simp add: time_Sub_def in64_def)

lemma time_Sub_exact: "in64 (t - u) \<Longrightarrow> time_Sub t u = t - u"
  by (simp add: time_Sub_def in64_def)

lemma zero_time_marshalable [simp]: "time_marshalable zero_time"
  by (simp add: time_marshalable_def zero_time_def)

end
