(* ===== verification/Spool_Json.thy ===== *)
theory Spool_Json
  imports Spool_Time "HOL-Library.List_Lexorder" "HOL-Library.Char_ord"
begin

text \<open>
  The part of \<open>encoding/json\<close> that the sources use, on syntax trees. A JSON text is its
  tree: numbers are integer literals (\<open>JNum\<close>) or literals with a fraction or exponent
  (\<open>JFrac\<close>), and a string that holds an RFC 3339 timestamp is the instant it denotes
  (\<open>JTime\<close>), every other string is a \<open>JStr\<close>. A byte string of the program (a Redis value,
  a request body, a \<open>json.RawMessage\<close>) is a \<open>blob\<close>: a JSON document, or other text. Object
  members keep their order, because decoding a struct handles them one by one.
\<close>

section \<open>Definitions\<close>

datatype json =
    JNull
  | JBool bool
  | JNum int
  | JFrac string
  | JStr string
  | JTime int
  | JArr "json list"
  | JObj "(string \<times> json) list"

datatype blob = Text string | Doc json

text \<open>
  A value of type \<open>interface{}\<close> that is passed to \<open>json.Marshal\<close>: one that encodes, or
  one of a type that \<open>json.Marshal\<close> refuses (a channel, a function), with the message.
\<close>

datatype gvalue = GJson json | GBad string

fun json_Marshal :: "gvalue \<Rightarrow> gerr + json" where
  "json_Marshal (GJson j) = Inr j"
| "json_Marshal (GBad m) = Inl (Err m)"

subsection \<open>Decoding into struct fields\<close>

text \<open>
  Each decoder takes the JSON value and the field's present value; \<open>null\<close> leaves a field
  that is not a pointer or a map as it is. The first mismatch is the error of the whole call.
\<close>

definition syntax_err :: gerr where
  "syntax_err = Err ''invalid character looking for beginning of value''"

definition type_err :: gerr where
  "type_err = Err ''json: cannot unmarshal value into Go struct field''"

fun dec_string :: "json \<Rightarrow> string \<Rightarrow> gerr + string" where
  "dec_string JNull old = Inr old"
| "dec_string (JStr s) old = Inr s"
| "dec_string (JTime t) old = Inr (rfc3339_nano t)"
| "dec_string _ old = Inl type_err"

fun dec_int64 :: "json \<Rightarrow> int \<Rightarrow> gerr + int" where
  "dec_int64 JNull old = Inr old"
| "dec_int64 (JNum n) old = (if in64 n then Inr n else Inl type_err)"
| "dec_int64 _ old = Inl type_err"

fun dec_bool :: "json \<Rightarrow> bool \<Rightarrow> gerr + bool" where
  "dec_bool JNull old = Inr old"
| "dec_bool (JBool b) old = Inr b"
| "dec_bool _ old = Inl type_err"

fun dec_time :: "json \<Rightarrow> int \<Rightarrow> gerr + int" where
  "dec_time JNull old = Inr old"
| "dec_time (JTime t) old = Inr t"
| "dec_time _ old = Inl type_err"

fun dec_time_ptr :: "json \<Rightarrow> gerr + int option" where
  "dec_time_ptr JNull = Inr None"
| "dec_time_ptr (JTime t) = Inr (Some t)"
| "dec_time_ptr _ = Inl type_err"

text \<open>
  A \<open>map[string]interface{}\<close> is kept as an association list sorted by key, the order in
  which \<open>json.Marshal\<close> writes it; its values stand for themselves.
\<close>

definition map_put :: "(string \<times> 'v) list \<Rightarrow> string \<times> 'v \<Rightarrow> (string \<times> 'v) list" where
  "map_put m kv = insort_key fst kv (filter (\<lambda>p. fst p \<noteq> fst kv) m)"

definition map_ok :: "(string \<times> 'v) list \<Rightarrow> bool" where
  "map_ok m \<longleftrightarrow> sorted (map fst m) \<and> distinct (map fst m)"

fun dec_map :: "json \<Rightarrow> (string \<times> json) list \<Rightarrow> gerr + (string \<times> json) list" where
  "dec_map JNull old = Inr []"
| "dec_map (JObj kvs) old = Inr (foldl map_put old kvs)"
| "dec_map _ old = Inl type_err"

text \<open>Struct fields match member names up to the case of letters.\<close>

definition lower_char :: "char \<Rightarrow> char" where
  "lower_char c =
     (case map_of (zip ''ABCDEFGHIJKLMNOPQRSTUVWXYZ'' ''abcdefghijklmnopqrstuvwxyz'') c of
        None \<Rightarrow> c | Some d \<Rightarrow> d)"

definition fold_name :: "string \<Rightarrow> string" where
  "fold_name = map lower_char"

fun decode_members ::
  "(string \<Rightarrow> json \<Rightarrow> 'a \<Rightarrow> gerr + 'a) \<Rightarrow> (string \<times> json) list \<Rightarrow> 'a \<Rightarrow> gerr + 'a" where
  "decode_members f [] v = Inr v"
| "decode_members f ((k, j) # ms) v =
     (case f (fold_name k) j v of Inl e \<Rightarrow> Inl e | Inr v' \<Rightarrow> decode_members f ms v')"

fun unmarshal_struct ::
  "(string \<Rightarrow> json \<Rightarrow> 'a \<Rightarrow> gerr + 'a) \<Rightarrow> 'a \<Rightarrow> blob \<Rightarrow> gerr + 'a" where
  "unmarshal_struct f zero (Doc (JObj ms)) = decode_members f ms zero"
| "unmarshal_struct f zero (Doc JNull) = Inr zero"
| "unmarshal_struct f zero (Doc _) = Inl type_err"
| "unmarshal_struct f zero (Text _) = Inl syntax_err"

text \<open>A slice of structs: every element is decoded, the first error is the error.\<close>

fun unmarshal_list :: "(blob \<Rightarrow> gerr + 'a) \<Rightarrow> json list \<Rightarrow> gerr + 'a list" where
  "unmarshal_list f [] = Inr []"
| "unmarshal_list f (j # js) =
     (case f (Doc j) of Inl e \<Rightarrow> Inl e
      | Inr x \<Rightarrow> (case unmarshal_list f js of Inl e \<Rightarrow> Inl e | Inr xs \<Rightarrow> Inr (x # xs)))"

fun unmarshal_slice :: "(blob \<Rightarrow> gerr + 'a) \<Rightarrow> blob \<Rightarrow> gerr + 'a list" where
  "unmarshal_slice f (Doc (JArr js)) = unmarshal_list f js"
| "unmarshal_slice f (Doc JNull) = Inr []"
| "unmarshal_slice f (Doc _) = Inl type_err"
| "unmarshal_slice f (Text _) = Inl syntax_err"

section \<open>Lemmas\<close>

lemma decode_members_append:
  "decode_members f (ms @ ns) v =
     (case decode_members f ms v of Inl e \<Rightarrow> Inl e | Inr v' \<Rightarrow> decode_members f ns v')"
  by (induction f ms v rule: decode_members.induct) (auto split: sum.split)

lemma map_put_snoc:
  assumes "\<forall>k \<in> set (map fst m). k < fst kv"
  shows "map_put m kv = m @ [kv]"
proof -
  from assms have "filter (\<lambda>p. fst p \<noteq> fst kv) m = m"
    by (auto simp: filter_id_conv)
  moreover from assms have "insort_key fst kv m = m @ [kv]"
    by (induction m) auto
  ultimately show ?thesis by (simp add: map_put_def)
qed

lemma map_ok_Nil [simp]: "map_ok []"
  by (simp add: map_ok_def)

lemma map_ok_append1:
  "map_ok (m @ [kv]) \<longleftrightarrow> map_ok m \<and> (\<forall>k \<in> set (map fst m). k < fst kv)"
  by (auto simp: map_ok_def sorted_append less_le) (metis fst_conv image_eqI)

lemma foldl_map_put_sorted: "map_ok kvs \<Longrightarrow> foldl map_put [] kvs = kvs"
  by (induction kvs rule: rev_induct) (auto simp: map_ok_append1 map_put_snoc)

lemma unmarshal_list_map:
  assumes "\<And>x. x \<in> set xs \<Longrightarrow> f (Doc (g x)) = Inr x"
  shows "unmarshal_list f (map g xs) = Inr xs"
  using assms by (induction xs) auto

end
