(* ===== verification/Spool_Task.thy ===== *)
theory Spool_Task
  imports Spool_Json
begin

text \<open>
  The packages \<open>internal/task\<close> (\<open>task.go\<close>, \<open>result.go\<close>) and the priority names of
  \<open>internal/queue/priority.go\<close>: the task record with its JSON form, the life-cycle
  operations \<open>MarkStarted\<close>, \<open>MarkCompleted\<close>, \<open>MarkFailed\<close>, the retry policy and the
  exponential backoff on 64-bit integers. \<open>time.Now()\<close> and \<open>uuid.New()\<close> are arguments.
\<close>

section \<open>Definitions\<close>

subsection \<open>Priorities and states\<close>

text \<open>\<open>Priority\<close> is an \<open>int\<close>, \<open>State\<close> a string: decoded tasks may hold any value.\<close>

type_synonym priority = int

abbreviation (input) PriorityLow :: priority where "PriorityLow \<equiv> 0"
abbreviation (input) PriorityNormal :: priority where "PriorityNormal \<equiv> 1"
abbreviation (input) PriorityHigh :: priority where "PriorityHigh \<equiv> 2"
abbreviation (input) PriorityCritical :: priority where "PriorityCritical \<equiv> 3"

abbreviation (input) StatePending :: string where "StatePending \<equiv> ''pending''"
abbreviation (input) StateProcessing :: string where "StateProcessing \<equiv> ''processing''"
abbreviation (input) StateCompleted :: string where "StateCompleted \<equiv> ''completed''"
abbreviation (input) StateFailed :: string where "StateFailed \<equiv> ''failed''"
abbreviation (input) StateRetrying :: string where "StateRetrying \<equiv> ''retrying''"
abbreviation (input) StateDeadLetter :: string where "StateDeadLetter \<equiv> ''dead_letter''"

definition PriorityString :: "priority \<Rightarrow> string" where
  "PriorityString p =
     (if p = PriorityCritical then ''critical''
      else if p = PriorityHigh then ''high''
      else if p = PriorityNormal then ''normal''
      else if p = PriorityLow then ''low''
      else ''unknown'')"

text \<open>The default branch returns \<open>PriorityNormal\<close> together with the error.\<close>

definition ParsePriority :: "string \<Rightarrow> priority \<times> gerr option" where
  "ParsePriority s =
     (if s = ''critical'' then (PriorityCritical, None)
      else if s = ''high'' then (PriorityHigh, None)
      else if s = ''normal'' then (PriorityNormal, None)
      else if s = ''low'' then (PriorityLow, None)
      else (PriorityNormal, Some (Err (''unknown priority: '' @ s))))"

subsection \<open>Tasks and results\<close>

record task =
  t_ID :: string
  t_Type :: string
  t_Payload :: blob
  t_Priority :: priority
  t_State :: string
  t_MaxRetries :: int
  t_RetryCount :: int
  t_Timeout :: int
  t_CreatedAt :: int
  t_ScheduledAt :: int
  t_StartedAt :: "int option"
  t_CompletedAt :: "int option"
  t_Error :: string
  t_Metadata :: "(string \<times> json) list"

record result =
  r_TaskID :: string
  r_Success :: bool
  r_Output :: "blob option"
  r_Error :: string
  r_CompletedAt :: int
  r_Duration :: int

definition zero_task :: task where
  "zero_task =
     \<lparr>t_ID = [], t_Type = [], t_Payload = Doc JNull, t_Priority = 0, t_State = [],
      t_MaxRetries = 0, t_RetryCount = 0, t_Timeout = 0, t_CreatedAt = zero_time,
      t_ScheduledAt = zero_time, t_StartedAt = None, t_CompletedAt = None, t_Error = [],
      t_Metadata = []\<rparr>"

definition zero_result :: result where
  "zero_result =
     \<lparr>r_TaskID = [], r_Success = False, r_Output = None, r_Error = [],
      r_CompletedAt = zero_time, r_Duration = 0\<rparr>"

definition NewTask :: "string \<Rightarrow> int \<Rightarrow> string \<Rightarrow> gvalue \<Rightarrow> gerr + task" where
  "NewTask uuid now taskType payload =
     (case json_Marshal payload of
        Inl e \<Rightarrow> Inl e
      | Inr j \<Rightarrow>
          Inr \<lparr>t_ID = uuid, t_Type = taskType, t_Payload = Doc j, t_Priority = PriorityNormal,
               t_State = StatePending, t_MaxRetries = 3, t_RetryCount = 0,
               t_Timeout = 30 * Second, t_CreatedAt = now, t_ScheduledAt = zero_time,
               t_StartedAt = None, t_CompletedAt = None, t_Error = [], t_Metadata = []\<rparr>)"

definition WithPriority :: "task \<Rightarrow> priority \<Rightarrow> task" where
  "WithPriority t p = t\<lparr>t_Priority := p\<rparr>"

definition WithMaxRetries :: "task \<Rightarrow> int \<Rightarrow> task" where
  "WithMaxRetries t m = t\<lparr>t_MaxRetries := m\<rparr>"

definition WithTimeout :: "task \<Rightarrow> int \<Rightarrow> task" where
  "WithTimeout t d = t\<lparr>t_Timeout := d\<rparr>"

definition WithScheduleAt :: "task \<Rightarrow> int \<Rightarrow> task" where
  "WithScheduleAt t at = t\<lparr>t_ScheduledAt := at\<rparr>"

definition ShouldRetry :: "task \<Rightarrow> bool" where
  "ShouldRetry t \<longleftrightarrow> t_RetryCount t < t_MaxRetries t"

text \<open>
  The shift has the type of the other factor, \<open>time.Duration\<close>: both the shift and the
  product are 64-bit.
\<close>

definition GetRetryDelay :: "task \<Rightarrow> int" where
  "GetRetryDelay t =
     (let baseDelay = 1 * Second; maxDelay = 5 * Minute;
          delay = wrap64 (baseDelay * shl64 1 (to_uint64 (t_RetryCount t)))
      in if delay > maxDelay then maxDelay else delay)"

definition MarkStarted :: "int \<Rightarrow> task \<Rightarrow> task" where
  "MarkStarted now t = t\<lparr>t_StartedAt := Some now, t_State := StateProcessing\<rparr>"

definition MarkCompleted :: "int \<Rightarrow> task \<Rightarrow> task" where
  "MarkCompleted now t = t\<lparr>t_CompletedAt := Some now, t_State := StateCompleted\<rparr>"

definition MarkFailed :: "int \<Rightarrow> gerr \<Rightarrow> task \<Rightarrow> task" where
  "MarkFailed now err t =
     (let t1 = t\<lparr>t_Error := err_Error err\<rparr>;
          shouldRetry = t_RetryCount t1 < t_MaxRetries t1;
          t2 = t1\<lparr>t_RetryCount := wrap64 (t_RetryCount t1 + 1)\<rparr>
      in if shouldRetry then t2\<lparr>t_State := StateRetrying\<rparr>
         else t2\<lparr>t_State := StateDeadLetter, t_CompletedAt := Some now\<rparr>)"

subsection \<open>The JSON form of tasks and results\<close>

text \<open>
  \<open>omitempty\<close> omits nil pointers, empty strings and empty maps; it has no effect on
  \<open>ScheduledAt\<close>, which is a struct. Encoding fails on a payload that is not JSON and on a
  time whose year is not in 0..9999.
\<close>

definition times_marshalable :: "task \<Rightarrow> bool" where
  "times_marshalable t \<longleftrightarrow>
     time_marshalable (t_CreatedAt t) \<and> time_marshalable (t_ScheduledAt t) \<and>
     (\<forall>s \<in> set_option (t_StartedAt t). time_marshalable s) \<and>
     (\<forall>s \<in> set_option (t_CompletedAt t). time_marshalable s)"

definition opt_member :: "string \<Rightarrow> ('a \<Rightarrow> json) \<Rightarrow> 'a option \<Rightarrow> (string \<times> json) list" where
  "opt_member k f x = (case x of None \<Rightarrow> [] | Some v \<Rightarrow> [(k, f v)])"

definition task_members :: "task \<Rightarrow> json \<Rightarrow> (string \<times> json) list" where
  "task_members t payload =
     [(''id'', JStr (t_ID t)), (''type'', JStr (t_Type t)), (''payload'', payload),
      (''priority'', JNum (t_Priority t)), (''state'', JStr (t_State t)),
      (''max_retries'', JNum (t_MaxRetries t)), (''retry_count'', JNum (t_RetryCount t)),
      (''timeout'', JNum (t_Timeout t)), (''created_at'', JTime (t_CreatedAt t)),
      (''scheduled_at'', JTime (t_ScheduledAt t))] @
     opt_member ''started_at'' JTime (t_StartedAt t) @
     opt_member ''completed_at'' JTime (t_CompletedAt t) @
     (if t_Error t = [] then [] else [(''error'', JStr (t_Error t))]) @
     (if t_Metadata t = [] then [] else [(''metadata'', JObj (t_Metadata t))])"

definition marshal_task :: "task \<Rightarrow> gerr + json" where
  "marshal_task t =
     (case t_Payload t of
        Text _ \<Rightarrow> Inl (Err ''json: error calling MarshalJSON for type json.RawMessage'')
      | Doc p \<Rightarrow>
          if times_marshalable t then Inr (JObj (task_members t p))
          else Inl (Err ''Time.MarshalJSON: year outside of range [0,9999]''))"

definition set_task_field :: "string \<Rightarrow> json \<Rightarrow> task \<Rightarrow> gerr + task" where
  "set_task_field k j t =
     (if k = ''id'' then map_sum id (\<lambda>v. t\<lparr>t_ID := v\<rparr>) (dec_string j (t_ID t))
      else if k = ''type'' then map_sum id (\<lambda>v. t\<lparr>t_Type := v\<rparr>) (dec_string j (t_Type t))
      else if k = ''payload'' then Inr (t\<lparr>t_Payload := Doc j\<rparr>)
      else if k = ''priority'' then map_sum id (\<lambda>v. t\<lparr>t_Priority := v\<rparr>) (dec_int64 j (t_Priority t))
      else if k = ''state'' then map_sum id (\<lambda>v. t\<lparr>t_State := v\<rparr>) (dec_string j (t_State t))
      else if k = ''max_retries'' then map_sum id (\<lambda>v. t\<lparr>t_MaxRetries := v\<rparr>) (dec_int64 j (t_MaxRetries t))
      else if k = ''retry_count'' then map_sum id (\<lambda>v. t\<lparr>t_RetryCount := v\<rparr>) (dec_int64 j (t_RetryCount t))
      else if k = ''timeout'' then map_sum id (\<lambda>v. t\<lparr>t_Timeout := v\<rparr>) (dec_int64 j (t_Timeout t))
      else if k = ''created_at'' then map_sum id (\<lambda>v. t\<lparr>t_CreatedAt := v\<rparr>) (dec_time j (t_CreatedAt t))
      else if k = ''scheduled_at'' then map_sum id (\<lambda>v. t\<lparr>t_ScheduledAt := v\<rparr>) (dec_time j (t_ScheduledAt t))
      else if k = ''started_at'' then map_sum id (\<lambda>v. t\<lparr>t_StartedAt := v\<rparr>) (dec_time_ptr j)
      else if k = ''completed_at'' then map_sum id (\<lambda>v. t\<lparr>t_CompletedAt := v\<rparr>) (dec_time_ptr j)
      else if k = ''error'' then map_sum id (\<lambda>v. t\<lparr>t_Error := v\<rparr>) (dec_string j (t_Error t))
      else if k = ''metadata'' then map_sum id (\<lambda>v. t\<lparr>t_Metadata := v\<rparr>) (dec_map j (t_Metadata t))
      else Inr t)"

definition unmarshal_task :: "blob \<Rightarrow> gerr + task" where
  "unmarshal_task = unmarshal_struct set_task_field zero_task"

definition result_members :: "result \<Rightarrow> (string \<times> json) list \<Rightarrow> (string \<times> json) list" where
  "result_members r output =
     [(''task_id'', JStr (r_TaskID r)), (''success'', JBool (r_Success r))] @ output @
     (if r_Error r = [] then [] else [(''error'', JStr (r_Error r))]) @
     [(''completed_at'', JTime (r_CompletedAt r)), (''duration'', JNum (r_Duration r))]"

definition marshal_result :: "result \<Rightarrow> gerr + json" where
  "marshal_result r =
     (let close = (\<lambda>output. if time_marshalable (r_CompletedAt r)
                     then Inr (JObj (result_members r output))
                     else Inl (Err ''Time.MarshalJSON: year outside of range [0,9999]''))
      in case r_Output r of
           None \<Rightarrow> close []
         | Some (Doc j) \<Rightarrow> close [(''output'', j)]
         | Some (Text _) \<Rightarrow> Inl (Err ''json: error calling MarshalJSON for type json.RawMessage''))"

definition set_result_field :: "string \<Rightarrow> json \<Rightarrow> result \<Rightarrow> gerr + result" where
  "set_result_field k j r =
     (if k = ''task_id'' then map_sum id (\<lambda>v. r\<lparr>r_TaskID := v\<rparr>) (dec_string j (r_TaskID r))
      else if k = ''success'' then map_sum id (\<lambda>v. r\<lparr>r_Success := v\<rparr>) (dec_bool j (r_Success r))
      else if k = ''output'' then Inr (r\<lparr>r_Output := Some (Doc j)\<rparr>)
      else if k = ''error'' then map_sum id (\<lambda>v. r\<lparr>r_Error := v\<rparr>) (dec_string j (r_Error r))
      else if k = ''completed_at'' then map_sum id (\<lambda>v. r\<lparr>r_CompletedAt := v\<rparr>) (dec_time j (r_CompletedAt r))
      else if k = ''duration'' then map_sum id (\<lambda>v. r\<lparr>r_Duration := v\<rparr>) (dec_int64 j (r_Duration r))
      else Inr r)"

definition unmarshal_result :: "blob \<Rightarrow> gerr + result" where
  "unmarshal_result = unmarshal_struct set_result_field zero_result"

subsection \<open>Well-formed tasks\<close>

text \<open>
  What a \<open>Task\<close> value of the program is: 64-bit fields, a payload that is JSON, metadata
  that is a map, times that have a JSON form. Every task made by \<open>NewTask\<close> or decoded is one.
\<close>

definition task_ok :: "task \<Rightarrow> bool" where
  "task_ok t \<longleftrightarrow>
     (\<exists>p. t_Payload t = Doc p) \<and> in64 (t_Priority t) \<and> in64 (t_MaxRetries t) \<and>
     in64 (t_RetryCount t) \<and> in64 (t_Timeout t) \<and> times_marshalable t \<and> map_ok (t_Metadata t)"

definition result_ok :: "result \<Rightarrow> bool" where
  "result_ok r \<longleftrightarrow>
     (\<forall>b \<in> set_option (r_Output r). \<exists>j. b = Doc j) \<and>
     time_marshalable (r_CompletedAt r) \<and> in64 (r_Duration r)"

text \<open>The JSON document of a well-formed task.\<close>

definition task_json :: "task \<Rightarrow> json" where
  "task_json t = JObj (task_members t (case t_Payload t of Doc p \<Rightarrow> p | Text _ \<Rightarrow> JNull))"

text \<open>A task for the concrete instances of the theorems.\<close>

definition sample_task :: "string \<Rightarrow> priority \<Rightarrow> int \<Rightarrow> task" where
  "sample_task i p m =
     zero_task\<lparr>t_ID := i, t_Type := ''email'', t_Priority := p, t_State := StatePending,
       t_MaxRetries := m, t_Timeout := 30 * Second\<rparr>"

section \<open>Lemmas\<close>

lemma sample_task_simps [simp]:
  "t_ID (sample_task i p m) = i" "t_Priority (sample_task i p m) = p"
  "t_MaxRetries (sample_task i p m) = m" "t_RetryCount (sample_task i p m) = 0"
  "t_Type (sample_task i p m) = ''email''" "t_State (sample_task i p m) = StatePending"
  "t_Timeout (sample_task i p m) = 30 * Second" "t_Payload (sample_task i p m) = Doc JNull"
  by (simp_all add: sample_task_def zero_task_def)

lemma sample_task_ok: "in64 p \<Longrightarrow> in64 m \<Longrightarrow> task_ok (sample_task i p m)"
  by (simp add: sample_task_def zero_task_def task_ok_def times_marshalable_def in64_def)

subsection \<open>Encoding and decoding\<close>

lemma fold_name_fields [simp]:
  "fold_name ''id'' = ''id''" "fold_name ''type'' = ''type''"
  "fold_name ''payload'' = ''payload''" "fold_name ''priority'' = ''priority''"
  "fold_name ''state'' = ''state''" "fold_name ''max_retries'' = ''max_retries''"
  "fold_name ''retry_count'' = ''retry_count''" "fold_name ''timeout'' = ''timeout''"
  "fold_name ''created_at'' = ''created_at''" "fold_name ''scheduled_at'' = ''scheduled_at''"
  "fold_name ''started_at'' = ''started_at''" "fold_name ''completed_at'' = ''completed_at''"
  "fold_name ''error'' = ''error''" "fold_name ''metadata'' = ''metadata''"
  "fold_name ''task_id'' = ''task_id''" "fold_name ''success'' = ''success''"
  "fold_name ''output'' = ''output''" "fold_name ''duration'' = ''duration''"
  by (simp_all add: fold_name_def lower_char_def)

lemma task_ok_marshal: "task_ok t \<Longrightarrow> marshal_task t = Inr (task_json t)"
  by (auto simp: task_ok_def marshal_task_def task_json_def)

lemma set_task_field_simps:
  "set_task_field ''id'' (JStr s) t = Inr (t\<lparr>t_ID := s\<rparr>)"
  "set_task_field ''type'' (JStr s) t = Inr (t\<lparr>t_Type := s\<rparr>)"
  "set_task_field ''payload'' j t = Inr (t\<lparr>t_Payload := Doc j\<rparr>)"
  "in64 n \<Longrightarrow> set_task_field ''priority'' (JNum n) t = Inr (t\<lparr>t_Priority := n\<rparr>)"
  "set_task_field ''state'' (JStr s) t = Inr (t\<lparr>t_State := s\<rparr>)"
  "in64 n \<Longrightarrow> set_task_field ''max_retries'' (JNum n) t = Inr (t\<lparr>t_MaxRetries := n\<rparr>)"
  "in64 n \<Longrightarrow> set_task_field ''retry_count'' (JNum n) t = Inr (t\<lparr>t_RetryCount := n\<rparr>)"
  "in64 n \<Longrightarrow> set_task_field ''timeout'' (JNum n) t = Inr (t\<lparr>t_Timeout := n\<rparr>)"
  "set_task_field ''created_at'' (JTime c) t = Inr (t\<lparr>t_CreatedAt := c\<rparr>)"
  "set_task_field ''scheduled_at'' (JTime c) t = Inr (t\<lparr>t_ScheduledAt := c\<rparr>)"
  "set_task_field ''started_at'' (JTime c) t = Inr (t\<lparr>t_StartedAt := Some c\<rparr>)"
  "set_task_field ''completed_at'' (JTime c) t = Inr (t\<lparr>t_CompletedAt := Some c\<rparr>)"
  "set_task_field ''error'' (JStr s) t = Inr (t\<lparr>t_Error := s\<rparr>)"
  "set_task_field ''metadata'' (JObj m) t = Inr (t\<lparr>t_Metadata := foldl map_put (t_Metadata t) m\<rparr>)"
  by (simp_all add: set_task_field_def)

lemma set_result_field_simps:
  "set_result_field ''task_id'' (JStr s) r = Inr (r\<lparr>r_TaskID := s\<rparr>)"
  "set_result_field ''success'' (JBool b) r = Inr (r\<lparr>r_Success := b\<rparr>)"
  "set_result_field ''output'' j r = Inr (r\<lparr>r_Output := Some (Doc j)\<rparr>)"
  "set_result_field ''error'' (JStr s) r = Inr (r\<lparr>r_Error := s\<rparr>)"
  "set_result_field ''completed_at'' (JTime c) r = Inr (r\<lparr>r_CompletedAt := c\<rparr>)"
  "in64 n \<Longrightarrow> set_result_field ''duration'' (JNum n) r = Inr (r\<lparr>r_Duration := n\<rparr>)"
  by (simp_all add: set_result_field_def)

lemma task_json_roundtrip:
  assumes "task_ok t"
  shows "unmarshal_task (Doc (task_json t)) = Inr t"
proof -
  from assms obtain p where "t_Payload t = Doc p" by (auto simp: task_ok_def)
  with assms show ?thesis
    by (cases t)
       (auto simp: unmarshal_task_def task_json_def task_members_def opt_member_def zero_task_def
          set_task_field_simps foldl_map_put_sorted task_ok_def split: option.splits)
qed

lemma result_marshal_roundtrip:
  assumes "result_ok r"
  shows "\<exists>j. marshal_result r = Inr j \<and> unmarshal_result (Doc j) = Inr r"
  using assms
  by (cases r)
     (auto simp: unmarshal_result_def marshal_result_def result_members_def zero_result_def
        set_result_field_simps result_ok_def Let_def split: option.splits)

lemma marshal_task_Inr:
  "marshal_task t = Inr j \<Longrightarrow> (\<exists>p. t_Payload t = Doc p) \<and> times_marshalable t \<and> j = task_json t"
  by (auto simp: marshal_task_def task_json_def split: blob.splits if_splits)

subsection \<open>Life-cycle operations keep tasks well-formed\<close>

lemma NewTask_ok:
  "NewTask uuid now ty payload = Inr t \<Longrightarrow> time_marshalable now \<Longrightarrow> task_ok t"
  by (auto simp: NewTask_def task_ok_def in64_def times_marshalable_def split: sum.splits)

lemma MarkStarted_ok: "task_ok t \<Longrightarrow> time_marshalable now \<Longrightarrow> task_ok (MarkStarted now t)"
  by (auto simp: MarkStarted_def task_ok_def times_marshalable_def)

lemma MarkCompleted_ok: "task_ok t \<Longrightarrow> time_marshalable now \<Longrightarrow> task_ok (MarkCompleted now t)"
  by (auto simp: MarkCompleted_def task_ok_def times_marshalable_def)

lemma MarkFailed_ok: "task_ok t \<Longrightarrow> time_marshalable now \<Longrightarrow> task_ok (MarkFailed now err t)"
  by (auto simp: MarkFailed_def task_ok_def times_marshalable_def Let_def wrap64_range)

lemmas lifecycle_ok = MarkStarted_ok MarkCompleted_ok MarkFailed_ok

lemma Mark_ID [simp]:
  "t_ID (MarkStarted now t) = t_ID t" "t_ID (MarkCompleted now t) = t_ID t"
  "t_ID (MarkFailed now err t) = t_ID t"
  by (simp_all add: MarkStarted_def MarkCompleted_def MarkFailed_def Let_def)

lemma Mark_frame [simp]:
  "t_Priority (MarkStarted now t) = t_Priority t" "t_Priority (MarkFailed now err t) = t_Priority t"
  "t_MaxRetries (MarkStarted now t) = t_MaxRetries t" "t_MaxRetries (MarkFailed now err t) = t_MaxRetries t"
  "t_RetryCount (MarkStarted now t) = t_RetryCount t"
  "t_Type (MarkStarted now t) = t_Type t" "t_Type (MarkFailed now err t) = t_Type t"
  "t_Payload (MarkStarted now t) = t_Payload t" "t_Payload (MarkFailed now err t) = t_Payload t"
  "t_Timeout (MarkStarted now t) = t_Timeout t" "t_Timeout (MarkFailed now err t) = t_Timeout t"
  by (simp_all add: MarkStarted_def MarkFailed_def Let_def)

lemma MarkFailed_state:
  "t_State (MarkFailed now err t) = (if ShouldRetry t then StateRetrying else StateDeadLetter)"
  by (simp add: MarkFailed_def ShouldRetry_def Let_def)

lemma MarkFailed_count:
  "in64 (t_RetryCount t + 1) \<Longrightarrow> t_RetryCount (MarkFailed now err t) = t_RetryCount t + 1"
  by (simp add: MarkFailed_def Let_def wrap64_id)

subsection \<open>Backoff\<close>

lemma retry_shift:
  assumes "0 \<le> n" and "n < 64"
  shows "shl64 1 (to_uint64 n) = wrap64 (2 ^ nat n)"
proof -
  from assms have "to_uint64 n = n" by (simp add: to_uint64_def)
  with assms show ?thesis by (simp add: shl64_def)
qed

lemma in64_backoff: "0 \<le> p \<Longrightarrow> p \<le> 2 ^ 33 \<Longrightarrow> in64 p \<and> in64 (Second * p)"
  by (simp add: in64_def)

lemma retry_delay_small:
  assumes "0 \<le> t_RetryCount t" and "t_RetryCount t \<le> 33"
  shows "GetRetryDelay t = min (Second * 2 ^ nat (t_RetryCount t)) (5 * Minute)"
proof -
  let ?p = "2 ^ nat (t_RetryCount t) :: int"
  have "?p \<le> 2 ^ 33" by (rule power_increasing) (use assms in auto)
  with in64_backoff [of ?p] have "wrap64 ?p = ?p" and "wrap64 (Second * ?p) = Second * ?p"
    by (simp_all only: wrap64_id zero_le_power zero_le_numeral)
  moreover from assms have "shl64 1 (to_uint64 (t_RetryCount t)) = wrap64 ?p"
    by (intro retry_shift) simp_all
  ultimately have "GetRetryDelay t = (if Second * ?p > 5 * Minute then 5 * Minute else Second * ?p)"
    by (simp only: GetRetryDelay_def Let_def mult_1)
  then show ?thesis by (simp only: min_def) simp
qed

lemma retry_delay_large:
  assumes "in64 (t_RetryCount t)" and "55 \<le> t_RetryCount t"
  shows "GetRetryDelay t = 0"
proof (cases "t_RetryCount t < 64")
  case True
  with assms have "t_RetryCount t \<in> {55, 56, 57, 58, 59, 60, 61, 62, 63}"
    by (simp, presburger)
  then show ?thesis
    by (elim insertE emptyE)
       (simp_all add: GetRetryDelay_def Let_def shl64_def to_uint64_def wrap64_def)
next
  case False
  with assms have "to_uint64 (t_RetryCount t) = t_RetryCount t"
    by (intro to_uint64_nonneg) simp_all
  with False show ?thesis by (simp add: GetRetryDelay_def shl64_def wrap64_def)
qed

subsection \<open>The life cycle of a task\<close>

text \<open>
  The transitions a worker makes on a task it owns: it is started when it is pending or
  retrying, and a task that is being processed is completed or failed.
\<close>

inductive life_step :: "task \<Rightarrow> task \<Rightarrow> bool" where
  life_start: "t_State t = StatePending \<or> t_State t = StateRetrying \<Longrightarrow> life_step t (MarkStarted now t)"
| life_complete: "t_State t = StateProcessing \<Longrightarrow> life_step t (MarkCompleted now t)"
| life_fail: "t_State t = StateProcessing \<Longrightarrow> life_step t (MarkFailed now err t)"

definition life_init :: "task \<Rightarrow> bool" where
  "life_init t \<longleftrightarrow> t_State t = StatePending \<and> t_RetryCount t = 0 \<and> t_CompletedAt t = None \<and>
     0 \<le> t_MaxRetries t \<and> t_MaxRetries t < 2 ^ 63 - 1"

definition life_inv :: "task \<Rightarrow> bool" where
  "life_inv t \<longleftrightarrow>
     0 \<le> t_MaxRetries t \<and> t_MaxRetries t < 2 ^ 63 - 1 \<and> 0 \<le> t_RetryCount t \<and>
     t_State t \<in> {StatePending, StateProcessing, StateRetrying, StateCompleted, StateDeadLetter} \<and>
     (if t_State t = StateDeadLetter then t_RetryCount t = t_MaxRetries t + 1
      else t_RetryCount t \<le> t_MaxRetries t) \<and>
     (t_State t = StatePending \<longrightarrow> t_RetryCount t = 0) \<and>
     (t_State t = StateRetrying \<longrightarrow> 0 < t_RetryCount t) \<and>
     (t_CompletedAt t \<noteq> None \<longleftrightarrow> t_State t \<in> {StateCompleted, StateDeadLetter})"

lemma life_start_inv:
  "life_inv t \<Longrightarrow> t_State t = StatePending \<or> t_State t = StateRetrying \<Longrightarrow> life_inv (MarkStarted now t)"
  by (elim disjE) (simp_all add: life_inv_def MarkStarted_def)

lemma life_complete_inv:
  "life_inv t \<Longrightarrow> t_State t = StateProcessing \<Longrightarrow> life_inv (MarkCompleted now t)"
  by (simp add: life_inv_def MarkCompleted_def)

lemma life_fail_inv:
  assumes "life_inv t" and "t_State t = StateProcessing"
  shows "life_inv (MarkFailed now err t)"
proof -
  from assms have count: "wrap64 (t_RetryCount t + 1) = t_RetryCount t + 1"
    by (intro wrap64_id) (simp add: life_inv_def in64_def)
  show ?thesis
  proof (cases "t_RetryCount t < t_MaxRetries t")
    case True
    with assms count show ?thesis by (simp add: life_inv_def MarkFailed_def Let_def)
  next
    case False
    with assms count show ?thesis by (simp add: life_inv_def MarkFailed_def Let_def)
  qed
qed

lemma life_step_inv: "life_inv s \<Longrightarrow> life_step s t \<Longrightarrow> life_inv t"
  by (erule life_step.cases) (blast intro: life_start_inv life_complete_inv life_fail_inv)+

interpretation life: inductive_invariant life_init life_step life_inv
  by unfold_locales (simp add: life_init_def life_inv_def, rule life_step_inv)

section \<open>Properties\<close>



text \<open>Up to a retry count of 33 the delay is \<open>2^n\<close> seconds capped at five minutes: at least one
  second, and the cap is reached from the count 9 on.\<close>

theorem backoff_doubles_up_to_cap:
  assumes "0 \<le> t_RetryCount t" and "t_RetryCount t \<le> 33"
  shows "GetRetryDelay t = (if t_RetryCount t \<le> 8 then Second * 2 ^ nat (t_RetryCount t) else 5 * Minute)"
proof (cases "t_RetryCount t \<le> 8")
  case True
  with assms(1) have "t_RetryCount t \<in> {0, 1, 2, 3, 4, 5, 6, 7, 8}" by (simp, presburger)
  with retry_delay_small [OF assms] True show ?thesis by auto
next
  case False
  then have "(2 :: int) ^ 9 \<le> 2 ^ nat (t_RetryCount t)" by (intro power_increasing) simp_all
  with retry_delay_small [OF assms] False show ?thesis by simp
qed

theorem backoff_doubles_up_to_cap_witness:
  "GetRetryDelay ((sample_task ''a'' 1 3)\<lparr>t_RetryCount := 3\<rparr>) = 8 * Second"
  using backoff_doubles_up_to_cap [of "(sample_task ''a'' 1 3)\<lparr>t_RetryCount := 3\<rparr>"] by simp

text \<open>C33: The backoff overflows: at a retry count of 34 the 64-bit product is negative, so that the
  cap does not apply and the delay is negative, and from a count of 55 on it is zero.\<close>

theorem backoff_overflows:
  "(t_RetryCount t = 34 \<longrightarrow> GetRetryDelay t < 0) \<and> (in64 (t_RetryCount t) \<and> 55 \<le> t_RetryCount t \<longrightarrow> GetRetryDelay t = 0)"
  using retry_delay_large [of t]
  by (simp add: GetRetryDelay_def Let_def shl64_def to_uint64_def wrap64_def)

theorem backoff_overflows_witness:
  "GetRetryDelay ((sample_task ''a'' 1 60)\<lparr>t_RetryCount := 34\<rparr>) < 0 \<and>
   GetRetryDelay ((sample_task ''a'' 1 60)\<lparr>t_RetryCount := 57\<rparr>) = 0"
  using backoff_overflows [of "(sample_task ''a'' 1 60)\<lparr>t_RetryCount := 34\<rparr>"]
    backoff_overflows [of "(sample_task ''a'' 1 60)\<lparr>t_RetryCount := 57\<rparr>"] by (simp add: in64_def)

text \<open>C21: Along every sequence of life-cycle steps of a task, the retry count stays within the
  maximum until the task is dead, a dead task has used all its retries, and a completion time is
  set exactly in the two final states.\<close>

theorem life_cycle_invariant:
  assumes "reach life_init life_step t"
  shows "0 \<le> t_RetryCount t \<and>
    t_State t \<in> {StatePending, StateProcessing, StateRetrying, StateCompleted, StateDeadLetter} \<and>
    (if t_State t = StateDeadLetter then t_RetryCount t = t_MaxRetries t + 1 else t_RetryCount t \<le> t_MaxRetries t) \<and>
    (t_CompletedAt t \<noteq> None \<longleftrightarrow> t_State t \<in> {StateCompleted, StateDeadLetter})"
  using life.reach_inv [OF assms] unfolding life_inv_def by blast

theorem life_cycle_invariant_witness:
  "let t = MarkFailed 7 (Err ''boom'') (MarkStarted 5 (sample_task ''a'' 1 0)) in
   t_State t = StateDeadLetter \<and> t_RetryCount t = t_MaxRetries t + 1 \<and> t_CompletedAt t \<noteq> None"
proof -
  let ?t0 = "sample_task ''a'' 1 0"
  have "life_init ?t0" by (simp add: life_init_def) (simp add: sample_task_def zero_task_def)
  then have "reach life_init life_step ?t0" by (rule reach_init)
  then have "reach life_init life_step (MarkStarted 5 ?t0)" by (rule reach_step) (simp add: life_start)
  then have "reach life_init life_step (MarkFailed 7 (Err ''boom'') (MarkStarted 5 ?t0))"
    by (rule reach_step) (simp add: life_fail MarkStarted_def)
  from life_cycle_invariant [OF this] show ?thesis
    by (simp add: MarkFailed_state ShouldRetry_def Let_def)
qed

text \<open>\<open>ParsePriority\<close> accepts exactly the names that \<open>String\<close> gives to the four priorities, and
  returns the priority of that name.\<close>

theorem ParsePriority_inverts_String:
  "ParsePriority s = (p, None) \<longleftrightarrow> p \<in> {PriorityLow, PriorityNormal, PriorityHigh, PriorityCritical} \<and> PriorityString p = s"
  by (auto simp: ParsePriority_def PriorityString_def)

end
