(* ===== verification/Spool_Redis.thy ===== *)
theory Spool_Redis
  imports Spool_Task "HOL-Library.AList"
begin

text \<open>
  The world the program runs in. Redis, reached through \<open>github.com/redis/go-redis/v9\<close>, is
  not part of the sources: the client is a parameter \<open>ex\<close> of every operation that uses it,
  a function that runs one command under a context on a server state of any type \<open>'s\<close>.
  What the sources rely on is the hypothesis \<open>redis_server ex view pk\<close>: seen through
  \<open>view\<close>, each command under a live context does and answers what the Redis command
  reference says (\<open>redis_step\<close>), and under a cancelled context it fails without effect.
  \<open>pk\<close> is the choice \<open>SRANDMEMBER\<close> makes.

  The world also holds what the program cannot control: the readings of \<open>time.Now()\<close>,
  and, for each run of a task handler, whether the deadline of the task's context passed and
  the state of the worker's context afterwards.
\<close>

section \<open>Definitions\<close>

subsection \<open>Contexts\<close>

text \<open>A \<open>context.Context\<close>, as \<open>ctx.Err()\<close> shows it.\<close>

datatype ctx = Live | Canceled | DeadlineExceeded

definition ctx_Err :: "ctx \<Rightarrow> gerr option" where
  "ctx_Err c =
     (case c of Live \<Rightarrow> None
      | Canceled \<Rightarrow> Some (Err ''context canceled'')
      | DeadlineExceeded \<Rightarrow> Some (Err ''context deadline exceeded''))"

subsection \<open>Commands and replies\<close>

datatype cmd =
    PING
  | SET string blob int \<comment> \<open>key, value, time to live (0: none)\<close>
  | GET string
  | DEL string
  | INCR string
  | RPUSH string blob
  | LPUSH string blob
  | LPOP string
  | LINDEX string int
  | LLEN string
  | LRANGE string int int
  | SADD string string
  | SREM string string
  | SMEMBERS string
  | SRANDMEMBER string int
  | SCAN string \<comment> \<open>all keys with this prefix, over a whole iteration\<close>

datatype reply =
    ROk
  | RNil
  | RInt int
  | RBulk blob
  | RArr "blob list"
  | RErr string

type_synonym 's client = "ctx \<Rightarrow> cmd \<Rightarrow> 's \<Rightarrow> reply \<times> 's"

text \<open>How go-redis hands replies to the caller: \<open>Err()\<close>, and \<open>Result()\<close> of the typed commands.\<close>

fun cmd_err :: "reply \<Rightarrow> gerr option" where
  "cmd_err (RErr m) = Some (Err m)"
| "cmd_err RNil = Some (Err ''redis: nil'')"
| "cmd_err _ = None"

definition bad_reply :: gerr where
  "bad_reply = Err ''redis: unexpected reply''"

text \<open>A string command; \<open>Inr None\<close> is the error value \<open>redis.Nil\<close>.\<close>

fun str_result :: "reply \<Rightarrow> gerr + blob option" where
  "str_result (RBulk b) = Inr (Some b)"
| "str_result RNil = Inr None"
| "str_result (RErr m) = Inl (Err m)"
| "str_result _ = Inl bad_reply"

fun int_result :: "reply \<Rightarrow> gerr + int" where
  "int_result (RInt n) = Inr n"
| "int_result (RErr m) = Inl (Err m)"
| "int_result _ = Inl bad_reply"

fun arr_result :: "reply \<Rightarrow> gerr + blob list" where
  "arr_result (RArr bs) = Inr bs"
| "arr_result (RErr m) = Inl (Err m)"
| "arr_result _ = Inl bad_reply"

text \<open>The text of a value that is used as an identifier or a key.\<close>

fun blob_text :: "blob \<Rightarrow> string option" where
  "blob_text (Text s) = Some s"
| "blob_text (Doc _) = None"

subsection \<open>The documented behaviour of the commands\<close>

datatype rval = VStr blob int | VList "blob list" | VSet "string list"

record db =
  keyspace :: "(string \<times> rval) list"
  draws :: nat

definition key_get :: "string \<Rightarrow> db \<Rightarrow> rval option" where
  "key_get k d = map_of (keyspace d) k"

definition key_put :: "string \<Rightarrow> rval \<Rightarrow> db \<Rightarrow> db" where
  "key_put k v d = d\<lparr>keyspace := AList.update k v (keyspace d)\<rparr>"

definition key_del :: "string \<Rightarrow> db \<Rightarrow> db" where
  "key_del k d = d\<lparr>keyspace := AList.delete k (keyspace d)\<rparr>"

definition list_at :: "string \<Rightarrow> db \<Rightarrow> blob list option" where
  "list_at k d = (case key_get k d of None \<Rightarrow> Some [] | Some (VList xs) \<Rightarrow> Some xs | Some _ \<Rightarrow> None)"

definition put_list :: "string \<Rightarrow> blob list \<Rightarrow> db \<Rightarrow> db" where
  "put_list k xs d = (if xs = [] then key_del k d else key_put k (VList xs) d)"

definition set_at :: "string \<Rightarrow> db \<Rightarrow> string list option" where
  "set_at k d = (case key_get k d of None \<Rightarrow> Some [] | Some (VSet xs) \<Rightarrow> Some xs | Some _ \<Rightarrow> None)"

definition put_set :: "string \<Rightarrow> string list \<Rightarrow> db \<Rightarrow> db" where
  "put_set k xs d = (if xs = [] then key_del k d else key_put k (VSet xs) d)"

definition wrongtype :: reply where
  "wrongtype = RErr ''WRONGTYPE Operation against a key holding the wrong kind of value''"

definition lrange :: "int \<Rightarrow> int \<Rightarrow> 'a list \<Rightarrow> 'a list" where
  "lrange i j xs =
     (let n = int (length xs); lo = (if i < 0 then max 0 (n + i) else i);
          hi = min (n - 1) (if j < 0 then n + j else j)
      in if lo > hi then [] else take (nat (hi - lo + 1)) (drop (nat lo) xs))"

definition lindex :: "int \<Rightarrow> 'a list \<Rightarrow> 'a option" where
  "lindex i xs =
     (let n = int (length xs); j = (if i < 0 then n + i else i)
      in if 0 \<le> j \<and> j < n then Some (xs ! nat j) else None)"

type_synonym picker = "nat \<Rightarrow> int \<Rightarrow> string list \<Rightarrow> string list"

definition picker_ok :: "picker \<Rightarrow> bool" where
  "picker_ok pk \<longleftrightarrow>
     (\<forall>i n xs. 0 \<le> n \<longrightarrow> distinct xs \<longrightarrow>
        distinct (pk i n xs) \<and> set (pk i n xs) \<subseteq> set xs \<and>
        length (pk i n xs) = min (nat n) (length xs))"

fun redis_step :: "picker \<Rightarrow> cmd \<Rightarrow> db \<Rightarrow> reply \<times> db" where
  "redis_step pk PING d = (ROk, d)"
| "redis_step pk (SET k v ttl) d = (ROk, key_put k (VStr v ttl) d)"
| "redis_step pk (GET k) d =
     (case key_get k d of None \<Rightarrow> (RNil, d) | Some (VStr v _) \<Rightarrow> (RBulk v, d) | Some _ \<Rightarrow> (wrongtype, d))"
| "redis_step pk (DEL k) d = (RInt (if key_get k d = None then 0 else 1), key_del k d)"
| "redis_step pk (INCR k) d =
     (case key_get k d of
        None \<Rightarrow> (RInt 1, key_put k (VStr (Doc (JNum 1)) 0) d)
      | Some (VStr (Doc (JNum n)) ttl) \<Rightarrow>
          if in64 (n + 1) then (RInt (n + 1), key_put k (VStr (Doc (JNum (n + 1))) ttl) d)
          else (RErr ''ERR increment or decrement would overflow'', d)
      | Some (VStr _ _) \<Rightarrow> (RErr ''ERR value is not an integer or out of range'', d)
      | Some _ \<Rightarrow> (wrongtype, d))"
| "redis_step pk (RPUSH k v) d =
     (case list_at k d of None \<Rightarrow> (wrongtype, d)
      | Some xs \<Rightarrow> (RInt (int (length xs) + 1), put_list k (xs @ [v]) d))"
| "redis_step pk (LPUSH k v) d =
     (case list_at k d of None \<Rightarrow> (wrongtype, d)
      | Some xs \<Rightarrow> (RInt (int (length xs) + 1), put_list k (v # xs) d))"
| "redis_step pk (LPOP k) d =
     (case list_at k d of None \<Rightarrow> (wrongtype, d)
      | Some [] \<Rightarrow> (RNil, d)
      | Some (x # xs) \<Rightarrow> (RBulk x, put_list k xs d))"
| "redis_step pk (LINDEX k i) d =
     (case list_at k d of None \<Rightarrow> (wrongtype, d)
      | Some xs \<Rightarrow> (case lindex i xs of None \<Rightarrow> (RNil, d) | Some x \<Rightarrow> (RBulk x, d)))"
| "redis_step pk (LLEN k) d =
     (case list_at k d of None \<Rightarrow> (wrongtype, d) | Some xs \<Rightarrow> (RInt (int (length xs)), d))"
| "redis_step pk (LRANGE k i j) d =
     (case list_at k d of None \<Rightarrow> (wrongtype, d) | Some xs \<Rightarrow> (RArr (lrange i j xs), d))"
| "redis_step pk (SADD k m) d =
     (case set_at k d of None \<Rightarrow> (wrongtype, d)
      | Some xs \<Rightarrow> if m \<in> set xs then (RInt 0, d) else (RInt 1, put_set k (xs @ [m]) d))"
| "redis_step pk (SREM k m) d =
     (case set_at k d of None \<Rightarrow> (wrongtype, d)
      | Some xs \<Rightarrow> if m \<in> set xs then (RInt 1, put_set k (filter (\<lambda>x. x \<noteq> m) xs) d) else (RInt 0, d))"
| "redis_step pk (SMEMBERS k) d =
     (case set_at k d of None \<Rightarrow> (wrongtype, d) | Some xs \<Rightarrow> (RArr (map Text xs), d))"
| "redis_step pk (SRANDMEMBER k n) d =
     (case set_at k d of None \<Rightarrow> (wrongtype, d)
      | Some xs \<Rightarrow> (RArr (map Text (pk (draws d) n xs)), d\<lparr>draws := Suc (draws d)\<rparr>))"
| "redis_step pk (SCAN p) d =
     (RArr (map Text (filter (\<lambda>k. take (length p) k = p) (remdups (map fst (keyspace d))))), d)"

text \<open>The client whose server state is the database itself.\<close>

definition redis_client :: "picker \<Rightarrow> db client" where
  "redis_client pk c x d =
     (case ctx_Err c of None \<Rightarrow> redis_step pk x d | Some e \<Rightarrow> (RErr (err_Error e), d))"

definition redis_server :: "'s client \<Rightarrow> ('s \<Rightarrow> db) \<Rightarrow> picker \<Rightarrow> bool" where
  "redis_server ex view pk \<longleftrightarrow>
     (\<forall>c x s. redis_client pk c x (view s) = (fst (ex c x s), view (snd (ex c x s))))"

text \<open>
  A server that may also fail: a command is answered as documented, or it is answered with
  an error, and then it may have been carried out or not.
\<close>

definition redis_faulty :: "'s client \<Rightarrow> ('s \<Rightarrow> db) \<Rightarrow> picker \<Rightarrow> bool" where
  "redis_faulty ex view pk \<longleftrightarrow>
     (\<forall>c x s. redis_client pk c x (view s) = (fst (ex c x s), view (snd (ex c x s))) \<or>
        (\<exists>m. fst (ex c x s) = RErr m) \<and>
        view (snd (ex c x s)) \<in> {view s, snd (redis_client pk c x (view s))})"

subsection \<open>The world and its effects\<close>

record 's world =
  w_db :: 's
  w_clock :: "nat \<Rightarrow> int"
  w_tick :: nat
  w_expired :: "nat \<Rightarrow> bool"
  w_parent :: "nat \<Rightarrow> ctx"
  w_runs :: "string list" \<comment> \<open>the tasks whose handler was run, by identifier\<close>
  w_slept :: "int list" \<comment> \<open>the arguments of \<open>time.Sleep\<close>\<close>

type_synonym ('s, 'a) io = "('s world, 'a) state"

definition redis_do :: "'s client \<Rightarrow> ctx \<Rightarrow> cmd \<Rightarrow> ('s, reply) io" where
  "redis_do ex c x = State (\<lambda>w. let (r, s) = ex c x (w_db w) in (r, w\<lparr>w_db := s\<rparr>))"

definition time_Now :: "('s, int) io" where
  "time_Now = State (\<lambda>w. (w_clock w (w_tick w), w\<lparr>w_tick := Suc (w_tick w)\<rparr>))"

definition time_Sleep :: "int \<Rightarrow> ('s, unit) io" where
  "time_Sleep d = State (\<lambda>w. ((), w\<lparr>w_slept := w_slept w @ [d]\<rparr>))"

abbreviation (input) ret :: "'a \<Rightarrow> ('s, 'a) io" where
  "ret \<equiv> State_Monad.return"

subsection \<open>Simulation\<close>

definition world_map :: "('s \<Rightarrow> 'd) \<Rightarrow> 's world \<Rightarrow> 'd world" where
  "world_map f w =
     \<lparr>w_db = f (w_db w), w_clock = w_clock w, w_tick = w_tick w, w_expired = w_expired w,
      w_parent = w_parent w, w_runs = w_runs w, w_slept = w_slept w\<rparr>"

definition simulates :: "('s \<Rightarrow> 'd) \<Rightarrow> ('s, 'a) io \<Rightarrow> ('d, 'a) io \<Rightarrow> bool" where
  "simulates f m n \<longleftrightarrow>
     (\<forall>w. run_state n (world_map f w) = map_prod id (world_map f) (run_state m w))"

named_theorems sim_intros \<open>composition rules of simulations\<close>
named_theorems run_simps \<open>one effect at a time: what an operation returns and leaves behind\<close>

text \<open>A server, a choice and a world for the concrete instances of the theorems.\<close>

definition empty_db :: db where
  "empty_db = \<lparr>keyspace = [], draws = 0\<rparr>"

definition first_pick :: picker where
  "first_pick i n xs = take (nat n) xs"

definition start_world :: "'s \<Rightarrow> 's world" where
  "start_world s =
     \<lparr>w_db = s, w_clock = (\<lambda>n. int n * Second), w_tick = 0, w_expired = (\<lambda>_. False),
      w_parent = (\<lambda>_. Live), w_runs = [], w_slept = []\<rparr>"

section \<open>Lemmas\<close>

lemma start_world_simps [simp]:
  "w_db (start_world s) = s" "w_tick (start_world s) = 0" "w_clock (start_world s) n = int n * Second"
  "w_expired (start_world s) n = False" "w_parent (start_world s) n = Live"
  "w_runs (start_world s) = []" "w_slept (start_world s) = []"
  by (simp_all add: start_world_def)

lemma key_get_empty [simp]: "key_get k empty_db = None"
  by (simp add: key_get_def empty_db_def)

lemma list_at_empty [simp]: "list_at k empty_db = Some []"
  by (simp add: list_at_def)

lemma set_at_empty [simp]: "set_at k empty_db = Some []"
  by (simp add: set_at_def)

lemma first_pick_ok: "picker_ok first_pick"
  by (auto simp: picker_ok_def first_pick_def dest: in_set_takeD)

lemma world_map_simps [simp]:
  "w_db (world_map f w) = f (w_db w)" "w_clock (world_map f w) = w_clock w"
  "w_tick (world_map f w) = w_tick w" "w_expired (world_map f w) = w_expired w"
  "w_parent (world_map f w) = w_parent w" "w_runs (world_map f w) = w_runs w"
  "w_slept (world_map f w) = w_slept w"
  by (simp_all add: world_map_def)

lemma world_map_id [simp]: "world_map id w = w"
  by (simp add: world_map_def)

subsection \<open>Effects\<close>

lemma run_redis_do [run_simps]:
  "run_state (redis_do ex c x) w = (fst (ex c x (w_db w)), w\<lparr>w_db := snd (ex c x (w_db w))\<rparr>)"
  by (simp add: redis_do_def split: prod.split)

lemma run_time_Now [run_simps]:
  "run_state time_Now w = (w_clock w (w_tick w), w\<lparr>w_tick := Suc (w_tick w)\<rparr>)"
  by (simp add: time_Now_def)

lemma run_time_Sleep [run_simps]:
  "run_state (time_Sleep d) w = ((), w\<lparr>w_slept := w_slept w @ [d]\<rparr>)"
  by (simp add: time_Sleep_def)

subsection \<open>Simulations compose\<close>

lemma simulates_return [sim_intros]: "simulates f (State_Monad.return a) (State_Monad.return a)"
  by (simp add: simulates_def)

lemma simulates_bind [sim_intros]:
  assumes "simulates f m n" and "\<And>a. simulates f (g a) (h a)"
  shows "simulates f (State_Monad.bind m g) (State_Monad.bind n h)"
  using assms by (simp add: simulates_def split: prod.split)

lemma simulates_if [sim_intros]:
  assumes "b \<Longrightarrow> simulates f m n" and "\<not> b \<Longrightarrow> simulates f m' n'"
  shows "simulates f (if b then m else m') (if b then n else n')"
  using assms by simp

lemma simulates_sum [sim_intros]:
  assumes "\<And>a. simulates f (g a) (g' a)" and "\<And>b. simulates f (h b) (h' b)"
  shows "simulates f (case s of Inl a \<Rightarrow> g a | Inr b \<Rightarrow> h b) (case s of Inl a \<Rightarrow> g' a | Inr b \<Rightarrow> h' b)"
  using assms by (simp split: sum.split)

lemma simulates_option [sim_intros]:
  assumes "simulates f m m'" and "\<And>b. simulates f (h b) (h' b)"
  shows "simulates f (case s of None \<Rightarrow> m | Some b \<Rightarrow> h b) (case s of None \<Rightarrow> m' | Some b \<Rightarrow> h' b)"
  using assms by (simp split: option.split)

lemma simulates_let [sim_intros]:
  assumes "\<And>a. simulates f (g a) (g' a)"
  shows "simulates f (let a = x in g a) (let a = x in g' a)"
  using assms by simp

lemma simulates_prod [sim_intros]:
  assumes "\<And>a b. simulates f (g a b) (g' a b)"
  shows "simulates f (case p of (a, b) \<Rightarrow> g a b) (case p of (a, b) \<Rightarrow> g' a b)"
  using assms by (simp split: prod.split)

lemma simulates_time_Now [sim_intros]: "simulates f time_Now time_Now"
  by (simp add: simulates_def run_simps world_map_def)

lemma simulates_time_Sleep [sim_intros]: "simulates f (time_Sleep d) (time_Sleep d)"
  by (simp add: simulates_def run_simps world_map_def)

lemma simulates_redis_do [sim_intros]:
  assumes "redis_server ex view pk"
  shows "simulates view (redis_do ex c x) (redis_do (redis_client pk) c x)"
  using assms by (simp add: simulates_def run_simps world_map_def redis_server_def)

lemma redis_server_refl: "redis_server (redis_client pk) id pk"
  by (simp add: redis_server_def)

lemma redis_client_Live [simp]: "redis_client pk Live x d = redis_step pk x d"
  by (simp add: redis_client_def ctx_Err_def)

lemma simulatesD:
  assumes "simulates f m n"
  shows "fst (run_state m w) = fst (run_state n (world_map f w))"
    and "world_map f (snd (run_state m w)) = snd (run_state n (world_map f w))"
  using assms by (simp_all add: simulates_def)

lemma simulates_run:
  assumes "simulates f m n" and "run_state n (world_map f w) = (a, v)"
  shows "\<exists>v'. run_state m w = (a, v') \<and> world_map f v' = v"
  using assms by (cases "run_state m w") (simp add: simulates_def)

subsection \<open>The keyspace\<close>

lemma key_get_put [simp]: "key_get k (key_put k' v d) = (if k = k' then Some v else key_get k d)"
  by (simp add: key_get_def key_put_def AList.update_conv')

lemma key_get_del [simp]: "key_get k (key_del k' d) = (if k = k' then None else key_get k d)"
  by (simp add: key_get_def key_del_def delete_conv')

lemma key_get_draws [simp]: "key_get k (d\<lparr>draws := n\<rparr>) = key_get k d"
  by (simp add: key_get_def)

lemma list_at_put_list [simp]:
  "list_at k (put_list k' xs d) = (if k = k' then Some xs else list_at k d)"
  by (simp add: list_at_def put_list_def)

lemma list_at_other [simp]:
  "k \<noteq> k' \<Longrightarrow> list_at k (key_put k' v d) = list_at k d"
  "k \<noteq> k' \<Longrightarrow> list_at k (key_del k' d) = list_at k d"
  "k \<noteq> k' \<Longrightarrow> list_at k (put_set k' ys d) = list_at k d"
  by (simp_all add: list_at_def put_set_def)

lemma key_get_other [simp]:
  "k \<noteq> k' \<Longrightarrow> key_get k (put_list k' xs d) = key_get k d"
  "k \<noteq> k' \<Longrightarrow> key_get k (put_set k' ys d) = key_get k d"
  by (simp_all add: put_list_def put_set_def)

lemma set_at_put_set [simp]:
  "set_at k (put_set k' xs d) = (if k = k' then Some xs else set_at k d)"
  by (simp add: set_at_def put_set_def)

lemma set_at_other [simp]:
  "k \<noteq> k' \<Longrightarrow> set_at k (key_put k' v d) = set_at k d"
  "k \<noteq> k' \<Longrightarrow> set_at k (key_del k' d) = set_at k d"
  "k \<noteq> k' \<Longrightarrow> set_at k (put_list k' ys d) = set_at k d"
  by (simp_all add: set_at_def put_list_def)

lemma lindex_0: "lindex 0 xs = (case xs of [] \<Rightarrow> None | x # _ \<Rightarrow> Some x)"
  by (cases xs) (simp_all add: lindex_def)

lemma lrange_all: "lrange 0 (- 1) xs = xs"
  by (cases xs) (simp_all add: lrange_def Let_def)

lemma lrange_take: "0 < n \<Longrightarrow> lrange 0 (n - 1) xs = take (nat n) xs"
  by (cases "n \<le> int (length xs)") (auto simp: lrange_def Let_def min_def)

end
