(* ===== verification/Spool_Registry.thy ===== *)
theory Spool_Registry
  imports Spool_Redis
begin

text \<open>
  \<open>internal/task/handler.go\<close>: the registry of task handlers and \<open>Registry.Execute\<close>. A
  handler is code of the embedding program: a function of the number of the run (so that it
  may behave differently on a retry), the timeout of its context and the payload, which
  returns an error or a value. The read-write lock makes each method atomic.
\<close>

section \<open>Definitions\<close>

type_synonym handler = "nat \<Rightarrow> int \<Rightarrow> blob \<Rightarrow> gerr + gvalue"

record Registry =
  handlers :: "(string \<times> handler) list" \<comment> \<open>the map, in its iteration order\<close>

definition NewRegistry :: Registry where
  "NewRegistry = \<lparr>handlers = []\<rparr>"

definition Register :: "Registry \<Rightarrow> string \<Rightarrow> handler \<Rightarrow> gerr option \<times> Registry" where
  "Register r taskType h =
     (case map_of (handlers r) taskType of
        Some _ \<Rightarrow> (Some (Err (''handler for task type '' @ [CHR 0x27] @ taskType @ [CHR 0x27] @ '' already registered'')), r)
      | None \<Rightarrow> (None, r\<lparr>handlers := handlers r @ [(taskType, h)]\<rparr>))"

definition Registry_Get :: "Registry \<Rightarrow> string \<Rightarrow> gerr + handler" where
  "Registry_Get r taskType =
     (case map_of (handlers r) taskType of
        None \<Rightarrow> Inl (Err (''no handler registered for task type '' @ [CHR 0x27] @ taskType @ [CHR 0x27]))
      | Some h \<Rightarrow> Inr h)"

definition Types :: "Registry \<Rightarrow> string list" where
  "Types r = map fst (handlers r)"

text \<open>The call of the handler; the world records that the task was run.\<close>

definition call_handler :: "handler \<Rightarrow> int \<Rightarrow> task \<Rightarrow> ('s, gerr + gvalue) io" where
  "call_handler h timeout t =
     State (\<lambda>w. (h (length (w_runs w)) timeout (t_Payload t), w\<lparr>w_runs := w_runs w @ [t_ID t]\<rparr>))"

text \<open>\<open>Execute\<close> returns a result and an error; both may be set.\<close>

definition Execute :: "Registry \<Rightarrow> int \<Rightarrow> task \<Rightarrow> ('s, result option \<times> gerr option) io" where
  "Execute r timeout t =
     (case Registry_Get r (t_Type t) of
        Inl e \<Rightarrow> ret (None, Some e)
      | Inr h \<Rightarrow> do {
          out \<leftarrow> call_handler h timeout t;
          now \<leftarrow> time_Now;
          let res = zero_result\<lparr>r_TaskID := t_ID t, r_CompletedAt := now\<rparr>;
          (case out of
             Inl e \<Rightarrow> ret (Some (res\<lparr>r_Success := False, r_Error := err_Error e\<rparr>), Some e)
           | Inr v \<Rightarrow>
             (case json_Marshal v of
                Inl e \<Rightarrow> ret (Some (res\<lparr>r_Success := False, r_Error := ''failed to marshal output: '' @ err_Error e\<rparr>), Some e)
              | Inr j \<Rightarrow> ret (Some (res\<lparr>r_Success := True, r_Output := Some (Doc j)\<rparr>), None)))
        })"

definition registry_ok :: "Registry \<Rightarrow> bool" where
  "registry_ok r \<longleftrightarrow> distinct (map fst (handlers r))"

section \<open>Lemmas\<close>

lemma run_call_handler [run_simps]:
  "run_state (call_handler h timeout t) w =
     (h (length (w_runs w)) timeout (t_Payload t), w\<lparr>w_runs := w_runs w @ [t_ID t]\<rparr>)"
  by (simp add: call_handler_def)

lemma sim_call_handler [sim_intros]: "simulates f (call_handler h timeout t) (call_handler h timeout t)"
  by (simp add: simulates_def run_simps world_map_def)

lemma sim_Execute [sim_intros]: "simulates f (Execute r timeout t) (Execute r timeout t)"
  unfolding Execute_def by (intro sim_intros)

lemma Register_ok: "registry_ok r \<Longrightarrow> registry_ok (snd (Register r ty h))"
  by (auto simp: registry_ok_def Register_def map_of_eq_None_iff split: option.split)

lemma Register_new:
  assumes "ty \<notin> set (Types r)"
  shows "Register r ty h = (None, r\<lparr>handlers := handlers r @ [(ty, h)]\<rparr>)"
  using assms by (auto simp: Register_def Types_def map_of_eq_None_iff split: option.split dest: map_of_SomeD)

lemma Register_dup:
  assumes "ty \<in> set (Types r)"
  shows "fst (Register r ty h) \<noteq> None \<and> snd (Register r ty h) = r"
proof -
  from assms obtain g where "map_of (handlers r) ty = Some g"
    by (metis Types_def map_of_eq_None_iff not_None_eq set_map)
  then show ?thesis by (simp add: Register_def)
qed

section \<open>Properties\<close>

text \<open>Registration keeps the handlers of distinct types apart: a new type is looked up as the
  handler that was registered, other types are as before, and a second registration of a type is
  refused without effect.\<close>

theorem Register_lookup:
  assumes "registry_ok r"
  shows "case Register r ty h of (err, r') \<Rightarrow>
    registry_ok r' \<and> (\<forall>ty'. ty' \<noteq> ty \<longrightarrow> Registry_Get r' ty' = Registry_Get r ty') \<and>
    (if ty \<in> set (Types r) then err \<noteq> None \<and> r' = r
     else err = None \<and> Registry_Get r' ty = Inr h \<and> set (Types r') = insert ty (set (Types r)))"
proof (cases "ty \<in> set (Types r)")
  case True
  with Register_dup [OF True, of h] assms show ?thesis by (cases "Register r ty h") simp
next
  case False
  then have "map_of (handlers r) ty = None" by (simp add: Types_def map_of_eq_None_iff)
  with Register_new [OF False, of h] Register_ok [OF assms, of ty h] False show ?thesis
    by (auto simp: Registry_Get_def Types_def map_add_def split: option.split)
qed

theorem Register_lookup_witness:
  "let (err, r') = Register NewRegistry ''email'' (\<lambda>n d p. Inl ErrNoTask) in
   registry_ok r' \<and> err = None \<and> Registry_Get r' ''email'' = Inr (\<lambda>n d p. Inl ErrNoTask)"
  using Register_lookup [of NewRegistry "''email''" "\<lambda>n d p. Inl ErrNoTask"]
  by (simp add: NewRegistry_def registry_ok_def Types_def split: prod.splits)

end
