(* ===== verification/Spool_Queue.thy ===== *)
theory Spool_Queue
  imports Spool_Redis "HOL-Library.Multiset"
begin

text \<open>
  The package \<open>internal/queue\<close>: \<open>RedisQueue\<close> of \<open>redis.go\<close>, which implements the interface
  \<open>Queue\<close> of \<open>queue.go\<close>. Each priority has a Redis list of task identifiers, the task data
  are stored under the identifier, the dead letter queue is a list of task documents. A
  pointer argument that may be nil is an option.
\<close>

section \<open>Definitions\<close>

definition queueKeyPrefix :: string where "queueKeyPrefix = ''spool:queue:''"
definition processingKeyPrefix :: string where "processingKeyPrefix = ''spool:processing:''"
definition taskKeyPrefix :: string where "taskKeyPrefix = ''spool:task:''"
definition statsKeyPrefix :: string where "statsKeyPrefix = ''spool:stats:''"
definition dlqKeyPrefix :: string where "dlqKeyPrefix = ''spool:dlq:''"
definition dlqMetaPrefix :: string where "dlqMetaPrefix = ''spool:dlq:meta:''"

definition taskKey :: "string \<Rightarrow> string" where "taskKey i = taskKeyPrefix @ i"
definition processingKey :: "string \<Rightarrow> string" where "processingKey i = processingKeyPrefix @ i"
definition statsKey :: "string \<Rightarrow> string" where "statsKey s = statsKeyPrefix @ s"
definition dlqKey :: string where "dlqKey = dlqKeyPrefix @ ''tasks''"
definition metaKey :: "string \<Rightarrow> string" where "metaKey i = dlqMetaPrefix @ i"

text \<open>
  \<open>RedisQueue\<close>: the client and the map from priorities to list keys. The association list
  is in the order in which Go ranges over the map, which is not fixed; a priority that is
  not a key of the map has the zero value, the empty string.
\<close>

record 's RedisQueue =
  rq_client :: "'s client"
  rq_queueKeys :: "(priority \<times> string) list"

definition queueKey :: "'s RedisQueue \<Rightarrow> priority \<Rightarrow> string" where
  "queueKey rq p = (case map_of (rq_queueKeys rq) p of None \<Rightarrow> [] | Some k \<Rightarrow> k)"

definition init_queueKeys :: "(priority \<times> string) list" where
  "init_queueKeys =
     [(PriorityCritical, queueKeyPrefix @ ''critical''), (PriorityHigh, queueKeyPrefix @ ''high''),
      (PriorityNormal, queueKeyPrefix @ ''normal''), (PriorityLow, queueKeyPrefix @ ''low'')]"

text \<open>\<open>redis.NewClient\<close> is a parameter: it makes a client from the options.\<close>

record redis_options =
  o_Addr :: string
  o_Password :: string
  o_DB :: int
  o_PoolSize :: int
  o_MinIdleConns :: int
  o_MaxRetries :: int
  o_DialTimeout :: int
  o_ReadTimeout :: int
  o_WriteTimeout :: int
  o_PoolTimeout :: int

definition NewRedisQueue ::
  "(redis_options \<Rightarrow> 's client) \<Rightarrow> string \<Rightarrow> string \<Rightarrow> int \<Rightarrow> int \<Rightarrow> ('s, gerr + 's RedisQueue) io" where
  "NewRedisQueue newClient addr password db poolSize =
     (if addr = [] then ret (Inl (Err ''redis address cannot be empty''))
      else
        (let client = newClient \<lparr>o_Addr = addr, o_Password = password, o_DB = db, o_PoolSize = poolSize,
               o_MinIdleConns = poolSize sdiv 2, o_MaxRetries = 3, o_DialTimeout = 5 * Second,
               o_ReadTimeout = 3 * Second, o_WriteTimeout = 3 * Second, o_PoolTimeout = 4 * Second\<rparr>
         in do {
           r \<leftarrow> redis_do client Live PING;
           (case cmd_err r of
              Some e \<Rightarrow> ret (Inl (Wrap ''failed to connect to redis'' e))
            | None \<Rightarrow> ret (Inr \<lparr>rq_client = client, rq_queueKeys = init_queueKeys\<rparr>))
         }))"

text \<open>
  The first lines of \<open>Enqueue\<close> and \<open>Dequeue\<close>: a context that is already done is replaced by a
  fresh one with a timeout of five seconds.
\<close>

definition usable_ctx :: "ctx \<Rightarrow> ctx" where
  "usable_ctx c = (if ctx_Err c \<noteq> None then Live else c)"

definition Enqueue :: "'s RedisQueue \<Rightarrow> ctx \<Rightarrow> task option \<Rightarrow> ('s, gerr option) io" where
  "Enqueue rq c tp =
     (case tp of
        None \<Rightarrow> ret (Some (Err ''task cannot be nil''))
      | Some t \<Rightarrow>
        (let c = usable_ctx c
         in case marshal_task t of
           Inl e \<Rightarrow> ret (Some (Wrap ''failed to marshal task'' e))
         | Inr taskData \<Rightarrow> do {
             r \<leftarrow> redis_do (rq_client rq) c (SET (taskKey (t_ID t)) (Doc taskData) 0);
             (case cmd_err r of
                Some e \<Rightarrow> ret (Some (Wrap ''failed to store task'' e))
              | None \<Rightarrow> do {
                  r \<leftarrow> redis_do (rq_client rq) c (RPUSH (queueKey rq (t_Priority t)) (Text (t_ID t)));
                  (case cmd_err r of
                     Some e \<Rightarrow> do {
                       _ \<leftarrow> redis_do (rq_client rq) c (DEL (taskKey (t_ID t)));
                       ret (Some (Wrap ''failed to enqueue task'' e))
                     }
                   | None \<Rightarrow> do {
                       _ \<leftarrow> redis_do (rq_client rq) c (INCR (statsKey ''total''));
                       now \<leftarrow> time_Now;
                       _ \<leftarrow> redis_do (rq_client rq) c (SET (statsKey ''last_enqueue'') (Doc (JNum (time_Unix now))) 0);
                       ret None
                     })
                })
           }))"

definition priorities :: "priority list" where
  "priorities = [PriorityCritical, PriorityHigh, PriorityNormal, PriorityLow]"

text \<open>
  The loop of \<open>Dequeue\<close>. An identifier that is not text cannot come from \<open>LPOP\<close> on a list
  that \<open>Enqueue\<close> filled; it is treated as an error of the command.
\<close>

primrec dequeue_loop :: "'s RedisQueue \<Rightarrow> ctx \<Rightarrow> priority list \<Rightarrow> ('s, gerr + task option) io" where
  "dequeue_loop rq c [] = ret (Inr None)"
| "dequeue_loop rq c (p # ps) = do {
     r \<leftarrow> redis_do (rq_client rq) c (LPOP (queueKey rq p));
     (case str_result r of
        Inl e \<Rightarrow> ret (Inl (Wrap ''failed to dequeue task'' e))
      | Inr None \<Rightarrow> dequeue_loop rq c ps
      | Inr (Some b) \<Rightarrow>
        (case blob_text b of
           None \<Rightarrow> ret (Inl (Wrap ''failed to dequeue task'' bad_reply))
         | Some taskID \<Rightarrow> do {
             r \<leftarrow> redis_do (rq_client rq) c (GET (taskKey taskID));
             (case str_result r of
                Inr None \<Rightarrow> dequeue_loop rq c ps
              | Inl e \<Rightarrow> do {
                  _ \<leftarrow> redis_do (rq_client rq) c (LPUSH (queueKey rq p) (Text taskID));
                  ret (Inl (Wrap ''failed to retrieve task data'' e))
                }
              | Inr (Some taskData) \<Rightarrow>
                (case unmarshal_task taskData of
                   Inl e \<Rightarrow> do {
                     _ \<leftarrow> redis_do (rq_client rq) c (DEL (taskKey taskID));
                     ret (Inl (Wrap ''failed to unmarshal task'' e))
                   }
                 | Inr t \<Rightarrow> do {
                     now \<leftarrow> time_Now;
                     _ \<leftarrow> redis_do (rq_client rq) c (SET (processingKey taskID) (Doc (JNum (time_Unix now))) (1 * Hour));
                     now' \<leftarrow> time_Now;
                     _ \<leftarrow> redis_do (rq_client rq) c (SET (statsKey ''last_dequeue'') (Doc (JNum (time_Unix now'))) 0);
                     ret (Inr (Some t))
                   }))
           }))
   }"

definition Dequeue :: "'s RedisQueue \<Rightarrow> ctx \<Rightarrow> ('s, gerr + task option) io" where
  "Dequeue rq c = dequeue_loop rq (usable_ctx c) priorities"

primrec peek_loop :: "'s RedisQueue \<Rightarrow> ctx \<Rightarrow> priority list \<Rightarrow> ('s, gerr + task option) io" where
  "peek_loop rq c [] = ret (Inr None)"
| "peek_loop rq c (p # ps) = do {
     r \<leftarrow> redis_do (rq_client rq) c (LINDEX (queueKey rq p) 0);
     (case str_result r of
        Inl e \<Rightarrow> ret (Inl (Wrap ''failed to peek task'' e))
      | Inr None \<Rightarrow> peek_loop rq c ps
      | Inr (Some b) \<Rightarrow>
        (case blob_text b of
           None \<Rightarrow> ret (Inl (Wrap ''failed to peek task'' bad_reply))
         | Some taskID \<Rightarrow> do {
             r \<leftarrow> redis_do (rq_client rq) c (GET (taskKey taskID));
             (case str_result r of
                Inr None \<Rightarrow> peek_loop rq c ps
              | Inl e \<Rightarrow> ret (Inl (Wrap ''failed to retrieve task data'' e))
              | Inr (Some taskData) \<Rightarrow>
                (case unmarshal_task taskData of
                   Inl e \<Rightarrow> ret (Inl (Wrap ''failed to unmarshal task'' e))
                 | Inr t \<Rightarrow> ret (Inr (Some t))))
           }))
   }"

definition Peek :: "'s RedisQueue \<Rightarrow> ctx \<Rightarrow> ('s, gerr + task option) io" where
  "Peek rq c = peek_loop rq c priorities"

definition Ack :: "'s RedisQueue \<Rightarrow> ctx \<Rightarrow> string \<Rightarrow> ('s, gerr option) io" where
  "Ack rq c taskID =
     (if taskID = [] then ret (Some (Err ''task ID cannot be empty''))
      else do {
        _ \<leftarrow> redis_do (rq_client rq) c (DEL (processingKey taskID));
        _ \<leftarrow> redis_do (rq_client rq) c (DEL (taskKey taskID));
        _ \<leftarrow> redis_do (rq_client rq) c (INCR (statsKey ''completed''));
        ret None
      })"

definition Nack :: "'s RedisQueue \<Rightarrow> ctx \<Rightarrow> string \<Rightarrow> bool \<Rightarrow> ('s, gerr option) io" where
  "Nack rq c taskID requeue =
     (if taskID = [] then ret (Some (Err ''task ID cannot be empty''))
      else do {
        _ \<leftarrow> redis_do (rq_client rq) c (DEL (processingKey taskID));
        (if \<not> requeue then do {
           _ \<leftarrow> redis_do (rq_client rq) c (DEL (taskKey taskID));
           _ \<leftarrow> redis_do (rq_client rq) c (INCR (statsKey ''failed''));
           ret None
         }
         else do {
           r \<leftarrow> redis_do (rq_client rq) c (GET (taskKey taskID));
           (case str_result r of
              Inl e \<Rightarrow> ret (Some (Wrap ''failed to retrieve task for requeue'' e))
            | Inr None \<Rightarrow> ret (Some (Wrap ''failed to retrieve task for requeue'' (Err ''redis: nil'')))
            | Inr (Some taskData) \<Rightarrow>
              (case unmarshal_task taskData of
                 Inl e \<Rightarrow> ret (Some (Wrap ''failed to unmarshal task'' e))
               | Inr t \<Rightarrow> do {
                   r \<leftarrow> redis_do (rq_client rq) c (RPUSH (queueKey rq (t_Priority t)) (Text taskID));
                   (case cmd_err r of
                      Some e \<Rightarrow> ret (Some (Wrap ''failed to requeue task'' e))
                    | None \<Rightarrow> ret None)
                 }))
         })
      })"

primrec size_loop :: "'s RedisQueue \<Rightarrow> ctx \<Rightarrow> (priority \<times> string) list \<Rightarrow> int \<Rightarrow> ('s, gerr + int) io" where
  "size_loop rq c [] acc = ret (Inr acc)"
| "size_loop rq c (pk # pks) acc = do {
     r \<leftarrow> redis_do (rq_client rq) c (LLEN (snd pk));
     (case int_result r of
        Inl e \<Rightarrow> ret (Inl (Wrap ''failed to get queue size'' e))
      | Inr n \<Rightarrow> size_loop rq c pks (wrap64 (acc + n)))
   }"

definition Size :: "'s RedisQueue \<Rightarrow> ctx \<Rightarrow> ('s, gerr + int) io" where
  "Size rq c = size_loop rq c (rq_queueKeys rq) 0"

primrec sizes_loop ::
  "'s RedisQueue \<Rightarrow> ctx \<Rightarrow> (priority \<times> string) list \<Rightarrow> (priority \<rightharpoonup> int) \<Rightarrow> ('s, gerr + (priority \<rightharpoonup> int)) io" where
  "sizes_loop rq c [] sizes = ret (Inr sizes)"
| "sizes_loop rq c (pk # pks) sizes = do {
     r \<leftarrow> redis_do (rq_client rq) c (LLEN (snd pk));
     (case int_result r of
        Inl e \<Rightarrow> ret (Inl (Wrap (''failed to get queue size for priority '' @ show_int (fst pk)) e))
      | Inr n \<Rightarrow> sizes_loop rq c pks (sizes(fst pk \<mapsto> n)))
   }"

definition SizeByPriority :: "'s RedisQueue \<Rightarrow> ctx \<Rightarrow> ('s, gerr + (priority \<rightharpoonup> int)) io" where
  "SizeByPriority rq c = sizes_loop rq c (rq_queueKeys rq) Map.empty"

primrec purge_queues :: "'s RedisQueue \<Rightarrow> ctx \<Rightarrow> (priority \<times> string) list \<Rightarrow> ('s, gerr option) io" where
  "purge_queues rq c [] = ret None"
| "purge_queues rq c (pk # pks) = do {
     r \<leftarrow> redis_do (rq_client rq) c (DEL (snd pk));
     (case cmd_err r of
        Some e \<Rightarrow> ret (Some (Wrap ''failed to purge queue'' e))
      | None \<Rightarrow> purge_queues rq c pks)
   }"

primrec del_all :: "'s RedisQueue \<Rightarrow> ctx \<Rightarrow> blob list \<Rightarrow> ('s, unit) io" where
  "del_all rq c [] = ret ()"
| "del_all rq c (b # bs) =
     (case blob_text b of
        None \<Rightarrow> del_all rq c bs
      | Some k \<Rightarrow> do { _ \<leftarrow> redis_do (rq_client rq) c (DEL k); del_all rq c bs })"

text \<open>One iteration \<open>Scan(prefix*)\<close> that deletes every key it yields; its error comes last.\<close>

definition purge_prefix :: "'s RedisQueue \<Rightarrow> ctx \<Rightarrow> string \<Rightarrow> string \<Rightarrow> ('s, gerr option) io" where
  "purge_prefix rq c p msg = do {
     r \<leftarrow> redis_do (rq_client rq) c (SCAN p);
     (case arr_result r of
        Inl e \<Rightarrow> ret (Some (Wrap msg e))
      | Inr ks \<Rightarrow> do { _ \<leftarrow> del_all rq c ks; ret None })
   }"

definition Purge :: "'s RedisQueue \<Rightarrow> ctx \<Rightarrow> ('s, gerr option) io" where
  "Purge rq c = do {
     e \<leftarrow> purge_queues rq c (rq_queueKeys rq);
     (case e of Some e \<Rightarrow> ret (Some e)
      | None \<Rightarrow> do {
          e \<leftarrow> purge_prefix rq c taskKeyPrefix ''failed to delete task data'';
          (case e of Some e \<Rightarrow> ret (Some e)
           | None \<Rightarrow> purge_prefix rq c processingKeyPrefix ''failed to delete processing data'')
        })
   }"

definition Health :: "'s RedisQueue \<Rightarrow> ctx \<Rightarrow> ('s, gerr option) io" where
  "Health rq c = do { r \<leftarrow> redis_do (rq_client rq) c PING; ret (cmd_err r) }"

text \<open>\<open>EnqueueDLQ\<close> also changes the task it is given, before anything can fail.\<close>

definition dlq_task :: "task \<Rightarrow> string \<Rightarrow> task" where
  "dlq_task t reason =
     (let t = t\<lparr>t_State := StateDeadLetter\<rparr> in if reason \<noteq> [] then t\<lparr>t_Error := reason\<rparr> else t)"

definition dlq_metadata :: "task \<Rightarrow> string \<Rightarrow> int \<Rightarrow> json" where
  "dlq_metadata t reason now =
     JObj [(''moved_at'', JNum (time_Unix now)), (''reason'', JStr reason),
           (''retry_count'', JNum (t_RetryCount t)), (''task_id'', JStr (t_ID t))]"

definition EnqueueDLQ :: "'s RedisQueue \<Rightarrow> ctx \<Rightarrow> task option \<Rightarrow> string \<Rightarrow> ('s, gerr option \<times> task option) io" where
  "EnqueueDLQ rq c tp reason =
     (case tp of
        None \<Rightarrow> ret (Some (Err ''task cannot be nil''), None)
      | Some t0 \<Rightarrow>
        (let t = dlq_task t0 reason
         in case marshal_task t of
           Inl e \<Rightarrow> ret (Some (Wrap ''failed to marshal task for DLQ'' e), Some t)
         | Inr taskData \<Rightarrow> do {
             r \<leftarrow> redis_do (rq_client rq) c (RPUSH dlqKey (Doc taskData));
             (case cmd_err r of
                Some e \<Rightarrow> ret (Some (Wrap ''failed to enqueue task to DLQ'' e), Some t)
              | None \<Rightarrow> do {
                  now \<leftarrow> time_Now;
                  _ \<leftarrow> redis_do (rq_client rq) c (SET (metaKey (t_ID t)) (Doc (dlq_metadata t reason now)) (30 * 24 * Hour));
                  _ \<leftarrow> redis_do (rq_client rq) c (INCR (statsKey ''dlq''));
                  ret (None, Some t)
                })
           }))"

definition GetDLQSize :: "'s RedisQueue \<Rightarrow> ctx \<Rightarrow> ('s, gerr + int) io" where
  "GetDLQSize rq c = do {
     r \<leftarrow> redis_do (rq_client rq) c (LLEN dlqKey);
     (case int_result r of
        Inl e \<Rightarrow> ret (Inl (Wrap ''failed to get DLQ size'' e))
      | Inr n \<Rightarrow> ret (Inr n))
   }"

text \<open>The loop that keeps the documents that decode, in order.\<close>

definition decoded_tasks :: "blob list \<Rightarrow> task list" where
  "decoded_tasks bs = concat (map (\<lambda>b. case unmarshal_task b of Inl e \<Rightarrow> [] | Inr t \<Rightarrow> [t]) bs)"

definition GetDLQTasks :: "'s RedisQueue \<Rightarrow> ctx \<Rightarrow> int \<Rightarrow> ('s, gerr + task list) io" where
  "GetDLQTasks rq c limit = do {
     r \<leftarrow> (if limit > 0 then redis_do (rq_client rq) c (LRANGE dlqKey 0 (limit - 1))
          else redis_do (rq_client rq) c (LRANGE dlqKey 0 (- 1)));
     (case arr_result r of
        Inl e \<Rightarrow> ret (Inl (Wrap ''failed to get DLQ tasks'' e))
      | Inr bs \<Rightarrow> ret (Inr (decoded_tasks bs)))
   }"

section \<open>Abstract queue\<close>

text \<open>
  The specification: for each priority a list of tasks, oldest first.
\<close>

type_synonym pqueue = "priority \<Rightarrow> task list"

definition a_enqueue :: "task \<Rightarrow> pqueue \<Rightarrow> pqueue" where
  "a_enqueue t q = q(t_Priority t := q (t_Priority t) @ [t])"

primrec a_first :: "pqueue \<Rightarrow> priority list \<Rightarrow> (task \<times> pqueue) option" where
  "a_first q [] = None"
| "a_first q (p # ps) = (case q p of [] \<Rightarrow> a_first q ps | t # ts \<Rightarrow> Some (t, q(p := ts)))"

definition a_dequeue :: "pqueue \<Rightarrow> (task \<times> pqueue) option" where
  "a_dequeue q = a_first q priorities"

text \<open>All tasks of an abstract queue, in the order in which they come out.\<close>

definition a_order :: "pqueue \<Rightarrow> task list" where
  "a_order q = concat (map q priorities)"

text \<open>The list key of a priority, and when a database holds an abstract queue.\<close>

definition qkey :: "priority \<Rightarrow> string" where
  "qkey p = queueKeyPrefix @ PriorityString p"

definition task_stored :: "db \<Rightarrow> task \<Rightarrow> bool" where
  "task_stored d t \<longleftrightarrow>
     (case key_get (taskKey (t_ID t)) d of Some (VStr b _) \<Rightarrow> b = Doc (task_json t) | _ \<Rightarrow> False)"

definition holds_queue :: "db \<Rightarrow> pqueue \<Rightarrow> bool" where
  "holds_queue d q \<longleftrightarrow>
     (\<forall>p \<in> set priorities.
        list_at (qkey p) d = Some (map (\<lambda>t. Text (t_ID t)) (q p)) \<and> distinct (map t_ID (q p)) \<and>
        (\<forall>t \<in> set (q p). task_stored d t \<and> task_ok t \<and> t_Priority t = p))"

abbreviation (input) RQ :: "'s client \<Rightarrow> 's RedisQueue" where
  "RQ ex \<equiv> \<lparr>rq_client = ex, rq_queueKeys = init_queueKeys\<rparr>"

section \<open>Lemmas\<close>

subsection \<open>Keys\<close>

lemma key_inject [simp]:
  "taskKey i = taskKey j \<longleftrightarrow> i = j" "processingKey i = processingKey j \<longleftrightarrow> i = j"
  "statsKey i = statsKey j \<longleftrightarrow> i = j" "metaKey i = metaKey j \<longleftrightarrow> i = j"
  by (simp_all add: taskKey_def processingKey_def statsKey_def metaKey_def)

lemmas key_defs = taskKey_def taskKeyPrefix_def processingKey_def processingKeyPrefix_def
  statsKey_def statsKeyPrefix_def dlqKey_def dlqKeyPrefix_def metaKey_def dlqMetaPrefix_def
  qkey_def queueKeyPrefix_def

lemma key_distinct [simp]:
  "taskKey i \<noteq> processingKey j" "processingKey j \<noteq> taskKey i"
  "taskKey i \<noteq> statsKey s" "statsKey s \<noteq> taskKey i"
  "taskKey i \<noteq> dlqKey" "dlqKey \<noteq> taskKey i"
  "taskKey i \<noteq> metaKey j" "metaKey j \<noteq> taskKey i"
  "taskKey i \<noteq> qkey p" "qkey p \<noteq> taskKey i"
  "processingKey i \<noteq> statsKey s" "statsKey s \<noteq> processingKey i"
  "processingKey i \<noteq> dlqKey" "dlqKey \<noteq> processingKey i"
  "processingKey i \<noteq> metaKey j" "metaKey j \<noteq> processingKey i"
  "processingKey i \<noteq> qkey p" "qkey p \<noteq> processingKey i"
  "statsKey s \<noteq> dlqKey" "dlqKey \<noteq> statsKey s"
  "statsKey s \<noteq> metaKey j" "metaKey j \<noteq> statsKey s"
  "statsKey s \<noteq> qkey p" "qkey p \<noteq> statsKey s"
  "dlqKey \<noteq> metaKey j" "metaKey j \<noteq> dlqKey"
  "dlqKey \<noteq> qkey p" "qkey p \<noteq> dlqKey"
  "metaKey j \<noteq> qkey p" "qkey p \<noteq> metaKey j"
  "taskKey i \<noteq> []" "processingKey i \<noteq> []" "statsKey s \<noteq> []" "qkey p \<noteq> []"
  "[] \<noteq> taskKey i" "[] \<noteq> processingKey i" "[] \<noteq> statsKey s" "[] \<noteq> qkey p"
  by (simp_all add: key_defs)

lemma set_priorities: "set priorities = {0, 1, 2, 3}"
  by (auto simp: priorities_def)

lemma qkey_inject [simp]:
  "p \<in> set priorities \<Longrightarrow> q \<in> set priorities \<Longrightarrow> qkey p = qkey q \<longleftrightarrow> p = q"
  by (auto simp: set_priorities qkey_def PriorityString_def)

lemma queueKey_RQ [simp]: "p \<in> set priorities \<Longrightarrow> queueKey (RQ ex) p = qkey p"
  by (auto simp: set_priorities queueKey_def init_queueKeys_def qkey_def PriorityString_def)

lemma queueKey_invalid: "p \<notin> set priorities \<Longrightarrow> queueKey (RQ ex) p = []"
  by (auto simp: set_priorities queueKey_def init_queueKeys_def)

subsection \<open>What a step leaves unchanged\<close>

definition only_changes :: "string set \<Rightarrow> db \<Rightarrow> db \<Rightarrow> bool" where
  "only_changes K d d' \<longleftrightarrow> (\<forall>k. k \<notin> K \<longrightarrow> key_get k d' = key_get k d)"

lemma only_changes_refl [simp]: "only_changes K d d"
  by (simp add: only_changes_def)

lemma only_changes_trans:
  "only_changes K d e \<Longrightarrow> only_changes L e f \<Longrightarrow> only_changes (K \<union> L) d f"
  by (simp add: only_changes_def)

lemma only_changes_mono: "only_changes K d e \<Longrightarrow> K \<subseteq> L \<Longrightarrow> only_changes L d e"
  by (auto simp: only_changes_def)

lemma only_changes_list_at: "only_changes K d e \<Longrightarrow> k \<notin> K \<Longrightarrow> list_at k e = list_at k d"
  by (simp add: only_changes_def list_at_def)

lemma only_changes_set_at: "only_changes K d e \<Longrightarrow> k \<notin> K \<Longrightarrow> set_at k e = set_at k d"
  by (simp add: only_changes_def set_at_def)

lemma only_changes_key_get: "only_changes K d e \<Longrightarrow> k \<notin> K \<Longrightarrow> key_get k e = key_get k d"
  by (simp add: only_changes_def)

lemma key_get_INCR [simp]: "k \<noteq> k' \<Longrightarrow> key_get k (snd (redis_step pk (INCR k') d)) = key_get k d"
  by (auto split: option.split rval.split blob.split json.split)

lemma list_at_INCR [simp]: "k \<noteq> k' \<Longrightarrow> list_at k (snd (redis_step pk (INCR k') d)) = list_at k d"
  by (simp add: list_at_def del: redis_step.simps)

lemma task_stored_cong:
  "key_get (taskKey (t_ID t)) e = key_get (taskKey (t_ID t)) d \<Longrightarrow> task_stored e t = task_stored d t"
  by (simp add: task_stored_def)

subsection \<open>Simulation by the documented server\<close>

lemma sim_Enqueue [sim_intros]:
  assumes "redis_server ex view pk"
  shows "simulates view (Enqueue (RQ ex) c tp) (Enqueue (RQ (redis_client pk)) c tp)"
  unfolding Enqueue_def queueKey_def RedisQueue.simps
  by (intro sim_intros assms)

lemma sim_dequeue_loop [sim_intros]:
  assumes "redis_server ex view pk"
  shows "simulates view (dequeue_loop (RQ ex) c ps) (dequeue_loop (RQ (redis_client pk)) c ps)"
  by (induction ps)
     (simp_all only: dequeue_loop.simps queueKey_def RedisQueue.simps, (intro sim_intros assms; assumption)+)

lemma sim_peek_loop [sim_intros]:
  assumes "redis_server ex view pk"
  shows "simulates view (peek_loop (RQ ex) c ps) (peek_loop (RQ (redis_client pk)) c ps)"
  by (induction ps)
     (simp_all only: peek_loop.simps queueKey_def RedisQueue.simps, (intro sim_intros assms; assumption)+)

lemma sim_size_loop [sim_intros]:
  assumes "redis_server ex view pk"
  shows "simulates view (size_loop \<lparr>rq_client = ex, rq_queueKeys = ks\<rparr> c ps n)
    (size_loop \<lparr>rq_client = redis_client pk, rq_queueKeys = ks\<rparr> c ps n)"
  by (induction ps arbitrary: n)
     (simp_all only: size_loop.simps RedisQueue.simps, (intro sim_intros assms; assumption)+)

lemma sim_sizes_loop [sim_intros]:
  assumes "redis_server ex view pk"
  shows "simulates view (sizes_loop \<lparr>rq_client = ex, rq_queueKeys = ks\<rparr> c ps n)
    (sizes_loop \<lparr>rq_client = redis_client pk, rq_queueKeys = ks\<rparr> c ps n)"
  by (induction ps arbitrary: n)
     (simp_all only: sizes_loop.simps RedisQueue.simps, (intro sim_intros assms; assumption)+)

lemma sim_purge_queues [sim_intros]:
  assumes "redis_server ex view pk"
  shows "simulates view (purge_queues \<lparr>rq_client = ex, rq_queueKeys = ks\<rparr> c ps)
    (purge_queues \<lparr>rq_client = redis_client pk, rq_queueKeys = ks\<rparr> c ps)"
  by (induction ps)
     (simp_all only: purge_queues.simps RedisQueue.simps, (intro sim_intros assms; assumption)+)

lemma sim_del_all [sim_intros]:
  assumes "redis_server ex view pk"
  shows "simulates view (del_all \<lparr>rq_client = ex, rq_queueKeys = ks\<rparr> c bs)
    (del_all \<lparr>rq_client = redis_client pk, rq_queueKeys = ks\<rparr> c bs)"
  by (induction bs)
     (simp_all only: del_all.simps RedisQueue.simps, (intro sim_intros assms; assumption)+)

lemma sim_queue_ops [sim_intros]:
  assumes "redis_server ex view pk"
  shows "simulates view (Dequeue (RQ ex) c) (Dequeue (RQ (redis_client pk)) c)"
    and "simulates view (Peek (RQ ex) c) (Peek (RQ (redis_client pk)) c)"
    and "simulates view (Ack (RQ ex) c i) (Ack (RQ (redis_client pk)) c i)"
    and "simulates view (Nack (RQ ex) c i b) (Nack (RQ (redis_client pk)) c i b)"
    and "simulates view (EnqueueDLQ (RQ ex) c tp m) (EnqueueDLQ (RQ (redis_client pk)) c tp m)"
    and "simulates view (GetDLQSize (RQ ex) c) (GetDLQSize (RQ (redis_client pk)) c)"
    and "simulates view (GetDLQTasks (RQ ex) c n) (GetDLQTasks (RQ (redis_client pk)) c n)"
    and "simulates view (Health (RQ ex) c) (Health (RQ (redis_client pk)) c)"
  unfolding Dequeue_def Peek_def Ack_def Nack_def EnqueueDLQ_def GetDLQSize_def GetDLQTasks_def
    Health_def queueKey_def RedisQueue.simps
  by (intro sim_intros assms)+

lemma sim_queue_range_ops [sim_intros]:
  assumes "redis_server ex view pk"
  shows "simulates view (Size \<lparr>rq_client = ex, rq_queueKeys = ks\<rparr> c)
      (Size \<lparr>rq_client = redis_client pk, rq_queueKeys = ks\<rparr> c)"
    and "simulates view (SizeByPriority \<lparr>rq_client = ex, rq_queueKeys = ks\<rparr> c)
      (SizeByPriority \<lparr>rq_client = redis_client pk, rq_queueKeys = ks\<rparr> c)"
    and "simulates view (Purge \<lparr>rq_client = ex, rq_queueKeys = ks\<rparr> c)
      (Purge \<lparr>rq_client = redis_client pk, rq_queueKeys = ks\<rparr> c)"
  unfolding Size_def SizeByPriority_def Purge_def purge_prefix_def RedisQueue.simps
  by (intro sim_intros assms)+

subsection \<open>Enqueue and Dequeue implement the abstract queue\<close>

definition enqueue_db :: "picker \<Rightarrow> string \<Rightarrow> blob list \<Rightarrow> int \<Rightarrow> task \<Rightarrow> db \<Rightarrow> db" where
  "enqueue_db pk k xs now t d =
     key_put (statsKey ''last_enqueue'') (VStr (Doc (JNum (time_Unix now))) 0)
       (snd (redis_step pk (INCR (statsKey ''total''))
          (put_list k (xs @ [Text (t_ID t)]) (key_put (taskKey (t_ID t)) (VStr (Doc (task_json t)) 0) d))))"

lemma usable_ctx_Live [simp]: "usable_ctx c = Live"
  by (cases c) (simp_all add: usable_ctx_def ctx_Err_def)

lemma run_Enqueue:
  assumes ok: "task_ok t" and lst: "list_at k (w_db w) = Some xs"
    and k: "queueKey rq (t_Priority t) = k" "k \<noteq> taskKey (t_ID t)"
    and client: "rq_client rq = redis_client pk"
  shows "run_state (Enqueue rq c (Some t)) w =
     (None, w\<lparr>w_db := enqueue_db pk k xs (w_clock w (w_tick w)) t (w_db w), w_tick := Suc (w_tick w)\<rparr>)"
  using assms
  by (simp add: Enqueue_def task_ok_marshal run_simps enqueue_db_def Let_def
      del: redis_step.simps(5))

lemma enqueue_db_simps:
  assumes "k \<noteq> taskKey (t_ID t)" "\<And>s. k \<noteq> statsKey s"
  shows "only_changes {taskKey (t_ID t), k, statsKey ''total'', statsKey ''last_enqueue''} d (enqueue_db pk k xs now t d)"
    and "task_stored (enqueue_db pk k xs now t d) t"
    and "list_at k (enqueue_db pk k xs now t d) = Some (xs @ [Text (t_ID t)])"
  using assms
  by (simp_all add: enqueue_db_def only_changes_def task_stored_def del: redis_step.simps(5))

lemma holds_queue_Enqueue:
  assumes q: "holds_queue (w_db w) q" and t: "task_ok t" "t_Priority t \<in> set priorities"
    and fresh: "\<And>p u. p \<in> set priorities \<Longrightarrow> u \<in> set (q p) \<Longrightarrow> t_ID u \<noteq> t_ID t"
  shows "\<exists>d. run_state (Enqueue (RQ (redis_client pk)) c (Some t)) w =
       (None, w\<lparr>w_db := d, w_tick := Suc (w_tick w)\<rparr>) \<and> holds_queue d (a_enqueue t q) \<and>
       only_changes {taskKey (t_ID t), qkey (t_Priority t), statsKey ''total'', statsKey ''last_enqueue''} (w_db w) d"
proof -
  let ?k = "qkey (t_Priority t)" and ?xs = "map (\<lambda>t. Text (t_ID t)) (q (t_Priority t))"
  let ?d = "enqueue_db pk ?k ?xs (w_clock w (w_tick w)) t (w_db w)"
  note d = enqueue_db_simps [where k = ?k and t = t and d = "w_db w" and pk = pk and xs = ?xs
      and now = "w_clock w (w_tick w)", simplified]
  have lst: "list_at ?k (w_db w) = Some ?xs"
    using q t(2) by (simp add: holds_queue_def)
  have "list_at (qkey p) ?d = Some (map (\<lambda>t. Text (t_ID t)) (a_enqueue t q p))"
    if p: "p \<in> set priorities" for p
  proof (cases "p = t_Priority t")
    case True
    with d(3) show ?thesis by (simp add: a_enqueue_def)
  next
    case False
    with p t(2) have "list_at (qkey p) ?d = list_at (qkey p) (w_db w)"
      by (intro only_changes_list_at [OF d(1)]) simp
    with False p q show ?thesis by (simp add: a_enqueue_def holds_queue_def)
  qed
  moreover have "task_stored ?d u \<and> task_ok u \<and> t_Priority u = p"
    if "p \<in> set priorities" "u \<in> set (a_enqueue t q p)" for p u
  proof (cases "t_ID u = t_ID t")
    case True
    then have "u = t" "p = t_Priority t" using that fresh by (auto simp: a_enqueue_def split: if_splits)
    then show ?thesis using d(2) t by simp
  next
    case False
    then have u: "u \<in> set (q p)" using that by (auto simp: a_enqueue_def split: if_splits)
    then have "task_stored (w_db w) u" using q that by (simp add: holds_queue_def)
    then have "task_stored ?d u"
      using False only_changes_key_get [OF d(1), of "taskKey (t_ID u)"] by (simp add: task_stored_def)
    then show ?thesis using u q that by (simp add: holds_queue_def)
  qed
  moreover have "distinct (map t_ID (a_enqueue t q p))" if "p \<in> set priorities" for p
    using that q fresh by (force simp: a_enqueue_def holds_queue_def)
  ultimately have "holds_queue ?d (a_enqueue t q)"
    by (simp add: holds_queue_def)
  with run_Enqueue [where k = ?k and xs = ?xs and rq = "RQ (redis_client pk)" and pk = pk and w = w and c = c] t lst d(1) show ?thesis
    by auto
qed


definition dequeue_db :: "string \<Rightarrow> blob list \<Rightarrow> int \<Rightarrow> int \<Rightarrow> string \<Rightarrow> db \<Rightarrow> db" where
  "dequeue_db k xs now now' i d =
     key_put (statsKey ''last_dequeue'') (VStr (Doc (JNum (time_Unix now'))) 0)
       (key_put (processingKey i) (VStr (Doc (JNum (time_Unix now))) (1 * Hour)) (put_list k xs d))"

lemma run_dequeue_hit:
  assumes "rq_client rq = redis_client pk" and "queueKey rq p = k" and "k \<noteq> taskKey (t_ID t)"
    and "list_at k (w_db w) = Some (Text (t_ID t) # xs)" and "task_stored (w_db w) t" and "task_ok t"
  shows "run_state (dequeue_loop rq Live (p # ps)) w =
     (Inr (Some t), w\<lparr>w_db := dequeue_db k xs (w_clock w (w_tick w)) (w_clock w (Suc (w_tick w))) (t_ID t) (w_db w),
        w_tick := Suc (Suc (w_tick w))\<rparr>)"
  using assms
  by (auto simp: run_simps task_stored_def task_json_roundtrip dequeue_db_def split: option.splits rval.splits)

lemma run_dequeue_empty:
  assumes "rq_client rq = redis_client pk" and "list_at (queueKey rq p) (w_db w) = Some []"
  shows "run_state (dequeue_loop rq Live (p # ps)) w = run_state (dequeue_loop rq Live ps) w"
  using assms by (simp add: run_simps)

lemma dequeue_db_simps:
  assumes "\<And>s. k \<noteq> statsKey s" "\<And>i. k \<noteq> processingKey i"
  shows "only_changes {k, processingKey i, statsKey ''last_dequeue''} d (dequeue_db k xs now now' i d)"
    and "list_at k (dequeue_db k xs now now' i d) = Some xs"
    and "key_get (processingKey i) (dequeue_db k xs now now' i d) = Some (VStr (Doc (JNum (time_Unix now))) (1 * Hour))"
  using assms by (simp_all add: dequeue_db_def only_changes_def)

lemma holds_queue_pop:
  assumes q: "holds_queue d q" and p: "p \<in> set priorities" "q p = t # ts"
    and d': "only_changes {qkey p, processingKey i, statsKey ''last_dequeue''} d d'"
    and k: "list_at (qkey p) d' = Some (map (\<lambda>t. Text (t_ID t)) ts)"
  shows "holds_queue d' (q(p := ts))"
proof -
  have "list_at (qkey r) d' = Some (map (\<lambda>t. Text (t_ID t)) ((q(p := ts)) r))"
    if r: "r \<in> set priorities" for r
  proof (cases "r = p")
    case True
    with k show ?thesis by simp
  next
    case False
    with r p have "list_at (qkey r) d' = list_at (qkey r) d"
      by (intro only_changes_list_at [OF d']) simp
    with False r q show ?thesis by (simp add: holds_queue_def)
  qed
  moreover have "distinct (map t_ID ((q(p := ts)) r))"
    and "\<forall>u \<in> set ((q(p := ts)) r). u \<in> set (q r)" if "r \<in> set priorities" for r
    using that q p by (auto simp: holds_queue_def)
  moreover have "task_stored d' u" if "task_stored d u" for u
    using that only_changes_key_get [OF d', of "taskKey (t_ID u)"] by (simp add: task_stored_def)
  ultimately show ?thesis using q by (simp add: holds_queue_def)
qed

lemma run_dequeue_loop:
  assumes "holds_queue (w_db w) q" and "set ps \<subseteq> set priorities"
  shows "case a_first q ps of
      None \<Rightarrow> run_state (dequeue_loop (RQ (redis_client pk)) Live ps) w = (Inr None, w)
    | Some (t, q') \<Rightarrow> \<exists>d. run_state (dequeue_loop (RQ (redis_client pk)) Live ps) w =
          (Inr (Some t), w\<lparr>w_db := d, w_tick := Suc (Suc (w_tick w))\<rparr>) \<and> holds_queue d q' \<and>
          task_ok t \<and> task_stored d t \<and>
          only_changes {qkey (t_Priority t), processingKey (t_ID t), statsKey ''last_dequeue''} (w_db w) d \<and>
          key_get (processingKey (t_ID t)) d = Some (VStr (Doc (JNum (time_Unix (w_clock w (w_tick w))))) (1 * Hour))"
  using assms(2)
proof (induction ps)
  case Nil
  then show ?case by simp
next
  case (Cons p ps)
  from Cons.prems have p: "p \<in> set priorities" by simp
  with assms(1) have lst: "list_at (qkey p) (w_db w) = Some (map (\<lambda>t. Text (t_ID t)) (q p))"
    by (simp add: holds_queue_def)
  show ?case
  proof (cases "q p")
    case Nil
    with lst p have run: "run_state (dequeue_loop (RQ (redis_client pk)) Live (p # ps)) w
        = run_state (dequeue_loop (RQ (redis_client pk)) Live ps) w"
      by (intro run_dequeue_empty) simp_all
    from Nil have first: "a_first q (p # ps) = a_first q ps" by simp
    from Cons.prems have "set ps \<subseteq> set priorities" by simp
    from Cons.IH [OF this] show ?thesis unfolding run first .
  next
    case (Cons t ts)
    with assms(1) p have t: "task_stored (w_db w) t" "task_ok t" "t_Priority t = p"
      by (auto simp: holds_queue_def)
    let ?d = "dequeue_db (qkey p) (map (\<lambda>t. Text (t_ID t)) ts) (w_clock w (w_tick w))
                (w_clock w (Suc (w_tick w))) (t_ID t) (w_db w)"
    have d: "only_changes {qkey p, processingKey (t_ID t), statsKey ''last_dequeue''} (w_db w) ?d"
        "list_at (qkey p) ?d = Some (map (\<lambda>t. Text (t_ID t)) ts)"
        "key_get (processingKey (t_ID t)) ?d = Some (VStr (Doc (JNum (time_Unix (w_clock w (w_tick w))))) (1 * Hour))"
      by (intro dequeue_db_simps; simp)+
    have run: "run_state (dequeue_loop (RQ (redis_client pk)) Live (p # ps)) w =
        (Inr (Some t), w\<lparr>w_db := ?d, w_tick := Suc (Suc (w_tick w))\<rparr>)"
      using lst Cons p t by (intro run_dequeue_hit) simp_all
    have "holds_queue ?d (q(p := ts))"
      by (rule holds_queue_pop [OF assms(1) p Cons d(1,2)])
    moreover have "task_stored ?d t"
      using t(1) only_changes_key_get [OF d(1), of "taskKey (t_ID t)"] by (simp add: task_stored_def)
    ultimately show ?thesis
      using run d t Cons by (simp del: dequeue_loop.simps) (rule exI [of _ ?d], simp)
  qed
qed

lemma run_Dequeue_Some:
  assumes "holds_queue (w_db w) q" and "a_dequeue q = Some (t, q')"
  shows "\<exists>d. run_state (Dequeue (RQ (redis_client pk)) c) w =
          (Inr (Some t), w\<lparr>w_db := d, w_tick := Suc (Suc (w_tick w))\<rparr>) \<and> holds_queue d q' \<and>
          task_ok t \<and> task_stored d t \<and>
          only_changes {qkey (t_Priority t), processingKey (t_ID t), statsKey ''last_dequeue''} (w_db w) d \<and>
          key_get (processingKey (t_ID t)) d = Some (VStr (Doc (JNum (time_Unix (w_clock w (w_tick w))))) (1 * Hour))"
  using run_dequeue_loop [OF assms(1) subset_refl, of pk] assms(2)
  by (simp add: Dequeue_def a_dequeue_def)

lemma run_Dequeue_None:
  assumes "holds_queue (w_db w) q" and "a_dequeue q = None"
  shows "run_state (Dequeue (RQ (redis_client pk)) c) w = (Inr None, w)"
  using run_dequeue_loop [OF assms(1) subset_refl, of pk] assms(2)
  by (simp add: Dequeue_def a_dequeue_def)

lemma a_first_concat:
  assumes "distinct ps"
  shows "case a_first q ps of
      None \<Rightarrow> concat (map q ps) = []
    | Some (t, q') \<Rightarrow> concat (map q ps) = t # concat (map q' ps)"
  using assms
proof (induction ps)
  case Nil
  then show ?case by simp
next
  case (Cons p ps)
  show ?case
  proof (cases "q p")
    case Nil
    show ?thesis
    proof (cases "a_first q ps")
      case None
      with Nil Cons show ?thesis by simp
    next
      case (Some tq)
      moreover obtain t q' where "tq = (t, q')" by (cases tq)
      moreover have "q' p = []" if "a_first q ps = Some (t, q')" for t q'
        using that Nil Cons.prems(1)
      proof (induction ps)
        case (Cons r ps)
        then show ?case by (cases "q r") auto
      qed simp
      ultimately show ?thesis using Nil Cons by simp
    qed
  next
    case (Cons t ts)
    moreover have "map (q(p := ts)) ps = map q ps"
      using Cons.prems by auto
    ultimately show ?thesis by (simp del: map_eq_conv)
  qed
qed

lemma a_dequeue_order:
  "case a_dequeue q of None \<Rightarrow> a_order q = [] | Some (t, q') \<Rightarrow> a_order q = t # a_order q'"
  unfolding a_dequeue_def a_order_def by (rule a_first_concat) (simp add: priorities_def)

subsection \<open>The queue interface\<close>

text \<open>
  What a client of the interface \<open>Queue\<close> may rely on, and what follows from it for a
  client that submits tasks and then takes as many out: they come by priority, and within a
  priority in the order of submission.
\<close>

primrec drain :: "('w \<Rightarrow> task option \<times> 'w) \<Rightarrow> nat \<Rightarrow> 'w \<Rightarrow> task option list" where
  "drain deq 0 w = []"
| "drain deq (Suc n) w = (case deq w of (r, w') \<Rightarrow> r # drain deq n w')"

definition by_priority :: "task list \<Rightarrow> task list" where
  "by_priority ts = concat (map (\<lambda>p. filter (\<lambda>t. t_Priority t = p) ts) priorities)"

definition submittable :: "task list \<Rightarrow> bool" where
  "submittable ts \<longleftrightarrow> distinct (map t_ID ts) \<and> list_all (\<lambda>t. task_ok t \<and> t_Priority t \<in> set priorities) ts"

lemma length_by_priority:
  assumes "submittable ts"
  shows "length (by_priority ts) = length ts"
proof -
  have "length (filter (\<lambda>t. t_Priority t = 3) ts) + length (filter (\<lambda>t. t_Priority t = 2) ts) +
      length (filter (\<lambda>t. t_Priority t = 1) ts) + length (filter (\<lambda>t. t_Priority t = 0) ts) = length ts"
    if "list_all (\<lambda>t. t_Priority t \<in> {0, 1, 2, 3}) ts"
    using that by (induction ts) auto
  with assms show ?thesis
    by (simp add: by_priority_def submittable_def set_priorities list_all_iff) (simp add: priorities_def)
qed

locale priority_queue =
  fixes enq :: "task \<Rightarrow> 'w \<Rightarrow> 'w" and deq :: "'w \<Rightarrow> task option \<times> 'w" and rel :: "'w \<Rightarrow> pqueue \<Rightarrow> bool"
  assumes enq_rel: "\<lbrakk>rel w q; task_ok t; t_Priority t \<in> set priorities;
        \<And>p u. p \<in> set priorities \<Longrightarrow> u \<in> set (q p) \<Longrightarrow> t_ID u \<noteq> t_ID t\<rbrakk>
      \<Longrightarrow> rel (enq t w) (a_enqueue t q)"
    and deq_Some: "rel w q \<Longrightarrow> a_dequeue q = Some (t, q') \<Longrightarrow> \<exists>w'. deq w = (Some t, w') \<and> rel w' q'"
    and deq_None: "rel w q \<Longrightarrow> a_dequeue q = None \<Longrightarrow> fst (deq w) = None"
begin

lemma drain_all: "rel w q \<Longrightarrow> drain deq (length (a_order q)) w = map Some (a_order q)"
proof (induction "a_order q" arbitrary: w q)
  case Nil
  then show ?case by (simp flip: Nil.hyps)
next
  case (Cons t ts)
  then obtain q' where tq: "a_dequeue q = Some (t, q')" and ord: "a_order q = t # a_order q'"
    using a_dequeue_order [of q] by (auto split: option.splits)
  from deq_Some [OF Cons.prems tq] obtain w' where "deq w = (Some t, w')" "rel w' q'" by blast
  with Cons.hyps ord show ?case by simp
qed

lemma enq_all:
  assumes "rel w (\<lambda>_. [])" and "submittable ts"
  shows "rel (fold enq ts w) (\<lambda>p. filter (\<lambda>t. t_Priority t = p) ts)"
  using assms(2)
proof (induction ts rule: rev_induct)
  case Nil
  with assms(1) show ?case by simp
next
  case (snoc t ts)
  let ?q = "\<lambda>p. filter (\<lambda>t. t_Priority t = p) ts"
  from snoc.prems have sub: "submittable ts" and t: "task_ok t" "t_Priority t \<in> set priorities"
    and fresh: "\<forall>u \<in> set ts. t_ID u \<noteq> t_ID t"
    by (auto simp: submittable_def) (metis image_eqI)
  have "rel (enq t (fold enq ts w)) (a_enqueue t ?q)"
    using fresh by (intro enq_rel snoc.IH sub t) simp
  moreover have "a_enqueue t ?q = (\<lambda>p. filter (\<lambda>t. t_Priority t = p) (ts @ [t]))"
    by (auto simp: a_enqueue_def fun_eq_iff)
  ultimately show ?case by simp
qed

lemma drain_by_priority:
  assumes "rel w (\<lambda>_. [])" and "submittable ts"
  shows "drain deq (length ts) (fold enq ts w) = map Some (by_priority ts)"
  using drain_all [OF enq_all [OF assms]] length_by_priority [OF assms(2)]
  by (simp add: by_priority_def a_order_def)

end

definition redis_enq :: "picker \<Rightarrow> task \<Rightarrow> db world \<Rightarrow> db world" where
  "redis_enq pk t w = snd (run_state (Enqueue (RQ (redis_client pk)) Live (Some t)) w)"

definition redis_deq :: "picker \<Rightarrow> db world \<Rightarrow> task option \<times> db world" where
  "redis_deq pk w =
     (case run_state (Dequeue (RQ (redis_client pk)) Live) w of
        (Inr r, w') \<Rightarrow> (r, w') | (Inl e, w') \<Rightarrow> (None, w'))"

interpretation rq: priority_queue "redis_enq pk" "redis_deq pk" "\<lambda>w. holds_queue (w_db w)" for pk
proof unfold_locales
  fix w :: "db world" and q t
  assume "holds_queue (w_db w) q" "task_ok t" "t_Priority t \<in> set priorities"
    and "\<And>p u. p \<in> set priorities \<Longrightarrow> u \<in> set (q p) \<Longrightarrow> t_ID u \<noteq> t_ID t"
  then show "holds_queue (w_db (redis_enq pk t w)) (a_enqueue t q)"
    using holds_queue_Enqueue [of w q t pk Live] by (auto simp: redis_enq_def)
next
  fix w :: "db world" and q t q'
  assume "holds_queue (w_db w) q" "a_dequeue q = Some (t, q')"
  then show "\<exists>w'. redis_deq pk w = (Some t, w') \<and> holds_queue (w_db w') q'"
    using run_Dequeue_Some [of w q t q' pk Live] by (auto simp: redis_deq_def)
next
  fix w :: "db world" and q
  assume "holds_queue (w_db w) q" "a_dequeue q = None"
  then show "fst (redis_deq pk w) = None"
    using run_Dequeue_None [of w q pk Live] by (simp add: redis_deq_def)
qed

section \<open>Further operations\<close>

lemma holds_queue_empty [simp]: "holds_queue empty_db (\<lambda>_. [])"
  by (simp add: holds_queue_def)

lemma set_a_order: "u \<in> set (a_order q) \<longleftrightarrow> (\<exists>p \<in> set priorities. u \<in> set (q p))"
  by (auto simp: a_order_def)

text \<open>The interface of the queue, over any client that behaves as documented.\<close>

definition queue_enq :: "'s client \<Rightarrow> task \<Rightarrow> 's world \<Rightarrow> 's world" where
  "queue_enq ex t w = snd (run_state (Enqueue (RQ ex) Live (Some t)) w)"

definition queue_deq :: "'s client \<Rightarrow> 's world \<Rightarrow> task option \<times> 's world" where
  "queue_deq ex w =
     (case run_state (Dequeue (RQ ex) Live) w of (Inr r, w') \<Rightarrow> (r, w') | (Inl e, w') \<Rightarrow> (None, w'))"

lemma sim_enq_deq:
  assumes "redis_server ex view pk"
  shows "world_map view (queue_enq ex t w) = redis_enq pk t (world_map view w)"
    and "fst (queue_deq ex w) = fst (redis_deq pk (world_map view w))"
    and "world_map view (snd (queue_deq ex w)) = snd (redis_deq pk (world_map view w))"
  using sim_Enqueue [OF assms, of Live "Some t"] sim_queue_ops(1) [OF assms, of Live]
  by (auto simp: simulates_def queue_enq_def redis_enq_def queue_deq_def redis_deq_def split: prod.splits sum.splits)

lemma queue_implements:
  fixes ex :: "'s client"
  assumes "redis_server ex view pk"
  shows "priority_queue (queue_enq ex) (queue_deq ex) (\<lambda>w :: 's world. holds_queue (view (w_db w)))"
proof
  fix w :: "'s world" and q t
  assume "holds_queue (view (w_db w)) q" "task_ok t" "t_Priority t \<in> set priorities"
    and "\<And>p u. p \<in> set priorities \<Longrightarrow> u \<in> set (q p) \<Longrightarrow> t_ID u \<noteq> t_ID t"
  with rq.enq_rel [of "world_map view w" q t pk] have "holds_queue (w_db (redis_enq pk t (world_map view w))) (a_enqueue t q)"
    by simp
  then show "holds_queue (view (w_db (queue_enq ex t w))) (a_enqueue t q)"
    by (simp flip: sim_enq_deq(1) [OF assms])
next
  fix w :: "'s world" and q t q'
  assume "holds_queue (view (w_db w)) q" "a_dequeue q = Some (t, q')"
  with rq.deq_Some [of "world_map view w" q t q' pk] obtain v where
    "redis_deq pk (world_map view w) = (Some t, v)" "holds_queue (w_db v) q'" by auto
  with sim_enq_deq(2,3) [OF assms, of w] have "fst (queue_deq ex w) = Some t"
    "holds_queue (w_db (world_map view (snd (queue_deq ex w)))) q'"
    by simp_all
  then show "\<exists>w'. queue_deq ex w = (Some t, w') \<and> holds_queue (view (w_db w')) q'"
    by (cases "queue_deq ex w") simp
next
  fix w :: "'s world" and q
  assume "holds_queue (view (w_db w)) q" "a_dequeue q = None"
  with rq.deq_None [of "world_map view w" q pk] show "fst (queue_deq ex w) = None"
    by (simp add: sim_enq_deq(2) [OF assms])
qed

lemma run_peek_loop:
  assumes "holds_queue (w_db w) q" and "set ps \<subseteq> set priorities"
  shows "run_state (peek_loop (RQ (redis_client pk)) Live ps) w = (Inr (map_option fst (a_first q ps)), w)"
  using assms(2)
proof (induction ps)
  case Nil
  then show ?case by simp
next
  case (Cons p ps)
  then have p: "p \<in> set priorities" and ps: "set ps \<subseteq> set priorities" by simp_all
  with assms(1) have lst: "list_at (qkey p) (w_db w) = Some (map (\<lambda>t. Text (t_ID t)) (q p))"
    by (simp add: holds_queue_def)
  show ?case
  proof (cases "q p")
    case Nil
    with lst p Cons.IH [OF ps] show ?thesis by (simp add: run_simps lindex_0)
  next
    case (Cons t ts)
    with assms(1) p have "task_stored (w_db w) t" "task_ok t" by (auto simp: holds_queue_def)
    then obtain ttl where "key_get (taskKey (t_ID t)) (w_db w) = Some (VStr (Doc (task_json t)) ttl)"
      by (auto simp: task_stored_def split: option.splits rval.splits)
    with lst p Cons \<open>task_ok t\<close> show ?thesis by (simp add: run_simps lindex_0 task_json_roundtrip)
  qed
qed

lemma run_size_loop:
  assumes "\<forall>pr \<in> set ks. \<exists>xs. list_at (snd pr) (w_db w) = Some xs \<and> length xs = f (snd pr)"
    and "0 \<le> acc" and "acc + (\<Sum>pr \<leftarrow> ks. int (f (snd pr))) < 2 ^ 63"
  shows "run_state (size_loop \<lparr>rq_client = redis_client pk, rq_queueKeys = ks'\<rparr> Live ks acc) w =
    (Inr (acc + (\<Sum>pr \<leftarrow> ks. int (f (snd pr)))), w)"
  using assms
proof (induction ks arbitrary: acc)
  case Nil
  then show ?case by simp
next
  case (Cons pr ks)
  let ?n = "int (f (snd pr))"
  have rest: "0 \<le> (\<Sum>pr \<leftarrow> ks. int (f (snd pr)))" by (rule sum_list_nonneg) auto
  with Cons.prems have "wrap64 (acc + ?n) = acc + ?n" by (intro wrap64_id) (simp add: in64_def)
  moreover obtain xs where "list_at (snd pr) (w_db w) = Some xs" "length xs = f (snd pr)" using Cons.prems by auto
  ultimately show ?case using Cons.IH [of "acc + ?n"] Cons.prems by (simp add: run_simps)
qed

lemma run_del_all:
  "\<exists>d. run_state (del_all \<lparr>rq_client = redis_client pk, rq_queueKeys = ks\<rparr> Live (map Text xs)) w = ((), w\<lparr>w_db := d\<rparr>) \<and>
     (\<forall>k. key_get k d = (if k \<in> set xs then None else key_get k (w_db w)))"
proof (induction xs arbitrary: w)
  case Nil
  show ?case by (rule exI [of _ "w_db w"]) simp
next
  case (Cons x xs)
  from Cons.IH [of "w\<lparr>w_db := key_del x (w_db w)\<rparr>"] show ?case by (auto simp: run_simps)
qed

lemma run_purge_prefix:
  "\<exists>d. run_state (purge_prefix \<lparr>rq_client = redis_client pk, rq_queueKeys = ks\<rparr> Live p msg) w = (None, w\<lparr>w_db := d\<rparr>) \<and>
     (\<forall>k. key_get k d = (if take (length p) k = p then None else key_get k (w_db w)))"
proof -
  let ?xs = "filter (\<lambda>k. take (length p) k = p) (remdups (map fst (keyspace (w_db w))))"
  have gone: "key_get k (w_db w) = None" if "k \<notin> set ?xs" "take (length p) k = p" for k
    using that by (auto simp: key_get_def map_of_eq_None_iff)
  from run_del_all [of pk ks ?xs w] obtain d where
    "run_state (del_all \<lparr>rq_client = redis_client pk, rq_queueKeys = ks\<rparr> Live (map Text ?xs)) w = ((), w\<lparr>w_db := d\<rparr>)"
    and d: "\<forall>k. key_get k d = (if k \<in> set ?xs then None else key_get k (w_db w))" by blast
  then have "run_state (purge_prefix \<lparr>rq_client = redis_client pk, rq_queueKeys = ks\<rparr> Live p msg) w = (None, w\<lparr>w_db := d\<rparr>)"
    by (simp add: purge_prefix_def run_simps)
  moreover have "key_get k d = (if take (length p) k = p then None else key_get k (w_db w))" for k
    using d gone [of k] by auto
  ultimately show ?thesis by blast
qed

lemma run_purge_queues:
  "\<exists>d. run_state (purge_queues \<lparr>rq_client = redis_client pk, rq_queueKeys = ks'\<rparr> Live ks) w = (None, w\<lparr>w_db := d\<rparr>) \<and>
     (\<forall>k. key_get k d = (if k \<in> snd ` set ks then None else key_get k (w_db w)))"
proof (induction ks arbitrary: w)
  case Nil
  show ?case by (rule exI [of _ "w_db w"]) simp
next
  case (Cons x xs)
  from Cons.IH [of "w\<lparr>w_db := key_del (snd x) (w_db w)\<rparr>"] obtain d where
    "run_state (purge_queues \<lparr>rq_client = redis_client pk, rq_queueKeys = ks'\<rparr> Live xs)
       (w\<lparr>w_db := key_del (snd x) (w_db w)\<rparr>) = (None, w\<lparr>w_db := d\<rparr>)"
    "\<forall>k. key_get k d = (if k \<in> snd ` set xs then None else key_get k (key_del (snd x) (w_db w)))"
    by auto
  then show ?case by (intro exI [of _ d]) (simp add: run_simps)
qed

text \<open>One command of a server that may fail.\<close>

lemma faulty_ok:
  assumes "redis_faulty ex view pk" and "cmd_err (fst (ex Live x s)) = None"
  shows "view (snd (ex Live x s)) = snd (redis_step pk x (view s))"
  using assms unfolding redis_faulty_def redis_client_Live [symmetric]
  by (metis cmd_err.simps(1) option.distinct(1) snd_conv)

lemma faulty_any:
  assumes "redis_faulty ex view pk"
  shows "view (snd (ex Live x s)) = view s \<or> view (snd (ex Live x s)) = snd (redis_step pk x (view s))"
  using assms unfolding redis_faulty_def redis_client_Live [symmetric] by (metis insertE singletonD snd_conv)

section \<open>Properties\<close>

text \<open>C1: Whatever client satisfies the documented behaviour of Redis, tasks that are submitted
  to an empty queue come out by descending priority, and in the order of submission within
  a priority.\<close>

theorem tasks_leave_by_priority:
  assumes "redis_server ex view pk" and "holds_queue (view (w_db w)) (\<lambda>_. [])" and "submittable ts"
  shows "drain (queue_deq ex) (length ts) (fold (queue_enq ex) ts w) = map Some (by_priority ts)"
  by (rule priority_queue.drain_by_priority [OF queue_implements [OF assms(1)]]) (use assms in auto)

theorem tasks_leave_by_priority_witness:
  "drain (queue_deq (redis_client first_pick)) 3
     (fold (queue_enq (redis_client first_pick)) [sample_task ''a'' 0 3, sample_task ''b'' 3 3, sample_task ''c'' 3 3]
       (start_world empty_db)) =
   [Some (sample_task ''b'' 3 3), Some (sample_task ''c'' 3 3), Some (sample_task ''a'' 0 3)]"
  using tasks_leave_by_priority [OF redis_server_refl, where w = "start_world empty_db"
      and ts = "[sample_task ''a'' 0 3, sample_task ''b'' 3 3, sample_task ''c'' 3 3]"]
  by (simp add: submittable_def sample_task_ok in64_def set_priorities by_priority_def priorities_def
      numeral_3_eq_3 del: drain.simps)

text \<open>C10: \<open>Enqueue\<close> of a fresh well-formed task appends it to the list of its priority, under a
  live context as under a cancelled one, and returns nil.\<close>

theorem Enqueue_refines:
  assumes "redis_server ex view pk" and "holds_queue (view (w_db w)) q" and "task_ok t"
    and "t_Priority t \<in> set priorities" and "t_ID t \<notin> t_ID ` set (a_order q)"
  shows "\<exists>w'. run_state (Enqueue (RQ ex) c (Some t)) w = (None, w') \<and> holds_queue (view (w_db w')) (a_enqueue t q)"
proof -
  have "t_ID u \<noteq> t_ID t" if "p \<in> set priorities" "u \<in> set (q p)" for p u
    using assms(5) that by (metis image_eqI set_a_order)
  with holds_queue_Enqueue [of "world_map view w" q t pk c] assms obtain d where
    "run_state (Enqueue (RQ (redis_client pk)) c (Some t)) (world_map view w) =
       (None, (world_map view w)\<lparr>w_db := d, w_tick := Suc (w_tick w)\<rparr>)" "holds_queue d (a_enqueue t q)"
    by auto
  with simulates_run [OF sim_Enqueue [OF assms(1)]] show ?thesis by (fastforce simp: world_map_def)
qed

theorem Enqueue_refines_witness:
  "\<exists>w'. run_state (Enqueue (RQ (redis_client first_pick)) Canceled (Some (sample_task ''a'' 2 3))) (start_world empty_db) = (None, w') \<and>
     holds_queue (w_db w') (a_enqueue (sample_task ''a'' 2 3) (\<lambda>_. []))"
  using Enqueue_refines [OF redis_server_refl, where w = "start_world empty_db" and q = "\<lambda>_. []" and t = "sample_task ''a'' 2 3"
      and c = Canceled and pk = first_pick]
  by (simp add: sample_task_ok in64_def set_priorities a_order_def)

text \<open>C11: \<open>Dequeue\<close> returns the oldest task of the highest non-empty priority, removes it, marks it
  as being processed for one hour and keeps its data; on an empty queue it returns nil and changes
  nothing.\<close>

theorem Dequeue_refines:
  assumes "redis_server ex view pk" and "holds_queue (view (w_db w)) q"
  shows "case a_dequeue q of
      None \<Rightarrow> \<exists>w'. run_state (Dequeue (RQ ex) c) w = (Inr None, w') \<and> world_map view w' = world_map view w
    | Some (t, q') \<Rightarrow> \<exists>w'. run_state (Dequeue (RQ ex) c) w = (Inr (Some t), w') \<and>
        holds_queue (view (w_db w')) q' \<and> task_stored (view (w_db w')) t \<and>
        key_get (processingKey (t_ID t)) (view (w_db w')) =
          Some (VStr (Doc (JNum (time_Unix (w_clock w (w_tick w))))) (1 * Hour))"
proof (cases "a_dequeue q")
  case None
  from run_Dequeue_None [OF _ None, of "world_map view w" pk c] assms(2)
  have "run_state (Dequeue (RQ (redis_client pk)) c) (world_map view w) = (Inr None, world_map view w)" by simp
  from simulates_run [OF sim_queue_ops(1) [OF assms(1)] this] None show ?thesis by simp
next
  case (Some tq)
  then obtain t q' where t: "a_dequeue q = Some (t, q')" by (cases tq) simp
  from run_Dequeue_Some [OF _ t, of "world_map view w" pk c] assms(2) obtain d where
    "run_state (Dequeue (RQ (redis_client pk)) c) (world_map view w) =
       (Inr (Some t), (world_map view w)\<lparr>w_db := d, w_tick := Suc (Suc (w_tick w))\<rparr>)"
    and d: "holds_queue d q'" "task_stored d t" "key_get (processingKey (t_ID t)) d =
      Some (VStr (Doc (JNum (time_Unix (w_clock w (w_tick w))))) (1 * Hour))"
    by auto
  from simulates_run [OF sim_queue_ops(1) [OF assms(1)] this(1)] obtain w' where
    "run_state (Dequeue (RQ ex) c) w = (Inr (Some t), w')" "view (w_db w') = d"
    by (auto simp: world_map_def)
  with d t show ?thesis by auto
qed

theorem Dequeue_refines_witness:
  "\<exists>w'. run_state (Dequeue (RQ (redis_client first_pick)) Live) (start_world empty_db) = (Inr None, w') \<and>
     world_map id w' = world_map id (start_world empty_db)"
  using Dequeue_refines [OF redis_server_refl, where w = "start_world empty_db" and q = "\<lambda>_. []" and pk = first_pick and c = Live]
  by (simp add: a_dequeue_def priorities_def)

text \<open>\<open>Peek\<close> returns the task that \<open>Dequeue\<close> would return and changes nothing.\<close>

theorem Peek_agrees:
  assumes "redis_server ex view pk" and "holds_queue (view (w_db w)) q"
  shows "\<exists>w' v. run_state (Peek (RQ ex) Live) w = (Inr (map_option fst (a_dequeue q)), w') \<and>
    world_map view w' = world_map view w \<and>
    run_state (Dequeue (RQ ex) Live) w = (Inr (map_option fst (a_dequeue q)), v)"
proof -
  from assms(2) have q: "holds_queue (w_db (world_map view w)) q" by simp
  have "run_state (Peek (RQ (redis_client pk)) Live) (world_map view w) =
      (Inr (map_option fst (a_dequeue q)), world_map view w)"
    using run_peek_loop [OF q subset_refl, of pk] by (simp add: Peek_def a_dequeue_def)
  from simulates_run [OF sim_queue_ops(2) [OF assms(1)] this]
  obtain w' where "run_state (Peek (RQ ex) Live) w = (Inr (map_option fst (a_dequeue q)), w')"
    "world_map view w' = world_map view w" by blast
  moreover have "\<exists>v. run_state (Dequeue (RQ (redis_client pk)) Live) (world_map view w) =
      (Inr (map_option fst (a_dequeue q)), v)"
  proof (cases "a_dequeue q")
    case None
    with run_Dequeue_None [OF q None, of pk Live] show ?thesis by simp
  next
    case (Some x)
    with run_Dequeue_Some [OF q, of "fst x" "snd x" pk Live] show ?thesis by auto
  qed
  ultimately show ?thesis using simulates_run [OF sim_queue_ops(1) [OF assms(1)]] by metis
qed

theorem Peek_agrees_witness:
  "\<exists>w' v. run_state (Peek (RQ (redis_client first_pick)) Live) (start_world empty_db) = (Inr None, w') \<and>
     world_map id w' = world_map id (start_world empty_db) \<and>
     run_state (Dequeue (RQ (redis_client first_pick)) Live) (start_world empty_db) = (Inr None, v)"
  using Peek_agrees [OF redis_server_refl, where w = "start_world empty_db" and q = "\<lambda>_. []" and pk = first_pick]
  by (simp add: a_dequeue_def priorities_def)

text \<open>In whatever order the map of queue keys is traversed, \<open>Size\<close> is the number of queued
  tasks.\<close>

theorem Size_counts:
  assumes "redis_server ex view pk" and "holds_queue (view (w_db w)) q"
    and "mset ks = mset init_queueKeys" and "length (a_order q) < 2 ^ 63"
  shows "\<exists>w'. run_state (Size \<lparr>rq_client = ex, rq_queueKeys = ks\<rparr> Live) w = (Inr (int (length (a_order q))), w') \<and>
    world_map view w' = world_map view w"
proof -
  let ?f = "\<lambda>k. case list_at k (view (w_db w)) of None \<Rightarrow> 0 | Some xs \<Rightarrow> length xs"
  have keys: "list_at (snd pr) (view (w_db w)) = Some (map (\<lambda>t. Text (t_ID t)) (q (fst pr)))" if "pr \<in> set init_queueKeys" for pr
  proof -
    from that have "fst pr \<in> set priorities" "snd pr = qkey (fst pr)"
      by (auto simp: init_queueKeys_def set_priorities qkey_def PriorityString_def)
    with assms(2) show ?thesis by (simp add: holds_queue_def)
  qed
  have "(\<Sum>pr \<leftarrow> ks. int (?f (snd pr))) = (\<Sum>pr \<leftarrow> init_queueKeys. int (?f (snd pr)))"
    by (metis (no_types, lifting) assms(3) mset_map sum_mset_sum_list)
  also have "\<dots> = (\<Sum>pr \<leftarrow> init_queueKeys. int (length (q (fst pr))))"
    by (rule arg_cong [where f = sum_list], rule map_cong [OF refl]) (simp add: keys)
  also have "\<dots> = int (length (a_order q))" by (simp add: init_queueKeys_def a_order_def priorities_def)
  finally have total: "(\<Sum>pr \<leftarrow> ks. int (?f (snd pr))) = int (length (a_order q))" .
  moreover have "\<forall>pr \<in> set ks. \<exists>xs. list_at (snd pr) (view (w_db w)) = Some xs \<and> length xs = ?f (snd pr)"
    using keys mset_eq_setD [OF assms(3)] by fastforce
  ultimately have "run_state (Size \<lparr>rq_client = redis_client pk, rq_queueKeys = ks\<rparr> Live) (world_map view w) =
      (Inr (int (length (a_order q))), world_map view w)"
    using run_size_loop [of ks "world_map view w" ?f 0 pk ks] assms(4) by (simp add: Size_def)
  from simulates_run [OF sim_queue_range_ops(1) [OF assms(1)] this] show ?thesis .
qed

theorem Size_counts_witness:
  "\<exists>w'. run_state (Size \<lparr>rq_client = redis_client first_pick, rq_queueKeys = rev init_queueKeys\<rparr> Live) (start_world empty_db) =
     (Inr 0, w') \<and> world_map id w' = world_map id (start_world empty_db)"
  using Size_counts [OF redis_server_refl, where w = "start_world empty_db" and q = "\<lambda>_. []" and pk = first_pick
      and ks = "rev init_queueKeys"]
  by (simp add: a_order_def priorities_def)

text \<open>In whatever order the map of queue keys is traversed, \<open>Purge\<close> removes the four queues,
  all task data and all processing marks, and nothing else: dead letters and statistics stay.\<close>

theorem Purge_empties:
  assumes "redis_server ex view pk" and "mset ks = mset init_queueKeys"
  shows "\<exists>w'. run_state (Purge \<lparr>rq_client = ex, rq_queueKeys = ks\<rparr> Live) w = (None, w') \<and>
    holds_queue (view (w_db w')) (\<lambda>_. []) \<and>
    (\<forall>i. key_get (taskKey i) (view (w_db w')) = None \<and> key_get (processingKey i) (view (w_db w')) = None) \<and>
    list_at dlqKey (view (w_db w')) = list_at dlqKey (view (w_db w)) \<and>
    (\<forall>s. key_get (statsKey s) (view (w_db w')) = key_get (statsKey s) (view (w_db w)))"
proof -
  let ?rq = "\<lparr>rq_client = redis_client pk, rq_queueKeys = ks\<rparr>" and ?v = "world_map view w"
  from run_purge_queues [of pk ks ks ?v] obtain d1 where
    r1: "run_state (purge_queues ?rq Live ks) ?v = (None, ?v\<lparr>w_db := d1\<rparr>)"
    and d1: "\<forall>k. key_get k d1 = (if k \<in> snd ` set ks then None else key_get k (view (w_db w)))" by auto
  from run_purge_prefix [of pk ks taskKeyPrefix "''failed to delete task data''" "?v\<lparr>w_db := d1\<rparr>"] obtain d2 where
    r2: "run_state (purge_prefix ?rq Live taskKeyPrefix ''failed to delete task data'') (?v\<lparr>w_db := d1\<rparr>) = (None, ?v\<lparr>w_db := d2\<rparr>)"
    and d2: "\<forall>k. key_get k d2 = (if take (length taskKeyPrefix) k = taskKeyPrefix then None else key_get k d1)" by auto
  from run_purge_prefix [of pk ks processingKeyPrefix "''failed to delete processing data''" "?v\<lparr>w_db := d2\<rparr>"] obtain d3 where
    r3: "run_state (purge_prefix ?rq Live processingKeyPrefix ''failed to delete processing data'') (?v\<lparr>w_db := d2\<rparr>) = (None, ?v\<lparr>w_db := d3\<rparr>)"
    and d3: "\<forall>k. key_get k d3 = (if take (length processingKeyPrefix) k = processingKeyPrefix then None else key_get k d2)" by auto
  have "run_state (Purge ?rq Live) ?v = (None, ?v\<lparr>w_db := d3\<rparr>)"
    using r1 r2 r3 by (simp add: Purge_def del: append.simps)
  from simulates_run [OF sim_queue_range_ops(3) [OF assms(1)] this] obtain w' where
    w': "run_state (Purge \<lparr>rq_client = ex, rq_queueKeys = ks\<rparr> Live) w = (None, w')" "view (w_db w') = d3"
    by (auto simp: world_map_def)
  have queues: "snd ` set ks = {qkey 3, qkey 2, qkey 1, qkey 0}"
    using mset_eq_setD [OF assms(2)] by (simp add: init_queueKeys_def qkey_def PriorityString_def)
  have task: "key_get (taskKey i) d3 = None" and proc: "key_get (processingKey i) d3 = None" for i
    using d2 d3 by (simp_all add: taskKey_def processingKey_def)
  have q: "key_get (qkey p) d3 = None" if "p \<in> set priorities" for p
    using that d1 d2 d3 queues by (auto simp: set_priorities)
  have keep: "key_get dlqKey d3 = key_get dlqKey (view (w_db w))" "key_get (statsKey s) d3 = key_get (statsKey s) (view (w_db w))" for s
    using d1 d2 d3 queues by (simp_all, simp_all add: key_defs)
  from q have "holds_queue d3 (\<lambda>_. [])" by (simp add: holds_queue_def list_at_def)
  with w' task proc keep show ?thesis by (simp add: list_at_def)
qed

theorem Purge_empties_witness:
  "\<exists>w'. run_state (Purge (RQ (redis_client first_pick)) Live) (start_world empty_db) = (None, w') \<and>
     holds_queue (w_db w') (\<lambda>_. [])"
  using Purge_empties [OF redis_server_refl refl, where w = "start_world empty_db" and pk = first_pick] by auto

text \<open>A task whose priority is none of the four is stored and reported as enqueued, but it
  is pushed to the list under the empty key: no priority queue changes, so no worker gets it.\<close>

theorem Enqueue_invalid_priority:
  assumes "redis_server ex view pk" and "holds_queue (view (w_db w)) q" and "list_at [] (view (w_db w)) = Some xs"
    and "task_ok t" and "t_Priority t \<notin> set priorities" and "t_ID t \<notin> t_ID ` set (a_order q)"
  shows "\<exists>w'. run_state (Enqueue (RQ ex) c (Some t)) w = (None, w') \<and>
    holds_queue (view (w_db w')) q \<and> list_at [] (view (w_db w')) = Some (xs @ [Text (t_ID t)])"
proof -
  let ?v = "world_map view w" and ?d = "enqueue_db pk [] xs (w_clock w (w_tick w)) t (view (w_db w))"
  note d = enqueue_db_simps [where k = "[]" and t = t and d = "view (w_db w)" and pk = pk and xs = xs
      and now = "w_clock w (w_tick w)", simplified]
  have "run_state (Enqueue (RQ (redis_client pk)) c (Some t)) ?v = (None, ?v\<lparr>w_db := ?d, w_tick := Suc (w_tick w)\<rparr>)"
    using run_Enqueue [of t "[]" ?v xs "RQ (redis_client pk)" pk c] assms
      queueKey_invalid [OF assms(5), of "redis_client pk"] by simp
  from simulates_run [OF sim_Enqueue [OF assms(1)] this] obtain w' where
    w': "run_state (Enqueue (RQ ex) c (Some t)) w = (None, w')" "view (w_db w') = ?d"
    by (auto simp: world_map_def)
  have "list_at (qkey p) ?d = list_at (qkey p) (view (w_db w))" for p
    by (rule only_changes_list_at [OF d(1)]) simp
  moreover have "task_stored ?d u = task_stored (view (w_db w)) u" if "p \<in> set priorities" "u \<in> set (q p)" for p u
  proof (rule task_stored_cong, rule only_changes_key_get [OF d(1)])
    have "t_ID u \<noteq> t_ID t" using that assms(6) by (metis image_eqI set_a_order)
    then show "taskKey (t_ID u) \<notin> {taskKey (t_ID t), [], statsKey ''total'', statsKey ''last_enqueue''}" by simp
  qed
  ultimately have "holds_queue ?d q" using assms(2) by (simp add: holds_queue_def)
  with w' d(3) show ?thesis by simp
qed

theorem Enqueue_invalid_priority_witness:
  "\<exists>w'. run_state (Enqueue (RQ (redis_client first_pick)) Live (Some (sample_task ''a'' 7 3))) (start_world empty_db) = (None, w') \<and>
     holds_queue (w_db w') (\<lambda>_. []) \<and> list_at [] (w_db w') = Some [Text ''a'']"
  using Enqueue_invalid_priority [OF redis_server_refl, where w = "start_world empty_db" and q = "\<lambda>_. []" and xs = "[]"
      and t = "sample_task ''a'' 7 3" and pk = first_pick and c = Live]
  by (simp add: sample_task_ok in64_def set_priorities a_order_def)

text \<open>An identifier at the head of a queue whose task data is gone is dropped, and the loop goes
  on with the next lower priority: the tasks that wait behind it in the same queue are passed over
  by this call.\<close>

theorem Dequeue_orphan_skips_priority:
  assumes "redis_server ex view pk" and "p \<in> set priorities" and "list_at (qkey p) (view (w_db w)) = Some (Text i # xs)"
    and "key_get (taskKey i) (view (w_db w)) = None"
  shows "\<exists>w'. run_state (dequeue_loop (RQ ex) Live (p # ps)) w = run_state (dequeue_loop (RQ ex) Live ps) w' \<and>
    list_at (qkey p) (view (w_db w')) = Some xs"
proof -
  let ?v = "w\<lparr>w_db := snd (ex Live (LPOP (qkey p)) (w_db w))\<rparr>"
  from assms(1) have step: "\<And>c x s. redis_client pk c x (view s) = (fst (ex c x s), view (snd (ex c x s)))"
    by (simp add: redis_server_def)
  have lpop: "fst (ex Live (LPOP (qkey p)) (w_db w)) = RBulk (Text i)"
    "view (snd (ex Live (LPOP (qkey p)) (w_db w))) = put_list (qkey p) xs (view (w_db w))"
    using step [of Live "LPOP (qkey p)" "w_db w"] assms(3) by simp_all
  have get: "fst (ex Live (GET (taskKey i)) (w_db ?v)) = RNil"
    "view (snd (ex Live (GET (taskKey i)) (w_db ?v))) = put_list (qkey p) xs (view (w_db w))"
    using step [of Live "GET (taskKey i)" "w_db ?v"] assms(4) lpop by simp_all
  show ?thesis
    using assms(2) lpop get
    by (intro exI [of _ "?v\<lparr>w_db := snd (ex Live (GET (taskKey i)) (w_db ?v))\<rparr>"]) (simp add: run_simps)
qed

theorem Dequeue_orphan_skips_priority_witness:
  "let d = put_list (qkey 3) [Text ''x'', Text ''b''] empty_db in
   \<exists>w'. run_state (dequeue_loop (RQ (redis_client first_pick)) Live [3, 2]) (start_world d) =
     run_state (dequeue_loop (RQ (redis_client first_pick)) Live [2]) w' \<and> list_at (qkey 3) (w_db w') = Some [Text ''b'']"
  using Dequeue_orphan_skips_priority [OF redis_server_refl, where p = 3 and ps = "[2]" and pk = first_pick
      and w = "start_world (put_list (qkey 3) [Text ''x'', Text ''b''] empty_db)" and i = "''x''" and xs = "[Text ''b'']"]
  by (simp add: set_priorities del: dequeue_loop.simps)

text \<open>\<open>Nack\<close> with re-queueing puts the identifier of a stored task at the tail of the queue of
  the task's priority, removes the processing mark and keeps the task data.\<close>

theorem Nack_requeue:
  assumes "redis_server ex view pk" and "t_ID t \<noteq> []" and "task_ok t" and "t_Priority t \<in> set priorities"
    and "list_at (qkey (t_Priority t)) (view (w_db w)) = Some xs" and "task_stored (view (w_db w)) t"
  shows "\<exists>w'. run_state (Nack (RQ ex) Live (t_ID t) True) w = (None, w') \<and>
    list_at (qkey (t_Priority t)) (view (w_db w')) = Some (xs @ [Text (t_ID t)]) \<and>
    task_stored (view (w_db w')) t \<and> key_get (processingKey (t_ID t)) (view (w_db w')) = None"
proof -
  obtain ttl where "key_get (taskKey (t_ID t)) (view (w_db w)) = Some (VStr (Doc (task_json t)) ttl)"
    using assms(6) by (auto simp: task_stored_def split: option.splits rval.splits)
  then have "run_state (Nack (RQ (redis_client pk)) Live (t_ID t) True) (world_map view w) =
      (None, (world_map view w)\<lparr>w_db := put_list (qkey (t_Priority t)) (xs @ [Text (t_ID t)])
         (key_del (processingKey (t_ID t)) (view (w_db w)))\<rparr>)"
    using assms by (simp add: Nack_def run_simps task_json_roundtrip)
  from simulates_run [OF sim_queue_ops(4) [OF assms(1)] this] assms(6) show ?thesis
    by (auto simp: world_map_def task_stored_def)
qed

theorem Nack_requeue_witness:
  "let d = key_put (taskKey ''a'') (VStr (Doc (task_json (sample_task ''a'' 1 3))) 0) empty_db in
   \<exists>w'. run_state (Nack (RQ (redis_client first_pick)) Live ''a'' True) (start_world d) = (None, w') \<and>
     list_at (qkey 1) (w_db w') = Some [Text ''a''] \<and> task_stored (w_db w') (sample_task ''a'' 1 3) \<and>
     key_get (processingKey ''a'') (w_db w') = None"
  using Nack_requeue [OF redis_server_refl, where t = "sample_task ''a'' 1 3" and xs = "[]" and pk = first_pick
      and w = "start_world (key_put (taskKey ''a'') (VStr (Doc (task_json (sample_task ''a'' 1 3))) 0) empty_db)"]
  by (simp add: sample_task_ok in64_def set_priorities task_stored_def)

text \<open>C31: The dead letter queue returns what was put in: after \<open>EnqueueDLQ\<close> the task, in state
  dead_letter and with the reason as its error, is the last of the tasks that \<open>GetDLQTasks\<close> lists, and
  a positive limit keeps the oldest ones.\<close>

theorem DLQ_roundtrip:
  assumes "redis_server ex view pk" and "list_at dlqKey (view (w_db w)) = Some (map (\<lambda>t. Doc (task_json t)) ts)"
    and "list_all task_ok (t # ts)" and "reason \<noteq> []"
  shows "\<exists>w' w''. run_state (EnqueueDLQ (RQ ex) Live (Some t) reason) w =
      ((None, Some (t\<lparr>t_State := StateDeadLetter, t_Error := reason\<rparr>)), w') \<and>
    run_state (GetDLQTasks (RQ ex) Live limit) w' =
      (Inr (let all = ts @ [t\<lparr>t_State := StateDeadLetter, t_Error := reason\<rparr>]
            in if limit > 0 then take (nat limit) all else all), w'')"
proof -
  let ?u = "t\<lparr>t_State := StateDeadLetter, t_Error := reason\<rparr>" and ?rq = "RQ (redis_client pk)"
  have u: "dlq_task t reason = ?u" "task_ok ?u"
    using assms(3,4) by (simp_all add: dlq_task_def task_ok_def times_marshalable_def)
  obtain v where v: "run_state (EnqueueDLQ ?rq Live (Some t) reason) (world_map view w) = ((None, Some ?u), v)"
    "list_at dlqKey (w_db v) = Some (map (\<lambda>t. Doc (task_json t)) (ts @ [?u]))"
    using assms(2) u task_ok_marshal [OF u(2)]
    by (simp add: EnqueueDLQ_def run_simps Let_def del: redis_step.simps(5))
  have dec: "decoded_tasks (map (\<lambda>t. Doc (task_json t)) us) = us" if "list_all task_ok us" for us
    using that by (induction us) (simp_all add: decoded_tasks_def task_json_roundtrip)
  have all: "list_all task_ok (ts @ [?u])" using assms(3) u by simp
  then have some: "list_all task_ok (take n (ts @ [?u]))" for n
    unfolding list_all_iff by (meson in_set_takeD)
  have "run_state (GetDLQTasks ?rq Live limit) v = (Inr (let all = ts @ [?u] in if limit > 0 then take (nat limit) all else all), v)"
    using v(2) dec [OF all] dec [OF some, of "nat limit"]
    by (simp add: GetDLQTasks_def run_simps lrange_take lrange_all Let_def take_map del: map_append)
  moreover from simulates_run [OF sim_queue_ops(5) [OF assms(1)] v(1)] obtain w' where
    w': "run_state (EnqueueDLQ (RQ ex) Live (Some t) reason) w = ((None, Some ?u), w')" "world_map view w' = v" by blast
  ultimately show ?thesis using simulates_run [OF sim_queue_ops(7) [OF assms(1), of Live limit], of w'] by blast
qed

theorem DLQ_roundtrip_witness:
  "\<exists>w' w''. run_state (EnqueueDLQ (RQ (redis_client first_pick)) Live (Some (sample_task ''a'' 1 3)) ''boom'') (start_world empty_db) =
      ((None, Some ((sample_task ''a'' 1 3)\<lparr>t_State := StateDeadLetter, t_Error := ''boom''\<rparr>)), w') \<and>
    run_state (GetDLQTasks (RQ (redis_client first_pick)) Live 5) w' =
      (Inr [(sample_task ''a'' 1 3)\<lparr>t_State := StateDeadLetter, t_Error := ''boom''\<rparr>], w'')"
  using DLQ_roundtrip [OF redis_server_refl, where t = "sample_task ''a'' 1 3" and ts = "[]" and reason = "''boom''"
      and limit = 5 and pk = first_pick and w = "start_world empty_db"]
  by (simp add: sample_task_ok in64_def)



end
