(* ===== verification/Spool_Storage.thy ===== *)
theory Spool_Storage
  imports Spool_Queue
begin

text \<open>
  The package \<open>internal/storage\<close>: \<open>RedisStorage\<close> of \<open>redis_store.go\<close>, which implements the
  interface \<open>Storage\<close> of \<open>storage.go\<close>. Tasks and results are documents under their
  identifier; for each state a Redis set indexes the identifiers of the tasks saved in it.
\<close>

section \<open>Definitions\<close>

definition taskStorePrefix :: string where "taskStorePrefix = ''spool:store:task:''"
definition resultStorePrefix :: string where "resultStorePrefix = ''spool:store:result:''"
definition stateIndexPrefix :: string where "stateIndexPrefix = ''spool:index:state:''"

abbreviation (input) taskTTL :: int where "taskTTL \<equiv> 7 * 24 * Hour"
abbreviation (input) resultTTL :: int where "resultTTL \<equiv> 30 * 24 * Hour"

definition storeKey :: "string \<Rightarrow> string" where "storeKey i = taskStorePrefix @ i"
definition resultKey :: "string \<Rightarrow> string" where "resultKey i = resultStorePrefix @ i"
definition stateKey :: "string \<Rightarrow> string" where "stateKey s = stateIndexPrefix @ s"

record 's RedisStorage =
  rs_client :: "'s client"

definition NewRedisStorage :: "'s client \<Rightarrow> 's RedisStorage" where
  "NewRedisStorage client = \<lparr>rs_client = client\<rparr>"

definition SaveTask :: "'s RedisStorage \<Rightarrow> ctx \<Rightarrow> task option \<Rightarrow> ('s, gerr option) io" where
  "SaveTask rs c tp =
     (case tp of
        None \<Rightarrow> ret (Some (Err ''invalid task''))
      | Some t \<Rightarrow>
        if t_ID t = [] then ret (Some (Err ''invalid task''))
        else (case marshal_task t of
          Inl e \<Rightarrow> ret (Some (Wrap ''failed to marshal task'' e))
        | Inr data \<Rightarrow> do {
            r \<leftarrow> redis_do (rs_client rs) c (SET (storeKey (t_ID t)) (Doc data) taskTTL);
            (case cmd_err r of
               Some e \<Rightarrow> ret (Some (Wrap ''failed to save task'' e))
             | None \<Rightarrow> do {
                 r \<leftarrow> redis_do (rs_client rs) c (SADD (stateKey (t_State t)) (t_ID t));
                 (case cmd_err r of
                    Some e \<Rightarrow> ret (Some (Wrap ''failed to index task state'' e))
                  | None \<Rightarrow> ret None)
               })
          }))"

definition GetTask :: "'s RedisStorage \<Rightarrow> ctx \<Rightarrow> string \<Rightarrow> ('s, gerr + task) io" where
  "GetTask rs c taskID =
     (if taskID = [] then ret (Inl (Err ''task ID cannot be empty''))
      else do {
        r \<leftarrow> redis_do (rs_client rs) c (GET (storeKey taskID));
        (case str_result r of
           Inr None \<Rightarrow> ret (Inl (Err (''task not found: '' @ taskID)))
         | Inl e \<Rightarrow> ret (Inl (Wrap ''failed to get task'' e))
         | Inr (Some data) \<Rightarrow>
           (case unmarshal_task data of
              Inl e \<Rightarrow> ret (Inl (Wrap ''failed to unmarshal task'' e))
            | Inr t \<Rightarrow> ret (Inr t)))
      })"

definition UpdateTaskState :: "'s RedisStorage \<Rightarrow> ctx \<Rightarrow> string \<Rightarrow> string \<Rightarrow> ('s, gerr option) io" where
  "UpdateTaskState rs c taskID state =
     (if taskID = [] then ret (Some (Err ''task ID cannot be empty''))
      else do {
        g \<leftarrow> GetTask rs c taskID;
        (case g of
           Inl e \<Rightarrow> ret (Some e)
         | Inr t \<Rightarrow> do {
             _ \<leftarrow> redis_do (rs_client rs) c (SREM (stateKey (t_State t)) taskID);
             SaveTask rs c (Some (t\<lparr>t_State := state\<rparr>))
           })
      })"

definition SaveResult :: "'s RedisStorage \<Rightarrow> ctx \<Rightarrow> result option \<Rightarrow> ('s, gerr option) io" where
  "SaveResult rs c rp =
     (case rp of
        None \<Rightarrow> ret (Some (Err ''invalid result''))
      | Some res \<Rightarrow>
        if r_TaskID res = [] then ret (Some (Err ''invalid result''))
        else (case marshal_result res of
          Inl e \<Rightarrow> ret (Some (Wrap ''failed to marshal result'' e))
        | Inr data \<Rightarrow> do {
            r \<leftarrow> redis_do (rs_client rs) c (SET (resultKey (r_TaskID res)) (Doc data) resultTTL);
            (case cmd_err r of
               Some e \<Rightarrow> ret (Some (Wrap ''failed to save result'' e))
             | None \<Rightarrow> ret None)
          }))"

definition GetResult :: "'s RedisStorage \<Rightarrow> ctx \<Rightarrow> string \<Rightarrow> ('s, gerr + result) io" where
  "GetResult rs c taskID =
     (if taskID = [] then ret (Inl (Err ''task ID cannot be empty''))
      else do {
        r \<leftarrow> redis_do (rs_client rs) c (GET (resultKey taskID));
        (case str_result r of
           Inr None \<Rightarrow> ret (Inl (Err (''result not found for task: '' @ taskID)))
         | Inl e \<Rightarrow> ret (Inl (Wrap ''failed to get result'' e))
         | Inr (Some data) \<Rightarrow>
           (case unmarshal_result data of
              Inl e \<Rightarrow> ret (Inl (Wrap ''failed to unmarshal result'' e))
            | Inr res \<Rightarrow> ret (Inr res)))
      })"

text \<open>The loop of \<open>GetTasksByState\<close>: identifiers that cannot be retrieved are skipped.\<close>

primrec get_tasks :: "'s RedisStorage \<Rightarrow> ctx \<Rightarrow> blob list \<Rightarrow> ('s, task list) io" where
  "get_tasks rs c [] = ret []"
| "get_tasks rs c (b # bs) =
     (case blob_text b of
        None \<Rightarrow> get_tasks rs c bs
      | Some taskID \<Rightarrow> do {
          g \<leftarrow> GetTask rs c taskID;
          ts \<leftarrow> get_tasks rs c bs;
          (case g of Inl e \<Rightarrow> ret ts | Inr t \<Rightarrow> ret (t # ts))
        })"

definition GetTasksByState :: "'s RedisStorage \<Rightarrow> ctx \<Rightarrow> string \<Rightarrow> int \<Rightarrow> ('s, gerr + task list) io" where
  "GetTasksByState rs c state limit = do {
     r \<leftarrow> (if limit > 0 then redis_do (rs_client rs) c (SRANDMEMBER (stateKey state) limit)
          else redis_do (rs_client rs) c (SMEMBERS (stateKey state)));
     (case arr_result r of
        Inl e \<Rightarrow> ret (Inl (Wrap ''failed to get task IDs'' e))
      | Inr taskIDs \<Rightarrow> do { ts \<leftarrow> get_tasks rs c taskIDs; ret (Inr ts) })
   }"

definition DeleteTask :: "'s RedisStorage \<Rightarrow> ctx \<Rightarrow> string \<Rightarrow> ('s, gerr option) io" where
  "DeleteTask rs c taskID =
     (if taskID = [] then ret (Some (Err ''task ID cannot be empty''))
      else do {
        g \<leftarrow> GetTask rs c taskID;
        (case g of
           Inl e \<Rightarrow> ret (Some e)
         | Inr t \<Rightarrow> do {
             _ \<leftarrow> redis_do (rs_client rs) c (SREM (stateKey (t_State t)) taskID);
             r \<leftarrow> redis_do (rs_client rs) c (DEL (storeKey taskID));
             (case cmd_err r of
                Some e \<Rightarrow> ret (Some (Wrap ''failed to delete task'' e))
              | None \<Rightarrow> do {
                  _ \<leftarrow> redis_do (rs_client rs) c (DEL (resultKey taskID));
                  ret None
                })
           })
      })"

text \<open>\<open>Close\<close> does nothing: the client is shared.\<close>

definition Storage_Close :: "'s RedisStorage \<Rightarrow> ('s, gerr option) io" where
  "Storage_Close rs = ret None"

subsection \<open>The stored tasks, results and indexes of a database\<close>

definition saved_task :: "db \<Rightarrow> string \<Rightarrow> task option" where
  "saved_task d i =
     (case key_get (storeKey i) d of
        Some (VStr b _) \<Rightarrow> (case unmarshal_task b of Inr t \<Rightarrow> Some t | Inl _ \<Rightarrow> None)
      | _ \<Rightarrow> None)"

definition saved_result :: "db \<Rightarrow> string \<Rightarrow> result option" where
  "saved_result d i =
     (case key_get (resultKey i) d of
        Some (VStr b _) \<Rightarrow> (case unmarshal_result b of Inr r \<Rightarrow> Some r | Inl _ \<Rightarrow> None)
      | _ \<Rightarrow> None)"

definition state_index :: "db \<Rightarrow> string \<Rightarrow> string set" where
  "state_index d s = (case set_at (stateKey s) d of None \<Rightarrow> {} | Some xs \<Rightarrow> set xs)"

text \<open>
  A store is sound when the state indexes are sets of distinct members and the task and
  result keys hold strings.
\<close>

definition store_ok :: "db \<Rightarrow> bool" where
  "store_ok d \<longleftrightarrow>
     (\<forall>s. \<exists>xs. set_at (stateKey s) d = Some xs \<and> distinct xs) \<and>
     (\<forall>i v. key_get (storeKey i) d = Some v \<longrightarrow> (\<exists>t ttl. v = VStr (Doc (task_json t)) ttl \<and> task_ok t \<and> t_ID t = i))"

abbreviation (input) RS :: "'s client \<Rightarrow> 's RedisStorage" where
  "RS ex \<equiv> \<lparr>rs_client = ex\<rparr>"

section \<open>Lemmas\<close>

lemma store_key_inject [simp]:
  "storeKey i = storeKey j \<longleftrightarrow> i = j" "resultKey i = resultKey j \<longleftrightarrow> i = j"
  "stateKey i = stateKey j \<longleftrightarrow> i = j"
  by (simp_all add: storeKey_def resultKey_def stateKey_def)

lemmas store_key_defs = storeKey_def taskStorePrefix_def resultKey_def resultStorePrefix_def
  stateKey_def stateIndexPrefix_def

lemma store_key_distinct [simp]:
  "storeKey i \<noteq> resultKey j" "resultKey j \<noteq> storeKey i"
  "storeKey i \<noteq> stateKey s" "stateKey s \<noteq> storeKey i"
  "resultKey i \<noteq> stateKey s" "stateKey s \<noteq> resultKey i"
  by (simp_all add: store_key_defs)

text \<open>The keys of the storage and of the queue are disjoint.\<close>

lemma store_queue_keys [simp]:
  "storeKey i \<noteq> taskKey j" "storeKey i \<noteq> processingKey j" "storeKey i \<noteq> statsKey s"
  "storeKey i \<noteq> dlqKey" "storeKey i \<noteq> metaKey j" "storeKey i \<noteq> qkey p"
  "resultKey i \<noteq> taskKey j" "resultKey i \<noteq> processingKey j" "resultKey i \<noteq> statsKey s"
  "resultKey i \<noteq> dlqKey" "resultKey i \<noteq> metaKey j" "resultKey i \<noteq> qkey p"
  "stateKey i \<noteq> taskKey j" "stateKey i \<noteq> processingKey j" "stateKey i \<noteq> statsKey s"
  "stateKey i \<noteq> dlqKey" "stateKey i \<noteq> metaKey j" "stateKey i \<noteq> qkey p"
  "taskKey j \<noteq> storeKey i" "processingKey j \<noteq> storeKey i" "statsKey s \<noteq> storeKey i"
  "dlqKey \<noteq> storeKey i" "metaKey j \<noteq> storeKey i" "qkey p \<noteq> storeKey i"
  "taskKey j \<noteq> resultKey i" "processingKey j \<noteq> resultKey i" "statsKey s \<noteq> resultKey i"
  "dlqKey \<noteq> resultKey i" "metaKey j \<noteq> resultKey i" "qkey p \<noteq> resultKey i"
  "taskKey j \<noteq> stateKey i" "processingKey j \<noteq> stateKey i" "statsKey s \<noteq> stateKey i"
  "dlqKey \<noteq> stateKey i" "metaKey j \<noteq> stateKey i" "qkey p \<noteq> stateKey i"
  by (simp_all add: store_key_defs key_defs)

subsection \<open>Simulation by the documented server\<close>

lemma sim_SaveTask [sim_intros]:
  assumes "redis_server ex view pk"
  shows "simulates view (SaveTask (RS ex) c tp) (SaveTask (RS (redis_client pk)) c tp)"
  unfolding SaveTask_def RedisStorage.simps by (intro sim_intros assms)

lemma sim_GetTask [sim_intros]:
  assumes "redis_server ex view pk"
  shows "simulates view (GetTask (RS ex) c i) (GetTask (RS (redis_client pk)) c i)"
  unfolding GetTask_def RedisStorage.simps by (intro sim_intros assms)

lemma sim_get_tasks [sim_intros]:
  assumes "redis_server ex view pk"
  shows "simulates view (get_tasks (RS ex) c bs) (get_tasks (RS (redis_client pk)) c bs)"
  by (induction bs) (simp_all only: get_tasks.simps RedisStorage.simps, (intro sim_intros assms; assumption)+)

lemma sim_storage_ops [sim_intros]:
  assumes "redis_server ex view pk"
  shows "simulates view (UpdateTaskState (RS ex) c i s) (UpdateTaskState (RS (redis_client pk)) c i s)"
    and "simulates view (SaveResult (RS ex) c rp) (SaveResult (RS (redis_client pk)) c rp)"
    and "simulates view (GetResult (RS ex) c i) (GetResult (RS (redis_client pk)) c i)"
    and "simulates view (GetTasksByState (RS ex) c s n) (GetTasksByState (RS (redis_client pk)) c s n)"
    and "simulates view (DeleteTask (RS ex) c i) (DeleteTask (RS (redis_client pk)) c i)"
  unfolding UpdateTaskState_def SaveResult_def GetResult_def GetTasksByState_def DeleteTask_def RedisStorage.simps
  by (intro sim_intros assms)+

subsection \<open>Saving and reading\<close>

definition save_task_db :: "task \<Rightarrow> string list \<Rightarrow> db \<Rightarrow> db" where
  "save_task_db t xs d =
     (let d1 = key_put (storeKey (t_ID t)) (VStr (Doc (task_json t)) taskTTL) d
      in if t_ID t \<in> set xs then d1 else put_set (stateKey (t_State t)) (xs @ [t_ID t]) d1)"

lemma run_SaveTask:
  assumes "task_ok t" and "t_ID t \<noteq> []" and "set_at (stateKey (t_State t)) (w_db w) = Some xs"
  shows "run_state (SaveTask (RS (redis_client pk)) Live (Some t)) w =
     (None, w\<lparr>w_db := save_task_db t xs (w_db w)\<rparr>)"
  using assms by (simp add: SaveTask_def task_ok_marshal run_simps save_task_db_def Let_def)

lemma only_changes_save_task:
  "only_changes {storeKey (t_ID t), stateKey (t_State t)} d (save_task_db t xs d)"
  by (simp add: only_changes_def save_task_db_def Let_def)

lemma key_get_save_task [simp]:
  "key_get (storeKey (t_ID t)) (save_task_db t xs d) = Some (VStr (Doc (task_json t)) taskTTL)"
  by (simp add: save_task_db_def Let_def)

lemma saved_task_save:
  assumes "task_ok t"
  shows "saved_task (save_task_db t xs d) i = (if i = t_ID t then Some t else saved_task d i)"
proof (cases "i = t_ID t")
  case True
  with assms show ?thesis by (simp add: saved_task_def task_json_roundtrip)
next
  case False
  then have "key_get (storeKey i) (save_task_db t xs d) = key_get (storeKey i) d"
    by (intro only_changes_key_get [OF only_changes_save_task]) simp
  with False show ?thesis by (simp add: saved_task_def)
qed

lemma state_index_save:
  assumes "set_at (stateKey (t_State t)) d = Some xs"
  shows "state_index (save_task_db t xs d) s =
    (if s = t_State t then insert (t_ID t) (state_index d s) else state_index d s)"
  using assms by (auto simp: state_index_def save_task_db_def Let_def)

lemma store_ok_index: "store_ok d \<Longrightarrow> \<exists>xs. set_at (stateKey s) d = Some xs \<and> distinct xs"
  by (simp add: store_ok_def)

lemma store_ok_save:
  assumes ok: "store_ok d" and t: "task_ok t" and xs: "set_at (stateKey (t_State t)) d = Some xs"
  shows "store_ok (save_task_db t xs d)"
proof -
  have "\<exists>ys. set_at (stateKey s) (save_task_db t xs d) = Some ys \<and> distinct ys" for s
    using store_ok_index [OF ok, of s] xs by (auto simp: save_task_db_def Let_def)
  moreover have "\<exists>u ttl. v = VStr (Doc (task_json u)) ttl \<and> task_ok u \<and> t_ID u = i"
    if "key_get (storeKey i) (save_task_db t xs d) = Some v" for i v
    using that ok t by (cases "i = t_ID t") (auto simp: save_task_db_def Let_def store_ok_def split: if_splits)
  ultimately show ?thesis by (auto simp: store_ok_def)
qed

lemma run_GetTask:
  assumes "saved_task (w_db w) i = Some t" and "i \<noteq> []"
  shows "run_state (GetTask (RS (redis_client pk)) Live i) w = (Inr t, w)"
  using assms by (auto simp: GetTask_def run_simps saved_task_def split: option.splits rval.splits sum.splits)

lemma store_ok_saved:
  "store_ok d \<Longrightarrow> key_get (storeKey i) d \<noteq> None \<Longrightarrow> \<exists>t. saved_task d i = Some t \<and> task_ok t \<and> t_ID t = i"
  by (fastforce simp: store_ok_def saved_task_def task_json_roundtrip)

lemma run_GetTask_missing:
  assumes "store_ok (w_db w)" and "saved_task (w_db w) i = None" and "i \<noteq> []"
  shows "run_state (GetTask (RS (redis_client pk)) Live i) w = (Inl (Err (''task not found: '' @ i)), w)"
proof -
  have "key_get (storeKey i) (w_db w) = None"
    using store_ok_saved [OF assms(1), of i] assms(2) by (metis option.distinct(1))
  with assms(3) show ?thesis by (simp add: GetTask_def run_simps)
qed

subsection \<open>The storage interface\<close>

text \<open>
  What a client of the interface \<open>Storage\<close> may rely on for tasks, and what follows for a
  sequence of saves: the last one of each identifier is what a reader gets.
\<close>

locale task_store =
  fixes save :: "task \<Rightarrow> 'w \<Rightarrow> 'w" and get :: "string \<Rightarrow> 'w \<Rightarrow> task option" and ok :: "'w \<Rightarrow> bool"
  assumes save_ok: "ok w \<Longrightarrow> task_ok t \<Longrightarrow> t_ID t \<noteq> [] \<Longrightarrow> ok (save t w)"
    and get_save: "ok w \<Longrightarrow> task_ok t \<Longrightarrow> t_ID t \<noteq> [] \<Longrightarrow> i \<noteq> [] \<Longrightarrow>
      get i (save t w) = (if i = t_ID t then Some t else get i w)"
begin

lemma saves_ok: "ok w \<Longrightarrow> list_all (\<lambda>t. task_ok t \<and> t_ID t \<noteq> []) ts \<Longrightarrow> ok (fold save ts w)"
  by (induction ts arbitrary: w) (simp_all add: save_ok)

lemma last_save_wins:
  assumes "ok w" and "list_all (\<lambda>t. task_ok t \<and> t_ID t \<noteq> []) ts" and "i \<noteq> []"
  shows "get i (fold save ts w) = (case find (\<lambda>t. t_ID t = i) (rev ts) of None \<Rightarrow> get i w | Some t \<Rightarrow> Some t)"
  using assms(2)
proof (induction ts rule: rev_induct)
  case Nil
  then show ?case by simp
next
  case (snoc t ts)
  from snoc.prems have "ok (fold save ts w)" using saves_ok assms(1) by simp
  with snoc assms(3) show ?case by (simp add: get_save)
qed

end

definition store_save :: "'s client \<Rightarrow> task \<Rightarrow> 's world \<Rightarrow> 's world" where
  "store_save ex t w = snd (run_state (SaveTask (RS ex) Live (Some t)) w)"

definition store_get :: "'s client \<Rightarrow> string \<Rightarrow> 's world \<Rightarrow> task option" where
  "store_get ex i w = (case fst (run_state (GetTask (RS ex) Live i) w) of Inl _ \<Rightarrow> None | Inr t \<Rightarrow> Some t)"

lemma run_SaveTask_ok:
  assumes "store_ok (w_db w)" and "task_ok t" and "t_ID t \<noteq> []"
  obtains xs where "set_at (stateKey (t_State t)) (w_db w) = Some xs" "distinct xs"
    "run_state (SaveTask (RS (redis_client pk)) Live (Some t)) w = (None, w\<lparr>w_db := save_task_db t xs (w_db w)\<rparr>)"
  using store_ok_index [OF assms(1), of "t_State t"] run_SaveTask [OF assms(2,3)] by blast

lemma store_get_saved:
  assumes "store_ok (w_db w)" and "i \<noteq> []"
  shows "store_get (redis_client pk) i w = saved_task (w_db w) i"
  using run_GetTask [of w i _ pk] run_GetTask_missing [OF assms(1) _ assms(2), of pk] assms(2)
  by (cases "saved_task (w_db w) i") (simp_all add: store_get_def)

interpretation rs: task_store "store_save (redis_client pk)" "store_get (redis_client pk)" "\<lambda>w. store_ok (w_db w)" for pk
proof
  fix w :: "db world" and t
  assume ok: "store_ok (w_db w)" "task_ok t" "t_ID t \<noteq> []"
  then obtain xs where xs: "set_at (stateKey (t_State t)) (w_db w) = Some xs"
    and w': "store_save (redis_client pk) t w = w\<lparr>w_db := save_task_db t xs (w_db w)\<rparr>"
    by (rule run_SaveTask_ok [of w t pk]) (simp add: store_save_def)
  show ok': "store_ok (w_db (store_save (redis_client pk) t w))"
    using store_ok_save [OF ok(1,2) xs] by (simp add: w')
  show "store_get (redis_client pk) i (store_save (redis_client pk) t w) = (if i = t_ID t then Some t else store_get (redis_client pk) i w)"
    if "i \<noteq> []" for i
    using that ok' ok by (simp add: store_get_saved w' saved_task_save)
qed

lemma sim_store:
  assumes "redis_server ex view pk"
  shows "world_map view (store_save ex t w) = store_save (redis_client pk) t (world_map view w)"
    and "store_get ex i w = store_get (redis_client pk) i (world_map view w)"
  using simulatesD [OF sim_SaveTask [OF assms], of Live "Some t" w] simulatesD [OF sim_GetTask [OF assms], of Live i w]
  by (simp_all add: store_save_def store_get_def)

lemma storage_implements:
  fixes ex :: "'s client"
  assumes "redis_server ex view pk"
  shows "task_store (store_save ex) (store_get ex) (\<lambda>w :: 's world. store_ok (view (w_db w)))"
proof
  fix w :: "'s world" and t
  assume ok: "store_ok (view (w_db w))" "task_ok t" "t_ID t \<noteq> []"
  with rs.save_ok [of "world_map view w" t pk] show "store_ok (view (w_db (store_save ex t w)))"
    by (simp flip: sim_store(1) [OF assms])
  show "store_get ex i (store_save ex t w) = (if i = t_ID t then Some t else store_get ex i w)" if "i \<noteq> []" for i
    using rs.get_save [of "world_map view w" t i pk] ok that
    by (simp add: sim_store(2) [OF assms, of i] sim_store(1) [OF assms])
qed

subsection \<open>Changing the state and deleting\<close>

definition drop_index_db :: "string \<Rightarrow> string \<Rightarrow> db \<Rightarrow> db" where
  "drop_index_db s i d = snd (redis_step first_pick (SREM (stateKey s) i) d)"

lemma run_SREM:
  "run_state (redis_do (redis_client pk) Live (SREM (stateKey s) i)) w =
    (fst (redis_step pk (SREM (stateKey s) i) (w_db w)), w\<lparr>w_db := drop_index_db s i (w_db w)\<rparr>)"
  by (simp add: run_simps drop_index_db_def split: option.split)

lemma only_changes_drop: "only_changes {stateKey s} d (drop_index_db s i d)"
  by (auto simp: only_changes_def drop_index_db_def split: option.split)

lemma saved_task_drop [simp]: "saved_task (drop_index_db s i d) = saved_task d"
  using only_changes_key_get [OF only_changes_drop] by (simp add: saved_task_def fun_eq_iff)

lemma state_index_drop:
  assumes "set_at (stateKey s) d = Some xs"
  shows "state_index (drop_index_db s i d) u = (if u = s then state_index d s - {i} else state_index d u)"
  using assms by (auto simp: state_index_def drop_index_db_def)

lemma store_ok_drop:
  assumes "store_ok d"
  shows "store_ok (drop_index_db s i d)"
proof -
  have "\<exists>xs. set_at (stateKey u) (drop_index_db s i d) = Some xs \<and> distinct xs" for u
    using store_ok_index [OF assms, of s] store_ok_index [OF assms, of u] by (auto simp: drop_index_db_def)
  moreover have "key_get (storeKey j) (drop_index_db s i d) = key_get (storeKey j) d" for j
    by (rule only_changes_key_get [OF only_changes_drop]) simp
  ultimately show ?thesis using assms by (simp add: store_ok_def)
qed

lemma run_UpdateTaskState:
  assumes ok: "store_ok (w_db w)" and t: "saved_task (w_db w) i = Some t" "task_ok t" "t_ID t = i" "i \<noteq> []"
  shows "\<exists>d. run_state (UpdateTaskState (RS (redis_client pk)) Live i s) w = (None, w\<lparr>w_db := d\<rparr>) \<and> store_ok d \<and>
    saved_task d i = Some (t\<lparr>t_State := s\<rparr>) \<and>
    (\<forall>u. state_index d u = (if u = s then insert i (state_index (w_db w) u)
       else if u = t_State t then state_index (w_db w) u - {i} else state_index (w_db w) u))"
proof -
  let ?d1 = "drop_index_db (t_State t) i (w_db w)" and ?t = "t\<lparr>t_State := s\<rparr>"
  have t': "task_ok ?t" "t_ID ?t = i" "t_ID ?t \<noteq> []" using t by (simp_all add: task_ok_def times_marshalable_def)
  have ok1: "store_ok (w_db (w\<lparr>w_db := ?d1\<rparr>))" by (simp add: store_ok_drop [OF ok])
  obtain xs where xs: "set_at (stateKey (t_State ?t)) (w_db (w\<lparr>w_db := ?d1\<rparr>)) = Some xs"
    and run: "run_state (SaveTask (RS (redis_client pk)) Live (Some ?t)) (w\<lparr>w_db := ?d1\<rparr>) =
      (None, w\<lparr>w_db := save_task_db ?t xs ?d1\<rparr>)"
    by (rule run_SaveTask_ok [OF ok1 t'(1,3), of pk]) simp
  have "run_state (UpdateTaskState (RS (redis_client pk)) Live i s) w = (None, w\<lparr>w_db := save_task_db ?t xs ?d1\<rparr>)"
    using run t run_GetTask [OF t(1,4), of pk] by (simp add: UpdateTaskState_def run_SREM)
  moreover obtain ys where ys: "set_at (stateKey (t_State t)) (w_db w) = Some ys" using store_ok_index [OF ok] by blast
  have "state_index (save_task_db ?t xs ?d1) u = (if u = s then insert i (state_index (w_db w) u)
       else if u = t_State t then state_index (w_db w) u - {i} else state_index (w_db w) u)" for u
    using state_index_save [of ?t ?d1 xs u] xs t(3) state_index_drop [OF ys] by auto
  moreover have "store_ok (save_task_db ?t xs ?d1)" "saved_task (save_task_db ?t xs ?d1) i = Some ?t"
    using store_ok_save [of ?d1 ?t xs] store_ok_drop [OF ok] t' xs saved_task_save [OF t'(1)] by simp_all
  ultimately show ?thesis by blast
qed

lemma run_get_tasks:
  assumes "store_ok (w_db w)" and "[] \<notin> set xs"
  shows "run_state (get_tasks (RS (redis_client pk)) Live (map Text xs)) w = (List.map_filter (saved_task (w_db w)) xs, w)"
  using assms(2)
proof (induction xs)
  case Nil
  then show ?case by (simp add: map_filter_simps)
next
  case (Cons x xs)
  then have "x \<noteq> []" and "[] \<notin> set xs" by auto
  with Cons.IH run_GetTask [of w x _ pk] run_GetTask_missing [OF assms(1), of x pk] show ?case
    by (cases "saved_task (w_db w) x") (simp_all add: map_filter_simps)
qed

lemma map_filter_IDs:
  assumes "store_ok d"
  shows "map t_ID (List.map_filter (saved_task d) xs) = filter (\<lambda>i. saved_task d i \<noteq> None) xs"
    and "list_all (\<lambda>t. saved_task d (t_ID t) = Some t) (List.map_filter (saved_task d) xs)"
proof -
  have id: "t_ID t = i" if "saved_task d i = Some t" for i t
  proof -
    from that have "key_get (storeKey i) d \<noteq> None" by (auto simp: saved_task_def split: option.splits)
    from store_ok_saved [OF assms this] that show ?thesis by auto
  qed
  show "map t_ID (List.map_filter (saved_task d) xs) = filter (\<lambda>i. saved_task d i \<noteq> None) xs"
    by (induction xs) (auto simp: map_filter_simps id split: option.splits)
  show "list_all (\<lambda>t. saved_task d (t_ID t) = Some t) (List.map_filter (saved_task d) xs)"
    by (induction xs) (auto simp: map_filter_simps id split: option.splits)
qed

lemma run_GetTasksByState:
  assumes "store_ok (w_db w)" and "picker_ok pk" and "[] \<notin> state_index (w_db w) s"
  shows "\<exists>xs w'. run_state (GetTasksByState (RS (redis_client pk)) Live s limit) w =
      (Inr (List.map_filter (saved_task (w_db w)) xs), w') \<and> distinct xs \<and> set xs \<subseteq> state_index (w_db w) s \<and>
    (if limit > 0 then int (length xs) \<le> limit else set xs = state_index (w_db w) s)"
proof -
  obtain ys where ys: "set_at (stateKey s) (w_db w) = Some ys" "distinct ys" using store_ok_index [OF assms(1)] by blast
  then have idx: "state_index (w_db w) s = set ys" by (simp add: state_index_def)
  show ?thesis
  proof (cases "limit > 0")
    case True
    let ?xs = "pk (draws (w_db w)) limit ys" and ?w = "w\<lparr>w_db := (w_db w)\<lparr>draws := Suc (draws (w_db w))\<rparr>\<rparr>"
    from assms(2) ys True have xs: "distinct ?xs" "set ?xs \<subseteq> set ys" "length ?xs \<le> nat limit"
      by (simp_all add: picker_ok_def)
    have ok: "store_ok (w_db ?w)" using assms(1) by (simp add: store_ok_def set_at_def)
    have "saved_task (w_db ?w) = saved_task (w_db w)" by (simp add: saved_task_def fun_eq_iff)
    moreover have "[] \<notin> set ?xs" using xs(2) idx assms(3) by auto
    ultimately have "run_state (GetTasksByState (RS (redis_client pk)) Live s limit) w =
        (Inr (List.map_filter (saved_task (w_db w)) ?xs), ?w)"
      using run_get_tasks [OF ok, of ?xs pk] True ys(1) by (simp add: GetTasksByState_def run_simps)
    then show ?thesis using xs idx True by (intro exI [of _ ?xs] exI [of _ ?w]) (simp add: le_nat_iff)
  next
    case False
    with run_get_tasks [OF assms(1), of ys pk] idx assms(3) ys
    show ?thesis by (intro exI [of _ ys] exI [of _ w]) (simp add: GetTasksByState_def run_simps)
  qed
qed

lemma run_DeleteTask:
  assumes ok: "store_ok (w_db w)" and t: "saved_task (w_db w) i = Some t" "i \<noteq> []"
  shows "\<exists>d. run_state (DeleteTask (RS (redis_client pk)) Live i) w = (None, w\<lparr>w_db := d\<rparr>) \<and>
    saved_task d i = None \<and> saved_result d i = None \<and> i \<notin> state_index d (t_State t) \<and>
    (\<forall>j. j \<noteq> i \<longrightarrow> saved_task d j = saved_task (w_db w) j \<and> saved_result d j = saved_result (w_db w) j)"
proof -
  let ?d1 = "drop_index_db (t_State t) i (w_db w)"
  let ?d = "key_del (resultKey i) (key_del (storeKey i) ?d1)"
  obtain ys where ys: "set_at (stateKey (t_State t)) (w_db w) = Some ys" using store_ok_index [OF ok] by blast
  have "run_state (DeleteTask (RS (redis_client pk)) Live i) w = (None, w\<lparr>w_db := ?d\<rparr>)"
    using t run_GetTask [OF t, of pk] by (simp add: DeleteTask_def run_SREM) (simp add: run_simps)
  moreover have "saved_task ?d i = None" "saved_result ?d i = None" by (simp_all add: saved_task_def saved_result_def)
  moreover have "i \<notin> state_index ?d (t_State t)"
    using state_index_drop [OF ys, of i "t_State t"] by (simp add: state_index_def)
  moreover have keys: "key_get k ?d1 = key_get k (w_db w)" if "k \<noteq> stateKey (t_State t)" for k
    by (rule only_changes_key_get [OF only_changes_drop]) (use that in simp)
  then have "saved_task ?d j = saved_task (w_db w) j \<and> saved_result ?d j = saved_result (w_db w) j" if "j \<noteq> i" for j
    using that by (simp add: saved_task_def saved_result_def)
  ultimately show ?thesis by blast
qed

lemma store_ok_empty [simp]: "store_ok empty_db" "saved_task empty_db i = None" "state_index empty_db s = {}"
  by (simp_all add: store_ok_def saved_task_def state_index_def)

text \<open>What the store holds is read off the keys.\<close>

lemma store_same_keys:
  assumes "keyspace d' = keyspace d"
  shows "saved_task d' = saved_task d" "state_index d' = state_index d" "store_ok d' = store_ok d"
proof -
  from assms have "key_get k d' = key_get k d" for k by (simp add: key_get_def)
  then show "saved_task d' = saved_task d" "state_index d' = state_index d" "store_ok d' = store_ok d"
    by (auto simp: fun_eq_iff saved_task_def state_index_def store_ok_def set_at_def split: option.splits)
qed

lemma GetTasksByState_lists:
  assumes "redis_server ex view pk" and "picker_ok pk" and "store_ok (view (w_db w))" and "[] \<notin> state_index (view (w_db w)) s"
  shows "\<exists>ts w'. run_state (GetTasksByState (RS ex) Live s limit) w = (Inr ts, w') \<and> distinct (map t_ID ts) \<and>
    (\<forall>t \<in> set ts. t_ID t \<in> state_index (view (w_db w)) s \<and> saved_task (view (w_db w)) (t_ID t) = Some t) \<and>
    (if limit > 0 then int (length ts) \<le> limit
     else t_ID ` set ts = {i \<in> state_index (view (w_db w)) s. saved_task (view (w_db w)) i \<noteq> None})"
proof -
  let ?d = "view (w_db w)"
  from run_GetTasksByState [of "world_map view w" pk s limit] assms obtain xs v where
    run: "run_state (GetTasksByState (RS (redis_client pk)) Live s limit) (world_map view w) =
      (Inr (List.map_filter (saved_task ?d) xs), v)"
    and xs: "distinct xs" "set xs \<subseteq> state_index ?d s"
      "if limit > 0 then int (length xs) \<le> limit else set xs = state_index ?d s"
    by auto
  let ?ts = "List.map_filter (saved_task ?d) xs"
  note ids = map_filter_IDs [OF assms(3), of xs]
  from arg_cong [OF ids(1), of set] arg_cong [OF ids(1), of length] arg_cong [OF ids(1), of distinct]
  have ts: "t_ID ` set ?ts = {i \<in> set xs. saved_task ?d i \<noteq> None}" "distinct (map t_ID ?ts)"
      "length ?ts \<le> length xs"
    using xs(1) by (auto simp del: not_None_eq)
  moreover from ts(1) xs(2) have "t_ID t \<in> state_index ?d s" if "t \<in> set ?ts" for t using that by blast
  ultimately show ?thesis
    using simulates_run [OF sim_storage_ops(4) [OF assms(1)] run] ids(2) xs(3) unfolding list_all_iff by force
qed

section \<open>Properties\<close>

text \<open>C22: After any sequence of \<open>SaveTask\<close> calls, \<open>GetTask\<close> returns for each identifier the task of
  its last save, and what was there before if there was none.\<close>

theorem last_saved_task_is_read:
  assumes "redis_server ex view pk" and "store_ok (view (w_db w))" and "list_all (\<lambda>t. task_ok t \<and> t_ID t \<noteq> []) ts" and "i \<noteq> []"
  shows "store_get ex i (fold (store_save ex) ts w) =
    (case find (\<lambda>t. t_ID t = i) (rev ts) of None \<Rightarrow> store_get ex i w | Some t \<Rightarrow> Some t)"
  by (rule task_store.last_save_wins [OF storage_implements [OF assms(1)]]) (use assms in auto)

theorem last_saved_task_is_read_witness:
  "store_get (redis_client first_pick) ''a''
     (fold (store_save (redis_client first_pick)) [sample_task ''a'' 1 3, sample_task ''b'' 1 3, sample_task ''a'' 2 3]
       (start_world empty_db)) = Some (sample_task ''a'' 2 3)"
  using last_saved_task_is_read [OF redis_server_refl, where w = "start_world empty_db" and i = "''a''" and pk = first_pick
      and ts = "[sample_task ''a'' 1 3, sample_task ''b'' 1 3, sample_task ''a'' 2 3]"]
  by (simp add: sample_task_ok in64_def)

text \<open>\<open>UpdateTaskState\<close> stores the task in its new state and moves its identifier from the index
  of the old state to that of the new one.\<close>

theorem UpdateTaskState_moves:
  assumes "redis_server ex view pk" and "store_ok (view (w_db w))" and "saved_task (view (w_db w)) i = Some t"
    and "i \<noteq> []" and "s \<noteq> t_State t"
  shows "\<exists>w'. run_state (UpdateTaskState (RS ex) Live i s) w = (None, w') \<and> store_ok (view (w_db w')) \<and>
    saved_task (view (w_db w')) i = Some (t\<lparr>t_State := s\<rparr>) \<and>
    i \<in> state_index (view (w_db w')) s \<and> i \<notin> state_index (view (w_db w')) (t_State t)"
proof -
  have "key_get (storeKey i) (view (w_db w)) \<noteq> None" using assms(3) by (auto simp: saved_task_def split: option.splits)
  from store_ok_saved [OF assms(2) this] assms(3) have "task_ok t" "t_ID t = i" by simp_all
  with run_UpdateTaskState [of "world_map view w" i t pk s] assms obtain d where
    "run_state (UpdateTaskState (RS (redis_client pk)) Live i s) (world_map view w) = (None, (world_map view w)\<lparr>w_db := d\<rparr>)"
    and d: "store_ok d" "saved_task d i = Some (t\<lparr>t_State := s\<rparr>)" "i \<in> state_index d s" "i \<notin> state_index d (t_State t)"
    by auto
  with simulates_run [OF sim_storage_ops(1) [OF assms(1)]] show ?thesis by (fastforce simp: world_map_def)
qed

theorem UpdateTaskState_moves_witness:
  "let d = save_task_db (sample_task ''a'' 1 3) [] empty_db in
   \<exists>w'. run_state (UpdateTaskState (RS (redis_client first_pick)) Live ''a'' ''completed'') (start_world d) = (None, w') \<and>
     saved_task (w_db w') ''a'' = Some ((sample_task ''a'' 1 3)\<lparr>t_State := ''completed''\<rparr>) \<and>
     ''a'' \<in> state_index (w_db w') ''completed'' \<and> ''a'' \<notin> state_index (w_db w') ''pending''"
  using UpdateTaskState_moves [OF redis_server_refl, where w = "start_world (save_task_db (sample_task ''a'' 1 3) [] empty_db)"
      and i = "''a''" and t = "sample_task ''a'' 1 3" and s = "''completed''" and pk = first_pick]
  by (auto simp: saved_task_save store_ok_save sample_task_ok in64_def)

text \<open>\<open>GetTasksByState\<close> returns distinct stored tasks whose identifiers are in the index of the
  state, at most \<open>limit\<close> of them when the limit is positive, and otherwise all that are stored.\<close>

theorem GetTasksByState_sound:
  assumes "redis_server ex view pk" and "picker_ok pk" and "store_ok (view (w_db w))" and "[] \<notin> state_index (view (w_db w)) s"
  shows "\<exists>ts w'. run_state (GetTasksByState (RS ex) Live s limit) w = (Inr ts, w') \<and> distinct (map t_ID ts) \<and>
    (\<forall>t \<in> set ts. t_ID t \<in> state_index (view (w_db w)) s \<and> saved_task (view (w_db w)) (t_ID t) = Some t) \<and>
    (if limit > 0 then int (length ts) \<le> limit
     else t_ID ` set ts = {i \<in> state_index (view (w_db w)) s. saved_task (view (w_db w)) i \<noteq> None})"
  by (rule GetTasksByState_lists [OF assms])

theorem GetTasksByState_sound_witness:
  "let d = save_task_db (sample_task ''a'' 1 3) [] empty_db in
   \<exists>ts w'. run_state (GetTasksByState (RS (redis_client first_pick)) Live ''pending'' 0) (start_world d) = (Inr ts, w') \<and>
     distinct (map t_ID ts) \<and> t_ID ` set ts = {''a''}"
proof -
  let ?t = "sample_task ''a'' 1 3" and ?d = "save_task_db (sample_task ''a'' 1 3) [] empty_db"
  have ok: "task_ok ?t" by (simp add: sample_task_ok in64_def)
  have d: "store_ok ?d" "state_index ?d ''pending'' = {''a''}" "saved_task ?d ''a'' = Some ?t"
    using ok by (simp_all add: store_ok_save state_index_save saved_task_save)
  have "{i \<in> {''a''}. saved_task ?d i \<noteq> None} = {''a''}" using d(3) by auto
  with GetTasksByState_sound [OF redis_server_refl first_pick_ok, where w = "start_world ?d" and s = "''pending''" and limit = 0] d
  obtain ts w' where "run_state (GetTasksByState (RS (redis_client first_pick)) Live ''pending'' 0) (start_world ?d) = (Inr ts, w')"
    "distinct (map t_ID ts)" "t_ID ` set ts = {''a''}"
    unfolding id_apply start_world_simps by force
  then show ?thesis unfolding Let_def by blast
qed

text \<open>C34: \<open>SaveTask\<close> never removes an identifier from the index of an earlier state: after a save in
  a new state, the query for the old state still lists the task, which is in the new state.\<close>

theorem SaveTask_leaves_stale_index:
  assumes "redis_server ex view pk" and "picker_ok pk" and "store_ok (view (w_db w))" and "task_ok t" and "t_ID t \<noteq> []"
    and "t_ID t \<in> state_index (view (w_db w)) old" and "t_State t \<noteq> old" and "[] \<notin> state_index (view (w_db w)) old"
  shows "\<exists>w' ts w''. run_state (SaveTask (RS ex) Live (Some t)) w = (None, w') \<and>
    run_state (GetTasksByState (RS ex) Live old 0) w' = (Inr ts, w'') \<and> t \<in> set ts"
proof -
  let ?v = "world_map view w"
  obtain xs where xs: "set_at (stateKey (t_State t)) (view (w_db w)) = Some xs"
    and "run_state (SaveTask (RS (redis_client pk)) Live (Some t)) ?v = (None, ?v\<lparr>w_db := save_task_db t xs (view (w_db w))\<rparr>)"
    by (rule run_SaveTask_ok [of ?v t pk]) (use assms in simp_all)
  from simulates_run [OF sim_SaveTask [OF assms(1)] this(2)] obtain w' where
    w': "run_state (SaveTask (RS ex) Live (Some t)) w = (None, w')" "view (w_db w') = save_task_db t xs (view (w_db w))"
    by (auto simp: world_map_def)
  have d: "store_ok (view (w_db w'))" "state_index (view (w_db w')) old = state_index (view (w_db w)) old"
    "saved_task (view (w_db w')) (t_ID t) = Some t"
    using assms store_ok_save [OF assms(3,4) xs] state_index_save [OF xs] saved_task_save [OF assms(4)] by (simp_all add: w')
  then have "[] \<notin> state_index (view (w_db w')) old" using assms(8) by simp
  from run_GetTasksByState [OF _ assms(2), of "world_map view w'" old 0] d this obtain ys v where
    run: "run_state (GetTasksByState (RS (redis_client pk)) Live old 0) (world_map view w') =
      (Inr (List.map_filter (saved_task (view (w_db w'))) ys), v)" and ys: "set ys = state_index (view (w_db w')) old"
    by auto
  have "t_ID t \<in> set ys" using assms(6) d ys by simp
  then have "t \<in> set (List.map_filter (saved_task (view (w_db w'))) ys)"
    using d(3) by (force simp: List.map_filter_def)
  with simulates_run [OF sim_storage_ops(4) [OF assms(1)] run] w' show ?thesis by blast
qed

theorem SaveTask_leaves_stale_index_witness:
  "let d = save_task_db (sample_task ''a'' 1 3) [] empty_db; t = (sample_task ''a'' 1 3)\<lparr>t_State := ''completed''\<rparr> in
   \<exists>w' ts w''. run_state (SaveTask (RS (redis_client first_pick)) Live (Some t)) (start_world d) = (None, w') \<and>
     run_state (GetTasksByState (RS (redis_client first_pick)) Live ''pending'' 0) w' = (Inr ts, w'') \<and> t \<in> set ts"
proof -
  let ?t = "sample_task ''a'' 1 3" and ?d = "save_task_db (sample_task ''a'' 1 3) [] empty_db"
  have ok: "task_ok ?t" by (simp add: sample_task_ok in64_def)
  then have ok': "task_ok (?t\<lparr>t_State := ''completed''\<rparr>)" by (simp add: task_ok_def times_marshalable_def)
  have d: "store_ok ?d" "state_index ?d ''pending'' = {''a''}"
    using ok by (simp_all add: store_ok_save state_index_save)
  show ?thesis
    using SaveTask_leaves_stale_index [OF redis_server_refl first_pick_ok _ ok', where w = "start_world ?d" and old = "''pending''"] d
    by simp
qed

text \<open>\<open>DeleteTask\<close> removes the task, its result and its entry in the index of its state, and no
  other task or result.\<close>

theorem DeleteTask_removes:
  assumes "redis_server ex view pk" and "store_ok (view (w_db w))" and "saved_task (view (w_db w)) i = Some t" and "i \<noteq> []"
  shows "\<exists>w'. run_state (DeleteTask (RS ex) Live i) w = (None, w') \<and> saved_task (view (w_db w')) i = None \<and>
    saved_result (view (w_db w')) i = None \<and> i \<notin> state_index (view (w_db w')) (t_State t) \<and>
    (\<forall>j. j \<noteq> i \<longrightarrow> saved_task (view (w_db w')) j = saved_task (view (w_db w)) j \<and>
       saved_result (view (w_db w')) j = saved_result (view (w_db w)) j)"
proof -
  from run_DeleteTask [of "world_map view w" i t pk] assms obtain d where
    "run_state (DeleteTask (RS (redis_client pk)) Live i) (world_map view w) = (None, (world_map view w)\<lparr>w_db := d\<rparr>)"
    and d: "saved_task d i = None" "saved_result d i = None" "i \<notin> state_index d (t_State t)"
      "\<forall>j. j \<noteq> i \<longrightarrow> saved_task d j = saved_task (view (w_db w)) j \<and> saved_result d j = saved_result (view (w_db w)) j"
    by auto
  from simulates_run [OF sim_storage_ops(5) [OF assms(1)] this(1)] obtain w' where
    "run_state (DeleteTask (RS ex) Live i) w = (None, w')" "view (w_db w') = d"
    by (auto simp: world_map_def)
  with d show ?thesis by blast
qed

theorem DeleteTask_removes_witness:
  "let d = save_task_db (sample_task ''a'' 1 3) [] empty_db in
   \<exists>w'. run_state (DeleteTask (RS (redis_client first_pick)) Live ''a'') (start_world d) = (None, w') \<and>
     saved_task (w_db w') ''a'' = None \<and> ''a'' \<notin> state_index (w_db w') ''pending''"
  using DeleteTask_removes [OF redis_server_refl, where w = "start_world (save_task_db (sample_task ''a'' 1 3) [] empty_db)"
      and i = "''a''" and t = "sample_task ''a'' 1 3" and pk = first_pick]
  by (auto simp: saved_task_save store_ok_save sample_task_ok in64_def)

end
