(* ===== verification/Spool_Worker.thy ===== *)
theory Spool_Worker
  imports Spool_Registry Spool_Storage "HOL-Library.Multiset"
begin

text \<open>
  \<open>internal/worker/worker.go\<close>: a worker polls the queue, runs the task through the registry,
  stores state and result, and acknowledges, retries or dead-letters the task. The log
  output is not modelled; the poll loop and the start/stop protocol are in the theory of the
  worker's life cycle. The context the worker was given may be cancelled while the handler
  runs: the operations before the handler use the context \<open>c\<close>, those after it
  \<open>w_parent\<close>.
\<close>

section \<open>Definitions\<close>

text \<open>The fields of \<open>Worker\<close> that do not change, and the counters.\<close>

record 's Worker =
  wk_id :: string
  wk_queue :: "'s RedisQueue"
  wk_storage :: "'s RedisStorage option" \<comment> \<open>may be nil\<close>
  wk_registry :: Registry
  wk_pollFreq :: int

record worker_stats =
  tasksProcessed :: int
  tasksFailed :: int
  tasksRetried :: int

definition NewWorker ::
  "'s RedisQueue \<Rightarrow> 's RedisStorage option \<Rightarrow> Registry \<Rightarrow> string \<Rightarrow> int \<Rightarrow> ('s, 's Worker \<times> worker_stats) io" where
  "NewWorker q st reg cfgID cfgPollInterval = do {
     let poll = (if cfgPollInterval = 0 then 100 * Millisecond else cfgPollInterval);
     i \<leftarrow> (if cfgID = [] then do { now \<leftarrow> time_Now; ret (''worker-'' @ show_int (wrap64 now)) } else ret cfgID);
     ret (\<lparr>wk_id = i, wk_queue = q, wk_storage = st, wk_registry = reg, wk_pollFreq = poll\<rparr>,
          \<lparr>tasksProcessed = 0, tasksFailed = 0, tasksRetried = 0\<rparr>)
   }"

text \<open>The state of the worker's context, and of the task's deadline, after the handler's run.\<close>

definition parent_ctx :: "('s, ctx) io" where
  "parent_ctx = State (\<lambda>w. (w_parent w (length (w_runs w)), w))"

definition deadline_passed :: "('s, bool) io" where
  "deadline_passed = State (\<lambda>w. (w_expired w (length (w_runs w)), w))"

text \<open>\<open>if w.storage != nil\<close>: the error of the call is only logged.\<close>

definition save_state :: "'s Worker \<Rightarrow> ctx \<Rightarrow> task \<Rightarrow> ('s, unit) io" where
  "save_state wk c t =
     (case wk_storage wk of
        None \<Rightarrow> ret ()
      | Some st \<Rightarrow> do { _ \<leftarrow> SaveTask st c (Some t); ret () })"

definition save_result :: "'s Worker \<Rightarrow> ctx \<Rightarrow> result \<Rightarrow> ('s, unit) io" where
  "save_result wk c r =
     (case wk_storage wk of
        None \<Rightarrow> ret ()
      | Some st \<Rightarrow> do { _ \<leftarrow> SaveResult st c (Some r); ret () })"

definition timeout_msg :: "int \<Rightarrow> string" where
  "timeout_msg timeout = ''task timed out after '' @ duration_String timeout"

definition executeTask :: "'s Worker \<Rightarrow> task \<Rightarrow> ('s, task \<times> gerr option) io" where
  "executeTask wk t = do {
     let timeout = (if t_Timeout t = 0 then 30 * Second else t_Timeout t);
     startTime \<leftarrow> time_Now;
     x \<leftarrow> Execute (wk_registry wk) timeout t;
     stop \<leftarrow> time_Now;
     let duration = time_Sub stop startTime;
     c \<leftarrow> parent_ctx;
     (case x of
        (res, Some err) \<Rightarrow> do {
          expired \<leftarrow> deadline_passed;
          (if expired then do {
             let errMsg = timeout_msg timeout;
             (if wk_storage wk \<noteq> None then do {
                now \<leftarrow> time_Now;
                save_result wk c \<lparr>r_TaskID = t_ID t, r_Success = False, r_Output = None, r_Error = errMsg,
                  r_CompletedAt = now, r_Duration = duration\<rparr>
              } else ret ());
             ret (t, Some (Err errMsg))
           }
           else do {
             (case res of None \<Rightarrow> ret () | Some r \<Rightarrow> save_result wk c (r\<lparr>r_Duration := duration\<rparr>));
             ret (t, Some err)
           })
        }
      | (res, None) \<Rightarrow> do {
          now \<leftarrow> time_Now;
          let t = MarkCompleted now t;
          (case res of
             Some r \<Rightarrow> (if wk_storage wk \<noteq> None then do {
               now \<leftarrow> time_Now;
               save_result wk c (r\<lparr>r_Duration := duration, r_CompletedAt := now\<rparr>)
             } else ret ())
           | None \<Rightarrow> ret ());
          (case res of
             Some r \<Rightarrow>
               if \<not> r_Success r then ret (t, Some (Err (''task execution failed: '' @ r_Error r)))
               else ret (t, None)
           | None \<Rightarrow> ret (t, None))
        })
   }"

definition dlq_reason :: "task \<Rightarrow> gerr \<Rightarrow> string" where
  "dlq_reason t execErr =
     ''Exceeded max retries ('' @ show_int (t_MaxRetries t) @ ''). Last error: '' @ err_Error execErr"

definition handleTaskFailure ::
  "'s Worker \<Rightarrow> ctx \<Rightarrow> worker_stats \<Rightarrow> task \<Rightarrow> gerr \<Rightarrow> ('s, worker_stats \<times> gerr option) io" where
  "handleTaskFailure wk c s t execErr = do {
     now \<leftarrow> (if t_RetryCount t < t_MaxRetries t then ret 0 else time_Now);
     let t = MarkFailed now execErr t;
     _ \<leftarrow> save_state wk c t;
     (if t_State t = StateRetrying then do {
        let s = s\<lparr>tasksRetried := wrap64 (tasksRetried s + 1)\<rparr>;
        _ \<leftarrow> time_Sleep (GetRetryDelay t);
        e \<leftarrow> Enqueue (wk_queue wk) c (Some t);
        ret (s, e)
      }
      else do {
        x \<leftarrow> EnqueueDLQ (wk_queue wk) c (Some t) (dlq_reason t execErr);
        e \<leftarrow> Nack (wk_queue wk) c (t_ID t) False;
        ret (s, e)
      })
   }"

definition pollAndExecute ::
  "'s Worker \<Rightarrow> ctx \<Rightarrow> worker_stats \<Rightarrow> ('s, worker_stats \<times> gerr option) io" where
  "pollAndExecute wk c s = do {
     r \<leftarrow> Dequeue (wk_queue wk) c;
     (case r of
        Inl e \<Rightarrow> ret (s, Some e)
      | Inr None \<Rightarrow> ret (s, Some ErrNoTask)
      | Inr (Some t) \<Rightarrow> do {
          now \<leftarrow> time_Now;
          let t = MarkStarted now t;
          _ \<leftarrow> save_state wk c t;
          x \<leftarrow> executeTask wk t;
          c' \<leftarrow> parent_ctx;
          (case x of
             (t, Some err) \<Rightarrow>
               handleTaskFailure wk c' (s\<lparr>tasksFailed := wrap64 (tasksFailed s + 1)\<rparr>) t err
           | (t, None) \<Rightarrow> do {
               let s = s\<lparr>tasksProcessed := wrap64 (tasksProcessed s + 1)\<rparr>;
               now \<leftarrow> time_Now;
               let t = MarkCompleted now t;
               _ \<leftarrow> save_state wk c' t;
               e \<leftarrow> Ack (wk_queue wk) c' (t_ID t);
               ret (s, e)
             })
        })
   }"

definition Worker_Stats :: "worker_stats \<Rightarrow> int \<times> int \<times> int" where
  "Worker_Stats s = (tasksProcessed s, tasksFailed s, tasksRetried s)"

definition Worker_ID :: "'s Worker \<Rightarrow> string" where
  "Worker_ID wk = wk_id wk"

text \<open>The body of the poll loop, \<open>n\<close> times: errors are logged and the loop goes on.\<close>

primrec poll_n :: "nat \<Rightarrow> 's Worker \<Rightarrow> ctx \<Rightarrow> worker_stats \<Rightarrow> ('s, worker_stats) io" where
  "poll_n 0 wk c s = ret s"
| "poll_n (Suc n) wk c s = do { x \<leftarrow> pollAndExecute wk c s; poll_n n wk c (fst x) }"

abbreviation (input) WK :: "'s client \<Rightarrow> string \<Rightarrow> Registry \<Rightarrow> int \<Rightarrow> 's Worker" where
  "WK ex i reg freq \<equiv>
     \<lparr>wk_id = i, wk_queue = RQ ex, wk_storage = Some (RS ex), wk_registry = reg, wk_pollFreq = freq\<rparr>"

subsection \<open>What a poll comes to\<close>

text \<open>
  The error with which the execution of a task ends, if any, when the handler's run has
  number \<open>n\<close>: no handler, an error of the handler, an output that has no JSON form; the
  error is replaced when the deadline of the task's context has passed.
\<close>

definition effective_timeout :: "task \<Rightarrow> int" where
  "effective_timeout t = (if t_Timeout t = 0 then 30 * Second else t_Timeout t)"

definition handler_result :: "Registry \<Rightarrow> nat \<Rightarrow> task \<Rightarrow> gerr + json" where
  "handler_result reg n t =
     (case Registry_Get reg (t_Type t) of
        Inl e \<Rightarrow> Inl e
      | Inr h \<Rightarrow> (case h n (effective_timeout t) (t_Payload t) of
          Inl e \<Rightarrow> Inl e
        | Inr v \<Rightarrow> json_Marshal v))"

definition outcome :: "Registry \<Rightarrow> nat \<Rightarrow> bool \<Rightarrow> task \<Rightarrow> gerr option" where
  "outcome reg n expired t =
     (case handler_result reg n t of
        Inl e \<Rightarrow> Some (if expired then Err (timeout_msg (effective_timeout t)) else e)
      | Inr j \<Rightarrow> None)"

text \<open>The runs of a handler that an execution adds.\<close>

definition handler_runs :: "Registry \<Rightarrow> task \<Rightarrow> string list" where
  "handler_runs reg t = (case Registry_Get reg (t_Type t) of Inl _ \<Rightarrow> [] | Inr _ \<Rightarrow> [t_ID t])"

text \<open>The dead letter queue of a database.\<close>

definition dlq_holds :: "db \<Rightarrow> task list \<Rightarrow> bool" where
  "dlq_holds d ts \<longleftrightarrow> list_at dlqKey d = Some (map (\<lambda>t. Doc (task_json t)) ts) \<and> list_all task_ok ts"

section \<open>Lemmas\<close>

text \<open>
  The world after some operations: the same environment, \<open>rs\<close> the handler runs and \<open>ss\<close>
  the sleeps that were added.
\<close>

definition evolves :: "string list \<Rightarrow> int list \<Rightarrow> 's world \<Rightarrow> 's world \<Rightarrow> bool" where
  "evolves rs ss w w' \<longleftrightarrow> w_clock w' = w_clock w \<and> w_expired w' = w_expired w \<and> w_parent w' = w_parent w \<and>
     w_runs w' = w_runs w @ rs \<and> w_slept w' = w_slept w @ ss"

definition clock_ok :: "'s world \<Rightarrow> bool" where
  "clock_ok w \<longleftrightarrow> (\<forall>n. time_marshalable (w_clock w n))"

lemma evolves_update [simp]:
  "evolves rs ss (w\<lparr>w_db := d\<rparr>) v = evolves rs ss w v" "evolves rs ss (w\<lparr>w_tick := n\<rparr>) v = evolves rs ss w v"
  "evolves rs ss w (v\<lparr>w_db := d\<rparr>) = evolves rs ss w v" "evolves rs ss w (v\<lparr>w_tick := n\<rparr>) = evolves rs ss w v"
  by (simp_all add: evolves_def)

lemma evolves_refl [simp]: "evolves [] [] w w"
  by (simp add: evolves_def)

lemma evolves_trans: "evolves rs ss u v \<Longrightarrow> evolves rs' ss' v w \<Longrightarrow> evolves (rs @ rs') (ss @ ss') u w"
  by (simp add: evolves_def)

lemma evolves_clock: "evolves rs ss w w' \<Longrightarrow> clock_ok w' = clock_ok w"
  by (simp add: evolves_def clock_ok_def)

subsection \<open>Frames\<close>

lemma holds_queue_frame:
  assumes "holds_queue d q" and d': "only_changes K d d'"
    and K: "\<And>p. p \<in> set priorities \<Longrightarrow> qkey p \<notin> K"
      "\<And>p t. p \<in> set priorities \<Longrightarrow> t \<in> set (q p) \<Longrightarrow> taskKey (t_ID t) \<notin> K"
  shows "holds_queue d' q"
proof -
  have "list_at (qkey p) d' = list_at (qkey p) d" if "p \<in> set priorities" for p
    by (rule only_changes_list_at [OF d' K(1) [OF that]])
  moreover have "task_stored d' t = task_stored d t" if "p \<in> set priorities" "t \<in> set (q p)" for p t
    using only_changes_key_get [OF d' K(2) [OF that]] by (rule task_stored_cong)
  ultimately show ?thesis using assms(1) by (simp add: holds_queue_def)
qed

lemma store_frame:
  assumes d': "only_changes K d d'" and K: "\<And>i. storeKey i \<notin> K" "\<And>s. stateKey s \<notin> K"
  shows "store_ok d' = store_ok d" and "saved_task d' = saved_task d" and "state_index d' = state_index d"
proof -
  have "key_get (storeKey i) d' = key_get (storeKey i) d" for i
    by (rule only_changes_key_get [OF d' K(1)])
  moreover have "set_at (stateKey s) d' = set_at (stateKey s) d" for s
    by (rule only_changes_set_at [OF d' K(2)])
  ultimately show "store_ok d' = store_ok d" "saved_task d' = saved_task d" "state_index d' = state_index d"
    by (simp_all add: store_ok_def saved_task_def [abs_def] state_index_def [abs_def])
qed

lemma saved_result_frame:
  "only_changes K d d' \<Longrightarrow> resultKey i \<notin> K \<Longrightarrow> saved_result d' i = saved_result d i"
  by (simp add: saved_result_def only_changes_key_get)

text \<open>Within a queue the identifier determines the task.\<close>

lemma holds_queueD:
  assumes "holds_queue d q" and "p \<in> set priorities" and "u \<in> set (q p)"
  shows "task_stored d u" and "task_ok u" and "t_Priority u = p"
  using assms by (simp_all add: holds_queue_def)

lemma task_stored_key: "task_stored d t \<Longrightarrow> \<exists>ttl. key_get (taskKey (t_ID t)) d = Some (VStr (Doc (task_json t)) ttl)"
  by (auto simp: task_stored_def split: option.splits rval.splits)

lemma task_json_inject: "task_ok u \<Longrightarrow> task_ok v \<Longrightarrow> task_json u = task_json v \<Longrightarrow> u = v"
  by (metis task_json_roundtrip sum.inject(2))

lemma holds_queue_same_ID:
  assumes q: "holds_queue d q" and u: "p \<in> set priorities" "u \<in> set (q p)"
    and v: "r \<in> set priorities" "v \<in> set (q r)" and eq: "t_ID u = t_ID v"
  shows "u = v"
proof -
  from task_stored_key [OF holds_queueD(1) [OF q u]] task_stored_key [OF holds_queueD(1) [OF q v]] eq
  have "task_json u = task_json v" by force
  then show ?thesis by (rule task_json_inject [OF holds_queueD(2) [OF q u] holds_queueD(2) [OF q v]])
qed

lemma a_first_cases:
  assumes "a_first q ps = Some (t, q')"
  shows "\<exists>p \<in> set ps. \<exists>ts. q p = t # ts \<and> q' = q(p := ts)"
  using assms by (induction ps) (auto split: list.splits)

lemma a_dequeue_cases:
  assumes "a_dequeue q = Some (t, q')"
  obtains p ts where "p \<in> set priorities" "q p = t # ts" "q' = q(p := ts)"
  using a_first_cases [of q priorities t q'] assms by (auto simp: a_dequeue_def)

lemma dequeued_fresh:
  assumes q: "holds_queue d q" and t: "a_dequeue q = Some (t, q')"
    and u: "p \<in> set priorities" "u \<in> set (q' p)"
  shows "t_ID u \<noteq> t_ID t"
proof
  assume eq: "t_ID u = t_ID t"
  from t obtain r ts where r: "r \<in> set priorities" "q r = t # ts" "q' = q(r := ts)"
    by (rule a_dequeue_cases)
  from u r have "u \<in> set (q p)" by (auto split: if_splits)
  with holds_queue_same_ID [OF q u(1) _ r(1) _ eq] r have "u = t" by simp
  with holds_queueD(3) [OF q u(1), of u] holds_queueD(3) [OF q r(1), of u] r \<open>u \<in> set (q p)\<close>
  have "p = r" by simp
  with u r have "u \<in> set ts" by simp
  moreover from q r have "t_ID t \<notin> t_ID ` set ts" by (auto simp: holds_queue_def)
  ultimately show False using eq by (metis image_eqI)
qed

lemma dequeued_priority:
  assumes "holds_queue d q" and "a_dequeue q = Some (t, q')"
  shows "t_Priority t \<in> set priorities" and "task_ok t"
  using assms(2) by (rule a_dequeue_cases, use assms(1) in \<open>auto simp: holds_queue_def\<close>)+

subsection \<open>Simulation by the documented server\<close>

lemma run_parent_ctx [run_simps]: "run_state parent_ctx w = (w_parent w (length (w_runs w)), w)"
  by (simp add: parent_ctx_def)

lemma run_deadline_passed [run_simps]: "run_state deadline_passed w = (w_expired w (length (w_runs w)), w)"
  by (simp add: deadline_passed_def)

lemma sim_worker_env [sim_intros]:
  "simulates f parent_ctx parent_ctx" "simulates f deadline_passed deadline_passed"
  by (simp_all add: simulates_def run_simps)

lemma sim_save [sim_intros]:
  assumes "redis_server ex view pk"
  shows "simulates view (save_state (WK ex i reg freq) c t) (save_state (WK (redis_client pk) i reg freq) c t)"
    and "simulates view (save_result (WK ex i reg freq) c r) (save_result (WK (redis_client pk) i reg freq) c r)"
  unfolding save_state_def save_result_def Worker.simps option.case
  by (intro sim_intros assms)+

lemma sim_executeTask [sim_intros]:
  assumes "redis_server ex view pk"
  shows "simulates view (executeTask (WK ex i reg freq) t) (executeTask (WK (redis_client pk) i reg freq) t)"
  by (simp only: executeTask_def Worker.simps option.distinct not_False_eq_True if_True) (intro sim_intros assms)

lemma sim_handleTaskFailure [sim_intros]:
  assumes "redis_server ex view pk"
  shows "simulates view (handleTaskFailure (WK ex i reg freq) c s t e)
    (handleTaskFailure (WK (redis_client pk) i reg freq) c s t e)"
  unfolding handleTaskFailure_def Worker.simps
  by (intro sim_intros assms)

lemma sim_pollAndExecute [sim_intros]:
  assumes "redis_server ex view pk"
  shows "simulates view (pollAndExecute (WK ex i reg freq) c s)
    (pollAndExecute (WK (redis_client pk) i reg freq) c s)"
  unfolding pollAndExecute_def Worker.simps(2)
  by (intro sim_intros assms)

lemma sim_poll_n [sim_intros]:
  assumes "redis_server ex view pk"
  shows "simulates view (poll_n n (WK ex i reg freq) c s) (poll_n n (WK (redis_client pk) i reg freq) c s)"
  by (induction n arbitrary: s)
     (simp_all only: poll_n.simps, (intro sim_intros assms; assumption)+)

subsection \<open>The calls of the worker, one at a time\<close>

lemma run_save_state:
  assumes "store_ok (w_db w)" and "task_ok t" and "t_ID t \<noteq> []"
  shows "\<exists>w'. run_state (save_state (WK (redis_client pk) i reg freq) Live t) w = ((), w') \<and>
    evolves [] [] w w' \<and> only_changes {storeKey (t_ID t), stateKey (t_State t)} (w_db w) (w_db w') \<and>
    store_ok (w_db w') \<and> saved_task (w_db w') = (saved_task (w_db w))(t_ID t \<mapsto> t)"
proof -
  from store_ok_index [OF assms(1)] obtain xs where xs: "set_at (stateKey (t_State t)) (w_db w) = Some xs"
    by blast
  let ?d = "save_task_db t xs (w_db w)"
  have "run_state (save_state (WK (redis_client pk) i reg freq) Live t) w = ((), w\<lparr>w_db := ?d\<rparr>)"
    by (simp add: save_state_def run_SaveTask [OF assms(2,3) xs])
  moreover have "saved_task ?d = (saved_task (w_db w))(t_ID t \<mapsto> t)"
    using assms(2) by (simp add: saved_task_save fun_eq_iff)
  ultimately show ?thesis
    using store_ok_save [OF assms(1,2) xs] by (simp add: only_changes_save_task)
qed

lemma run_save_result:
  assumes "result_ok r" and "r_TaskID r \<noteq> []"
  shows "\<exists>w'. run_state (save_result (WK (redis_client pk) i reg freq) Live r) w = ((), w') \<and>
    evolves [] [] w w' \<and> only_changes {resultKey (r_TaskID r)} (w_db w) (w_db w') \<and>
    saved_result (w_db w') (r_TaskID r) = Some r"
proof -
  obtain j where "marshal_result r = Inr j" "unmarshal_result (Doc j) = Inr r"
    using result_marshal_roundtrip [OF assms(1)] by blast
  with assms(2) show ?thesis
    by (simp add: save_result_def SaveResult_def run_simps only_changes_def saved_result_def)
qed

lemma run_Ack:
  assumes "t_ID t \<noteq> []"
  shows "\<exists>w'. run_state (Ack (RQ (redis_client pk)) Live (t_ID t)) w = (None, w') \<and> evolves [] [] w w' \<and>
    only_changes {processingKey (t_ID t), taskKey (t_ID t), statsKey ''completed''} (w_db w) (w_db w') \<and>
    key_get (taskKey (t_ID t)) (w_db w') = None \<and> key_get (processingKey (t_ID t)) (w_db w') = None"
  using assms by (simp add: Ack_def run_simps only_changes_def del: redis_step.simps(5))

lemma run_Nack_drop:
  assumes "t_ID t \<noteq> []"
  shows "\<exists>w'. run_state (Nack (RQ (redis_client pk)) Live (t_ID t) False) w = (None, w') \<and> evolves [] [] w w' \<and>
    only_changes {processingKey (t_ID t), taskKey (t_ID t), statsKey ''failed''} (w_db w) (w_db w') \<and>
    key_get (taskKey (t_ID t)) (w_db w') = None \<and> key_get (processingKey (t_ID t)) (w_db w') = None"
  using assms by (simp add: Nack_def run_simps only_changes_def del: redis_step.simps(5))

lemma dlq_task_ok: "task_ok t \<Longrightarrow> task_ok (dlq_task t reason)"
  by (simp add: dlq_task_def Let_def task_ok_def times_marshalable_def)

lemma dlq_task_ID [simp]: "t_ID (dlq_task t reason) = t_ID t"
  by (simp add: dlq_task_def Let_def)

lemma run_EnqueueDLQ:
  assumes dlq: "dlq_holds (w_db w) ts" and t: "task_ok t"
  shows "\<exists>w'. run_state (EnqueueDLQ (RQ (redis_client pk)) Live (Some t) reason) w =
      ((None, Some (dlq_task t reason)), w') \<and> evolves [] [] w w' \<and>
    only_changes {dlqKey, metaKey (t_ID t), statsKey ''dlq''} (w_db w) (w_db w') \<and>
    dlq_holds (w_db w') (ts @ [dlq_task t reason])"
proof -
  note ok = dlq_task_ok [OF t, of reason]
  from dlq have "list_at dlqKey (w_db w) = Some (map (\<lambda>t. Doc (task_json t)) ts)" "list_all task_ok ts"
    by (simp_all add: dlq_holds_def)
  with ok task_ok_marshal [OF ok] show ?thesis
    by (simp add: EnqueueDLQ_def Let_def run_simps only_changes_def dlq_holds_def del: redis_step.simps(5))
qed

text \<open>What \<open>Execute\<close> returns: a result document that can be stored, and the handler's error.\<close>

definition exec_result :: "(nat \<Rightarrow> int) \<Rightarrow> task \<Rightarrow> gerr + json \<Rightarrow> result \<Rightarrow> bool" where
  "exec_result clock t out r \<longleftrightarrow>
     r_TaskID r = t_ID t \<and> r_CompletedAt r \<in> range clock \<and>
     (case out of Inl e \<Rightarrow> \<not> r_Success r \<and> r_Output r = None | Inr j \<Rightarrow> r_Success r \<and> r_Output r = Some (Doc j))"

lemma run_Execute:
  fixes w :: "'s world" and reg :: Registry and t :: task
  defines "out \<equiv> handler_result reg (length (w_runs w)) t"
  shows "\<exists>r w'. run_state (Execute reg (effective_timeout t) t) w =
      ((r, case out of Inl e \<Rightarrow> Some e | Inr _ \<Rightarrow> None), w') \<and>
    evolves (handler_runs reg t) [] w w' \<and> w_db w' = w_db w \<and>
    pred_option (exec_result (w_clock w) t out) r \<and> (isl out \<or> r \<noteq> None \<and> handler_runs reg t = [t_ID t])"
proof (cases "Registry_Get reg (t_Type t)")
  case (Inl x)
  then show ?thesis
    by (simp add: Execute_def out_def handler_result_def handler_runs_def)
next
  case (Inr h)
  note defs = Execute_def out_def handler_result_def handler_runs_def run_simps exec_result_def
    zero_result_def evolves_def
  show ?thesis
  proof (cases "h (length (w_runs w)) (effective_timeout t) (t_Payload t)")
    case (Inl x)
    with Inr show ?thesis by (simp add: defs)
  next
    case (Inr v)
    with \<open>Registry_Get reg (t_Type t) = Inr h\<close> show ?thesis
      by (cases "json_Marshal v") (simp_all add: defs)
  qed
qed

lemma exec_result_ok:
  assumes "exec_result (w_clock w) t out r" and "clock_ok w"
  shows "result_ok (r\<lparr>r_Duration := time_Sub x y\<rparr>)"
    and "result_ok (r\<lparr>r_Duration := time_Sub x y, r_CompletedAt := w_clock w n\<rparr>)"
  using assms by (auto simp: exec_result_def result_ok_def clock_ok_def time_Sub_in64 split: sum.splits)

lemma run_executeTask_error:
  assumes t: "t_ID t \<noteq> []" and clock: "clock_ok w"
    and ctx: "w_parent w (length (w_runs w) + length (handler_runs reg t)) = Live"
    and e: "outcome reg (length (w_runs w)) (w_expired w (length (w_runs w) + length (handler_runs reg t))) t = Some e"
  shows "\<exists>w'. run_state (executeTask (WK (redis_client pk) i reg freq) t) w = ((t, Some e), w') \<and>
    evolves (handler_runs reg t) [] w w' \<and> only_changes {resultKey (t_ID t)} (w_db w) (w_db w')"
proof -
  define w1 where "w1 = w\<lparr>w_tick := Suc (w_tick w)\<rparr>"
  obtain x where x: "handler_result reg (length (w_runs w1)) t = Inl x"
    using e by (auto simp: outcome_def w1_def split: sum.splits)
  from run_Execute [of reg t w1] x obtain r w2 where
    run: "run_state (Execute reg (effective_timeout t) t) w1 = ((r, Some x), w2)"
    and w2: "evolves (handler_runs reg t) [] w1 w2" "w_db w2 = w_db w1"
    and r: "pred_option (exec_result (w_clock w1) t (Inl x)) r"
    by auto
  from w2 have env: "evolves (handler_runs reg t) [] w w2" "w_db w2 = w_db w" "w_clock w2 = w_clock w"
    by (simp_all add: w1_def evolves_def)
  have step: "\<exists>v'. run_state (save_result (WK (redis_client pk) i reg freq) Live q) v = ((), v') \<and>
      evolves (handler_runs reg t) [] w v' \<and> only_changes {resultKey (t_ID t)} (w_db w) (w_db v')"
    if "result_ok q" "r_TaskID q = t_ID t" "evolves (handler_runs reg t) [] w v" "w_db v = w_db w" for q v
    using run_save_result [OF that(1), where pk = pk and i = i and reg = reg and freq = freq and w = v] that t
      evolves_trans [OF that(3)] by fastforce
  note simps = executeTask_def effective_timeout_def [symmetric] Let_def run_simps w1_def [symmetric] run
  from env ctx have live: "w_parent w2 (length (w_runs w2)) = Live" by (simp add: evolves_def)
  show ?thesis
  proof (cases "w_expired w2 (length (w_runs w2))")
    case True
    with env x e have eq: "e = Err (timeout_msg (effective_timeout t))"
      by (simp add: outcome_def evolves_def w1_def)
    let ?q = "\<lparr>r_TaskID = t_ID t, r_Success = False, r_Output = None, r_Error = timeout_msg (effective_timeout t),
      r_CompletedAt = w_clock w (Suc (w_tick w2)), r_Duration = time_Sub (w_clock w (w_tick w2)) (w_clock w (w_tick w))\<rparr>"
    have "result_ok ?q" using clock by (simp add: result_ok_def clock_ok_def time_Sub_in64)
    from step [OF this, of "w2\<lparr>w_tick := Suc (Suc (w_tick w2))\<rparr>"] eq True live env show ?thesis
      by (auto simp: simps)
  next
    case False
    with env x e have eq: "e = x" by (simp add: outcome_def evolves_def w1_def)
    show ?thesis
    proof (cases r)
      case None
      with eq False live env show ?thesis by (simp add: simps)
    next
      case (Some y)
      let ?q = "y\<lparr>r_Duration := time_Sub (w_clock w (w_tick w2)) (w_clock w (w_tick w))\<rparr>"
      from r Some clock have "result_ok ?q" "r_TaskID ?q = t_ID t"
        using exec_result_ok(1) [of w t "Inl x" y] by (simp_all add: w1_def exec_result_def)
      from step [OF this, of "w2\<lparr>w_tick := Suc (w_tick w2)\<rparr>"] eq Some False live env show ?thesis
        by (auto simp: simps)
    qed
  qed
qed

lemma run_executeTask_ok:
  assumes t: "t_ID t \<noteq> []" and clock: "clock_ok w"
    and ctx: "w_parent w (length (w_runs w) + length (handler_runs reg t)) = Live"
    and e: "handler_result reg (length (w_runs w)) t = Inr j"
  shows "\<exists>now r w'. run_state (executeTask (WK (redis_client pk) i reg freq) t) w = ((MarkCompleted now t, None), w') \<and>
    evolves [t_ID t] [] w w' \<and> only_changes {resultKey (t_ID t)} (w_db w) (w_db w') \<and>
    saved_result (w_db w') (t_ID t) = Some r \<and> r_Success r \<and> r_Output r = Some (Doc j)"
proof -
  define w1 where "w1 = w\<lparr>w_tick := Suc (w_tick w)\<rparr>"
  from e have e1: "handler_result reg (length (w_runs w1)) t = Inr j" by (simp add: w1_def)
  from run_Execute [of reg t w1] e1 obtain r w2 where
    run: "run_state (Execute reg (effective_timeout t) t) w1 = ((Some r, None), w2)"
    and w2: "evolves [t_ID t] [] w1 w2" "w_db w2 = w_db w1" and one: "handler_runs reg t = [t_ID t]"
    and r: "exec_result (w_clock w1) t (Inr j) r"
    by auto
  from w2 have env: "evolves [t_ID t] [] w w2" "w_db w2 = w_db w" "w_clock w2 = w_clock w"
    by (simp_all add: w1_def evolves_def)
  from env ctx one have live: "w_parent w2 (length (w_runs w2)) = Live" by (simp add: evolves_def)
  let ?q = "r\<lparr>r_Duration := time_Sub (w_clock w (w_tick w2)) (w_clock w (w_tick w)),
    r_CompletedAt := w_clock w (Suc (Suc (w_tick w2)))\<rparr>"
  from r clock have q: "result_ok ?q" "r_TaskID ?q = t_ID t" "r_TaskID ?q \<noteq> []" "r_Success r" "r_Output r = Some (Doc j)"
    using t exec_result_ok(2) [of w t "Inr j" r] by (simp_all add: w1_def exec_result_def)
  from run_save_result [OF q(1,3), where pk = pk and i = i and reg = reg and freq = freq
      and w = "w2\<lparr>w_tick := Suc (Suc (Suc (w_tick w2)))\<rparr>"] q(2) env obtain w3 where
    w3: "run_state (save_result (WK (redis_client pk) i reg freq) Live ?q)
        (w2\<lparr>w_tick := Suc (Suc (Suc (w_tick w2)))\<rparr>) = ((), w3)" "evolves [] [] w2 w3"
      "only_changes {resultKey (t_ID t)} (w_db w) (w_db w3)" "saved_result (w_db w3) (t_ID t) = Some ?q"
    by auto
  from evolves_trans [OF env(1) w3(2)] have "evolves [t_ID t] [] w w3" by simp
  with w3 run live env q show ?thesis
    by (auto simp: executeTask_def effective_timeout_def [symmetric] Let_def run_simps w1_def [symmetric])
qed

subsection \<open>One poll\<close>

text \<open>The part of \<open>pollAndExecute\<close> that follows the bookkeeping of the pick-up.\<close>

definition after_pick :: "'s Worker \<Rightarrow> worker_stats \<Rightarrow> task \<Rightarrow> ('s, worker_stats \<times> gerr option) io" where
  "after_pick wk s t = do {
     x \<leftarrow> executeTask wk t;
     c' \<leftarrow> parent_ctx;
     (case x of
        (t, Some err) \<Rightarrow>
          handleTaskFailure wk c' (s\<lparr>tasksFailed := wrap64 (tasksFailed s + 1)\<rparr>) t err
      | (t, None) \<Rightarrow> do {
          let s = s\<lparr>tasksProcessed := wrap64 (tasksProcessed s + 1)\<rparr>;
          now \<leftarrow> time_Now;
          let t = MarkCompleted now t;
          _ \<leftarrow> save_state wk c' t;
          e \<leftarrow> Ack (wk_queue wk) c' (t_ID t);
          ret (s, e)
        })
   }"

lemma pollAndExecute_eq:
  "pollAndExecute wk c s = do {
     r \<leftarrow> Dequeue (wk_queue wk) c;
     (case r of
        Inl e \<Rightarrow> ret (s, Some e)
      | Inr None \<Rightarrow> ret (s, Some ErrNoTask)
      | Inr (Some t) \<Rightarrow> do {
          now \<leftarrow> time_Now;
          _ \<leftarrow> save_state wk c (MarkStarted now t);
          after_pick wk s (MarkStarted now t)
        })
   }"
  unfolding pollAndExecute_def after_pick_def Let_def by (rule refl)

text \<open>
  A world in which the database is sound and the clock in range (\<open>sys_inv\<close>), and in which
  moreover the worker's context is never cancelled (\<open>sys_ok\<close>).
\<close>

definition sys_inv :: "db world \<Rightarrow> pqueue \<Rightarrow> task list \<Rightarrow> bool" where
  "sys_inv w q dl \<longleftrightarrow>
     holds_queue (w_db w) q \<and> store_ok (w_db w) \<and> dlq_holds (w_db w) dl \<and> clock_ok w \<and>
     (\<forall>p \<in> set priorities. \<forall>t \<in> set (q p). t_ID t \<noteq> [])"

definition sys_ok :: "db world \<Rightarrow> pqueue \<Rightarrow> task list \<Rightarrow> bool" where
  "sys_ok w q dl \<longleftrightarrow> sys_inv w q dl \<and> (\<forall>n. w_parent w n = Live)"

lemmas sys_defs = sys_ok_def sys_inv_def

text \<open>The keys that the handling of a task may write.\<close>

definition poll_keys :: "task \<Rightarrow> string set" where
  "poll_keys t =
     {storeKey (t_ID t), resultKey (t_ID t), taskKey (t_ID t), processingKey (t_ID t), metaKey (t_ID t), dlqKey} \<union>
     range stateKey \<union> range statsKey \<union> range qkey"

lemma only_changes_within:
  "only_changes K d e \<Longrightarrow> only_changes L e f \<Longrightarrow> K \<subseteq> M \<Longrightarrow> L \<subseteq> M \<Longrightarrow> only_changes M d f"
  unfolding only_changes_def by (metis subset_iff)

lemma poll_keys_other:
  assumes "only_changes (poll_keys t) d d'" and "i \<noteq> t_ID t"
  shows "saved_task d' i = saved_task d i" and "saved_result d' i = saved_result d i"
    and "key_get (taskKey i) d' = key_get (taskKey i) d"
proof -
  have "storeKey i \<notin> poll_keys t" "resultKey i \<notin> poll_keys t" "taskKey i \<notin> poll_keys t"
    using assms(2) by (auto simp: poll_keys_def)
  then show "saved_task d' i = saved_task d i" "saved_result d' i = saved_result d i"
    "key_get (taskKey i) d' = key_get (taskKey i) d"
    using assms(1) by (simp_all add: saved_task_def saved_result_def only_changes_key_get)
qed

lemma dlq_holds_frame: "only_changes K d d' \<Longrightarrow> dlqKey \<notin> K \<Longrightarrow> dlq_holds d' ts = dlq_holds d ts"
  by (simp add: dlq_holds_def only_changes_list_at)

lemma sys_ok_env: "evolves rs ss w w' \<Longrightarrow> clock_ok w' = clock_ok w \<and> w_parent w' = w_parent w"
  by (simp add: evolves_def clock_ok_def)

text \<open>A step that writes only keys of a task that is not queued and keys of the storage.\<close>

lemma sys_inv_step:
  assumes "sys_inv w q dl" and "evolves rs ss w w'" and d: "only_changes K (w_db w) (w_db w')"
    and "store_ok (w_db w')"
    and "\<And>p. p \<in> set priorities \<Longrightarrow> qkey p \<notin> K" and "dlqKey \<notin> K"
    and "\<And>p t. p \<in> set priorities \<Longrightarrow> t \<in> set (q p) \<Longrightarrow> taskKey (t_ID t) \<notin> K"
  shows "sys_inv w' q dl"
  using assms sys_ok_env [OF assms(2)] holds_queue_frame [of "w_db w" q K "w_db w'"] dlq_holds_frame [OF d]
  by (simp add: sys_inv_def)

lemma sys_ok_step:
  assumes "sys_ok w q dl" and "evolves rs ss w w'" and "only_changes K (w_db w) (w_db w')"
    and "store_ok (w_db w')"
    and "\<And>p. p \<in> set priorities \<Longrightarrow> qkey p \<notin> K" and "dlqKey \<notin> K"
    and "\<And>p t. p \<in> set priorities \<Longrightarrow> t \<in> set (q p) \<Longrightarrow> taskKey (t_ID t) \<notin> K"
  shows "sys_ok w' q dl"
  using sys_inv_step [OF _ assms(2-7)] sys_ok_env [OF assms(2)] assms(1) by (simp add: sys_ok_def)

lemma sys_ok_keep:
  assumes "sys_ok w q dl" and "evolves rs ss w w'" and d: "only_changes K (w_db w) (w_db w')"
    and "\<And>i. storeKey i \<notin> K" "\<And>s. stateKey s \<notin> K"
    and "\<And>p. p \<in> set priorities \<Longrightarrow> qkey p \<notin> K" and "dlqKey \<notin> K"
    and "\<And>p t. p \<in> set priorities \<Longrightarrow> t \<in> set (q p) \<Longrightarrow> taskKey (t_ID t) \<notin> K"
  shows "sys_ok w' q dl" and "saved_task (w_db w') = saved_task (w_db w)"
proof -
  show "saved_task (w_db w') = saved_task (w_db w)" by (rule store_frame [OF d assms(4,5)])
  from store_frame(1) [OF d assms(4,5)] assms(1) have "store_ok (w_db w')" by (simp add: sys_defs)
  with assms show "sys_ok w' q dl" by (intro sys_ok_step [OF assms(1-3)])
qed

lemma poll_pick_inv:
  assumes sys: "sys_inv w q dl" and t: "a_dequeue q = Some (t, q')"
  shows "\<exists>now w'. run_state (pollAndExecute (WK (redis_client pk) i reg freq) Live s) w =
      run_state (after_pick (WK (redis_client pk) i reg freq) s (MarkStarted now t)) w' \<and>
    evolves [] [] w w' \<and> sys_inv w' q' dl \<and> task_ok (MarkStarted now t) \<and>
    only_changes (poll_keys t) (w_db w) (w_db w') \<and> saved_task (w_db w') (t_ID t) = Some (MarkStarted now t) \<and>
    task_stored (w_db w') t \<and> key_get (processingKey (t_ID t)) (w_db w') \<noteq> None"
proof -
  let ?wk = "WK (redis_client pk) i reg freq"
  from sys have q: "holds_queue (w_db w) q" and clock: "clock_ok w" by (simp_all add: sys_defs)
  from t obtain p ts where p: "p \<in> set priorities" "q p = t # ts" "q' = q(p := ts)" by (rule a_dequeue_cases)
  from run_Dequeue_Some [OF q t, of pk Live] obtain w1 where
    run1: "run_state (Dequeue (RQ (redis_client pk)) Live) w = (Inr (Some t), w1)"
    and w1: "evolves [] [] w w1" "holds_queue (w_db w1) q'" "task_ok t"
    and kept1: "task_stored (w_db w1) t" "key_get (processingKey (t_ID t)) (w_db w1) \<noteq> None"
    and d1: "only_changes {qkey (t_Priority t), processingKey (t_ID t), statsKey ''last_dequeue''} (w_db w) (w_db w1)"
    by auto
  have store1: "store_ok (w_db w1)" using store_frame(1) [OF d1] sys by (simp add: sys_defs)
  have dlq1: "dlq_holds (w_db w1) dl" using dlq_holds_frame [OF d1] sys by (simp add: sys_defs)
  have ids: "t_ID u \<noteq> []" if "r \<in> set priorities" "u \<in> set (q' r)" for r u
    using sys p that by (auto simp: sys_defs split: if_splits)
  have sys1: "sys_inv w1 q' dl"
    using w1 store1 dlq1 ids sys sys_ok_env [OF w1(1)] by (simp add: sys_defs)
  let ?now = "w_clock w1 (w_tick w1)" and ?w2 = "w1\<lparr>w_tick := Suc (w_tick w1)\<rparr>"
  from sys1 have "time_marshalable ?now" by (simp add: sys_defs clock_ok_def)
  with w1(3) have ok: "task_ok (MarkStarted ?now t)" by (rule MarkStarted_ok)
  from sys p have "t_ID t \<noteq> []" by (auto simp: sys_defs)
  with run_save_state [OF _ ok, where w = ?w2 and pk = pk and i = i and reg = reg and freq = freq] store1 obtain w3 where
    run3: "run_state (save_state ?wk Live (MarkStarted ?now t)) ?w2 = ((), w3)"
    and w3: "evolves [] [] ?w2 w3" "store_ok (w_db w3)" "saved_task (w_db w3) (t_ID t) = Some (MarkStarted ?now t)"
    and d3: "only_changes {storeKey (t_ID t), stateKey (t_State (MarkStarted ?now t))} (w_db w1) (w_db w3)"
    by auto
  from w3(1) have "evolves [] [] w1 w3" by simp
  from evolves_trans [OF w1(1) this] have "evolves [] [] w w3" by simp
  moreover have "sys_inv w3 q' dl" by (rule sys_inv_step [OF sys1 _ d3 w3(2)]) (use w3(1) in simp_all)
  moreover have "run_state (pollAndExecute ?wk Live s) w = run_state (after_pick ?wk s (MarkStarted ?now t)) w3"
    using run1 run3 by (simp add: pollAndExecute_eq run_simps)
  moreover have "only_changes (poll_keys t) (w_db w) (w_db w3)"
    using d1 d3 by (rule only_changes_within) (auto simp: poll_keys_def)
  moreover have "task_stored (w_db w3) t" "key_get (processingKey (t_ID t)) (w_db w3) \<noteq> None"
    using kept1 only_changes_key_get [OF d3] by (simp_all add: task_stored_def)
  ultimately show ?thesis using ok w3(3) by blast
qed

lemma poll_pick:
  assumes "sys_ok w q dl" and "a_dequeue q = Some (t, q')"
  shows "\<exists>now w'. run_state (pollAndExecute (WK (redis_client pk) i reg freq) Live s) w =
      run_state (after_pick (WK (redis_client pk) i reg freq) s (MarkStarted now t)) w' \<and>
    evolves [] [] w w' \<and> sys_ok w' q' dl \<and> task_ok (MarkStarted now t) \<and>
    only_changes (poll_keys t) (w_db w) (w_db w')"
  using poll_pick_inv [OF _ assms(2), of w dl] assms(1) sys_ok_env unfolding sys_ok_def by metis

lemma Mark_timeout [simp]: "effective_timeout (MarkStarted now t) = effective_timeout t"
  by (simp add: effective_timeout_def)

lemma Mark_handler_result [simp]: "handler_result reg n (MarkStarted now t) = handler_result reg n t"
  unfolding handler_result_def Mark_timeout Mark_frame ..

lemma Mark_execution [simp]:
  "outcome reg n b (MarkStarted now t) = outcome reg n b t" "handler_runs reg (MarkStarted now t) = handler_runs reg t"
  unfolding outcome_def handler_runs_def Mark_handler_result Mark_timeout Mark_frame Mark_ID by (rule refl)+

lemma MarkCompleted_twice [simp]: "MarkCompleted x (MarkCompleted y t) = MarkCompleted x t"
  by (simp add: MarkCompleted_def)

lemma poll_fresh:
  assumes "sys_ok w q dl" and "a_dequeue q = Some (t, q')"
  shows "t_ID t \<noteq> []" and "p \<in> set priorities \<Longrightarrow> u \<in> set (q' p) \<Longrightarrow> t_ID u \<noteq> t_ID t"
    and "t_Priority t \<in> set priorities" and "task_ok t"
  using assms dequeued_fresh dequeued_priority
  by (auto simp: sys_defs elim: a_dequeue_cases)

lemma poll_success:
  assumes sys: "sys_ok w q dl" and t: "a_dequeue q = Some (t, q')"
    and j: "handler_result reg (length (w_runs w)) t = Inr j"
  shows "\<exists>w' t' r. run_state (pollAndExecute (WK (redis_client pk) i reg freq) Live s) w =
      ((s\<lparr>tasksProcessed := wrap64 (tasksProcessed s + 1)\<rparr>, None), w') \<and> evolves [t_ID t] [] w w' \<and>
    sys_ok w' q' dl \<and> saved_task (w_db w') (t_ID t) = Some t' \<and> t_State t' = StateCompleted \<and>
    saved_result (w_db w') (t_ID t) = Some r \<and> r_Success r \<and> r_Output r = Some (Doc j) \<and>
    key_get (taskKey (t_ID t)) (w_db w') = None \<and> key_get (processingKey (t_ID t)) (w_db w') = None \<and>
    only_changes (poll_keys t) (w_db w) (w_db w')"
proof -
  let ?wk = "WK (redis_client pk) i reg freq"
  note new = poll_fresh [OF sys t] and within = only_changes_within [where M = "poll_keys t"]
  from poll_pick [OF sys t, where pk = pk and i = i and reg = reg and freq = freq and s = s] obtain now w1 where
    run: "run_state (pollAndExecute ?wk Live s) w = run_state (after_pick ?wk s (MarkStarted now t)) w1"
    and e1: "evolves [] [] w w1" and sys1: "sys_ok w1 q' dl" and ok1: "task_ok (MarkStarted now t)"
    and d1: "only_changes (poll_keys t) (w_db w) (w_db w1)"
    by blast
  from e1 j have "handler_result reg (length (w_runs w1)) (MarkStarted now t) = Inr j" by (simp add: evolves_def)
  with run_executeTask_ok [of "MarkStarted now t" w1 reg, where pk = pk and i = i and freq = freq] new sys1
  obtain now' r w2 where
    run2: "run_state (executeTask ?wk (MarkStarted now t)) w1 = ((MarkCompleted now' (MarkStarted now t), None), w2)"
    and e2: "evolves [t_ID t] [] w1 w2" and d2: "only_changes {resultKey (t_ID t)} (w_db w1) (w_db w2)"
    and r: "saved_result (w_db w2) (t_ID t) = Some r" "r_Success r" "r_Output r = Some (Doc j)"
    by (auto simp: sys_defs)
  have sys2: "sys_ok w2 q' dl" by (rule sys_ok_keep(1) [OF sys1 e2 d2]) simp_all
  let ?w3 = "w2\<lparr>w_tick := Suc (w_tick w2)\<rparr>" and ?u = "MarkCompleted (w_clock w2 (w_tick w2)) (MarkStarted now t)"
  from sys2 have "time_marshalable (w_clock w2 (w_tick w2))" and store: "store_ok (w_db ?w3)"
    by (simp_all add: sys_defs clock_ok_def)
  with ok1 have ok: "task_ok ?u" by (intro MarkCompleted_ok)
  from run_save_state [OF store ok, where pk = pk and i = i and reg = reg and freq = freq] new obtain w4 where
    run4: "run_state (save_state ?wk Live ?u) ?w3 = ((), w4)" and e4: "evolves [] [] w2 w4" and store4: "store_ok (w_db w4)"
    and d4: "only_changes {storeKey (t_ID t), stateKey (t_State ?u)} (w_db w2) (w_db w4)"
    and saved4: "saved_task (w_db w4) (t_ID t) = Some ?u"
    by auto
  have sys4: "sys_ok w4 q' dl" by (rule sys_ok_step [OF sys2 e4 d4 store4]) simp_all
  from run_Ack [of t, where pk = pk and w = w4] new obtain w5 where
    run5: "run_state (Ack (RQ (redis_client pk)) Live (t_ID t)) w4 = (None, w5)" and e5: "evolves [] [] w4 w5"
    and d5: "only_changes {processingKey (t_ID t), taskKey (t_ID t), statsKey ''completed''} (w_db w4) (w_db w5)"
    and gone: "key_get (taskKey (t_ID t)) (w_db w5) = None" "key_get (processingKey (t_ID t)) (w_db w5) = None"
    by auto
  have sys5: "sys_ok w5 q' dl" "saved_task (w_db w5) = saved_task (w_db w4)"
    by (rule sys_ok_keep [OF sys4 e5 d5]; use new in simp)+
  have r5: "saved_result (w_db w5) (t_ID t) = Some r"
    using saved_result_frame [OF d4] saved_result_frame [OF d5] r by simp
  have "evolves [t_ID t] [] w w5" using e1 e2 e4 e5 by (simp add: evolves_def)
  moreover have "w_parent w2 (length (w_runs w2)) = Live" using sys2 by (simp add: sys_defs)
  with run run2 run4 run5 have "run_state (pollAndExecute ?wk Live s) w =
      ((s\<lparr>tasksProcessed := wrap64 (tasksProcessed s + 1)\<rparr>, None), w5)"
    by (simp add: after_pick_def run_simps)
  moreover have "t_State ?u = StateCompleted" by (simp add: MarkCompleted_def)
  moreover have "only_changes (poll_keys t) (w_db w) (w_db w5)"
    by (rule within [OF within [OF within [OF d1 d2] d4] d5])
       (auto simp: poll_keys_def)
  ultimately show ?thesis
    using sys5 saved4 r r5 gone by (intro exI [of _ w5] exI [of _ ?u] exI [of _ r]) simp
qed

subsection \<open>Failed executions\<close>

text \<open>The error with which the next execution of \<open>t\<close> in the world \<open>w\<close> ends.\<close>

definition next_failure :: "Registry \<Rightarrow> 's world \<Rightarrow> task \<Rightarrow> gerr option" where
  "next_failure reg w t =
     outcome reg (length (w_runs w)) (w_expired w (length (w_runs w) + length (handler_runs reg t))) t"

lemma poll_failed:
  assumes sys: "sys_ok w q dl" and t: "a_dequeue q = Some (t, q')" and e: "next_failure reg w t = Some e"
  shows "\<exists>now w'. run_state (pollAndExecute (WK (redis_client pk) i reg freq) Live s) w =
      run_state (handleTaskFailure (WK (redis_client pk) i reg freq) Live
        (s\<lparr>tasksFailed := wrap64 (tasksFailed s + 1)\<rparr>) (MarkStarted now t) e) w' \<and>
    evolves (handler_runs reg t) [] w w' \<and> sys_ok w' q' dl \<and> task_ok (MarkStarted now t) \<and>
    only_changes (poll_keys t) (w_db w) (w_db w')"
proof -
  let ?wk = "WK (redis_client pk) i reg freq"
  note new = poll_fresh [OF sys t]
  from poll_pick [OF sys t, where pk = pk and i = i and reg = reg and freq = freq and s = s] obtain now w1 where
    run: "run_state (pollAndExecute ?wk Live s) w = run_state (after_pick ?wk s (MarkStarted now t)) w1"
    and e1: "evolves [] [] w w1" and sys1: "sys_ok w1 q' dl" and ok1: "task_ok (MarkStarted now t)"
    and d1: "only_changes (poll_keys t) (w_db w) (w_db w1)"
    by blast
  from e1 e have "outcome reg (length (w_runs w1))
      (w_expired w1 (length (w_runs w1) + length (handler_runs reg t))) (MarkStarted now t) = Some e"
    by (simp add: evolves_def next_failure_def)
  with run_executeTask_error [of "MarkStarted now t" w1 reg e, where pk = pk and i = i and freq = freq] new sys1
  obtain w2 where
    run2: "run_state (executeTask ?wk (MarkStarted now t)) w1 = ((MarkStarted now t, Some e), w2)"
    and e2: "evolves (handler_runs reg t) [] w1 w2" and d2: "only_changes {resultKey (t_ID t)} (w_db w1) (w_db w2)"
    by (auto simp: sys_defs)
  have sys2: "sys_ok w2 q' dl" by (rule sys_ok_keep(1) [OF sys1 e2 d2]) simp_all
  then have "w_parent w2 (length (w_runs w2)) = Live" by (simp add: sys_defs)
  with run run2 have "run_state (pollAndExecute ?wk Live s) w =
      run_state (handleTaskFailure ?wk Live (s\<lparr>tasksFailed := wrap64 (tasksFailed s + 1)\<rparr>) (MarkStarted now t) e) w2"
    by (simp add: after_pick_def run_simps)
  moreover have "only_changes (poll_keys t) (w_db w) (w_db w2)"
    by (rule only_changes_within [OF d1 d2]) (auto simp: poll_keys_def)
  ultimately show ?thesis using evolves_trans [OF e1 e2] sys2 ok1 by auto
qed

lemma run_failure_retry:
  fixes e :: gerr
  assumes sys: "sys_ok w q dl" and t: "task_ok t" "t_ID t \<noteq> []" "t_Priority t \<in> set priorities"
    and fresh: "\<And>p u. p \<in> set priorities \<Longrightarrow> u \<in> set (q p) \<Longrightarrow> t_ID u \<noteq> t_ID t"
    and retry: "t_RetryCount t < t_MaxRetries t"
  defines "t' \<equiv> MarkFailed 0 e t"
  shows "\<exists>w'. run_state (handleTaskFailure (WK (redis_client pk) i reg freq) Live s t e) w =
      ((s\<lparr>tasksRetried := wrap64 (tasksRetried s + 1)\<rparr>, None), w') \<and> evolves [] [GetRetryDelay t'] w w' \<and>
    sys_ok w' (a_enqueue t' q) dl \<and> saved_task (w_db w') (t_ID t) = Some t' \<and>
    only_changes (poll_keys t) (w_db w) (w_db w')"
proof -
  let ?wk = "WK (redis_client pk) i reg freq"
  have ok: "task_ok t'" "t_ID t' = t_ID t" "t_Priority t' = t_Priority t" "t_State t' = StateRetrying"
    using t retry MarkFailed_ok [of t 0 e] by (simp_all add: t'_def MarkFailed_state ShouldRetry_def time_marshalable_def)
  from sys have store: "store_ok (w_db w)" by (simp add: sys_defs)
  from run_save_state [OF store ok(1), where pk = pk and i = i and reg = reg and freq = freq] ok t obtain w1 where
    run1: "run_state (save_state ?wk Live t') w = ((), w1)" and e1: "evolves [] [] w w1"
    and store1: "store_ok (w_db w1)" and saved1: "saved_task (w_db w1) (t_ID t) = Some t'"
    and d1: "only_changes {storeKey (t_ID t), stateKey StateRetrying} (w_db w) (w_db w1)"
    by auto
  have sys1: "sys_ok w1 q dl" by (rule sys_ok_step [OF sys e1 d1 store1]) simp_all
  let ?w2 = "w1\<lparr>w_slept := w_slept w1 @ [GetRetryDelay t']\<rparr>"
  from sys1 have "holds_queue (w_db ?w2) q" by (simp add: sys_defs)
  from holds_queue_Enqueue [OF this ok(1), of pk Live] ok t fresh obtain w3 where
    run3: "run_state (Enqueue (RQ (redis_client pk)) Live (Some t')) ?w2 = (None, w3)"
    and e3: "evolves [] [] ?w2 w3" and q3: "holds_queue (w_db w3) (a_enqueue t' q)"
    and d3: "only_changes {taskKey (t_ID t), qkey (t_Priority t), statsKey ''total'', statsKey ''last_enqueue''} (w_db w1) (w_db w3)"
    by auto
  from e1 e3 have env: "evolves [] [GetRetryDelay t'] w w3" by (simp add: evolves_def)
  have "sys_ok w3 (a_enqueue t' q) dl"
    using sys1 q3 store_frame(1) [OF d3] dlq_holds_frame [OF d3] sys_ok_env [OF env] sys ok t
    by (simp add: sys_defs a_enqueue_def) 
  moreover have "saved_task (w_db w3) (t_ID t) = Some t'" using store_frame(2) [OF d3] saved1 by simp
  moreover have "run_state (handleTaskFailure ?wk Live s t e) w =
      ((s\<lparr>tasksRetried := wrap64 (tasksRetried s + 1)\<rparr>, None), w3)"
    using run1 run3 retry ok by (simp add: handleTaskFailure_def run_simps t'_def Let_def)
  moreover have "only_changes (poll_keys t) (w_db w) (w_db w3)"
    by (rule only_changes_within [OF d1 d3]) (auto simp: poll_keys_def)
  ultimately show ?thesis using env by blast
qed

lemma run_failure_dead:
  assumes sys: "sys_ok w q dl" and t: "task_ok t" "t_ID t \<noteq> []"
    and fresh: "\<And>p u. p \<in> set priorities \<Longrightarrow> u \<in> set (q p) \<Longrightarrow> t_ID u \<noteq> t_ID t"
    and dead: "\<not> t_RetryCount t < t_MaxRetries t"
  shows "\<exists>now w'. run_state (handleTaskFailure (WK (redis_client pk) i reg freq) Live s t e) w = ((s, None), w') \<and>
    evolves [] [] w w' \<and> sys_ok w' q (dl @ [dlq_task (MarkFailed now e t) (dlq_reason t e)]) \<and>
    saved_task (w_db w') (t_ID t) = Some (MarkFailed now e t) \<and>
    key_get (taskKey (t_ID t)) (w_db w') = None \<and> key_get (processingKey (t_ID t)) (w_db w') = None \<and>
    only_changes (poll_keys t) (w_db w) (w_db w')"
proof -
  let ?wk = "WK (redis_client pk) i reg freq"
  note within = only_changes_within [where M = "poll_keys t"]
  define t' where "t' = MarkFailed (w_clock w (w_tick w)) e t"
  let ?w0 = "w\<lparr>w_tick := Suc (w_tick w)\<rparr>" and ?u = "dlq_task t' (dlq_reason t e)"
  from sys have "time_marshalable (w_clock w (w_tick w))" and store: "store_ok (w_db ?w0)"
    by (simp_all add: sys_defs clock_ok_def)
  with t have ok: "task_ok t'" unfolding t'_def by (intro MarkFailed_ok)
  have t': "t_ID t' = t_ID t" "t_State t' = StateDeadLetter" "dlq_reason t' e = dlq_reason t e"
    using dead by (simp_all add: t'_def MarkFailed_state ShouldRetry_def dlq_reason_def)
  from run_save_state [OF store ok, where pk = pk and i = i and reg = reg and freq = freq] t t' obtain w1 where
    run1: "run_state (save_state ?wk Live t') ?w0 = ((), w1)" and e1: "evolves [] [] w w1"
    and store1: "store_ok (w_db w1)" and saved1: "saved_task (w_db w1) (t_ID t) = Some t'"
    and d1: "only_changes {storeKey (t_ID t), stateKey StateDeadLetter} (w_db w) (w_db w1)"
    by auto
  have sys1: "sys_ok w1 q dl" by (rule sys_ok_step [OF sys e1 d1 store1]) simp_all
  then have "dlq_holds (w_db w1) dl" by (simp add: sys_defs)
  from run_EnqueueDLQ [OF this ok, of pk "dlq_reason t e"] t' obtain w2 where
    run2: "run_state (EnqueueDLQ (RQ (redis_client pk)) Live (Some t') (dlq_reason t e)) w1 = ((None, Some ?u), w2)"
    and e2: "evolves [] [] w1 w2" and dlq2: "dlq_holds (w_db w2) (dl @ [?u])"
    and d2: "only_changes {dlqKey, metaKey (t_ID t), statsKey ''dlq''} (w_db w1) (w_db w2)"
    by auto
  have sys2: "sys_ok w2 q (dl @ [?u])" 
    using sys1 dlq2 store_frame(1) [OF d2] sys_ok_env [OF e2] holds_queue_frame [OF _ d2]
    by (simp add: sys_defs)
  from run_Nack_drop [OF t(2), of pk w2] obtain w3 where
    run3: "run_state (Nack (RQ (redis_client pk)) Live (t_ID t) False) w2 = (None, w3)" and e3: "evolves [] [] w2 w3"
    and d3: "only_changes {processingKey (t_ID t), taskKey (t_ID t), statsKey ''failed''} (w_db w2) (w_db w3)"
    and gone: "key_get (taskKey (t_ID t)) (w_db w3) = None" "key_get (processingKey (t_ID t)) (w_db w3) = None"
    by blast
  have sys3: "sys_ok w3 q (dl @ [?u])" "saved_task (w_db w3) = saved_task (w_db w2)"
    by (rule sys_ok_keep [OF sys2 e3 d3]; use fresh in simp)+
  have "saved_task (w_db w3) (t_ID t) = Some t'" using store_frame(2) [OF d2] saved1 sys3 by simp
  moreover have "evolves [] [] w w3" using e1 e2 e3 by (simp add: evolves_def)
  moreover have "run_state (handleTaskFailure ?wk Live s t e) w = ((s, None), w3)"
    using run1 run2 run3 dead t' by (simp add: handleTaskFailure_def run_simps t'_def Let_def)
  moreover have "only_changes (poll_keys t) (w_db w) (w_db w3)"
    by (rule within [OF within [OF d1 d2] d3]) (auto simp: poll_keys_def)
  ultimately show ?thesis using sys3 gone unfolding t'_def by blast
qed

lemma poll_idle:
  assumes "sys_ok w q dl" and "a_dequeue q = None"
  shows "run_state (pollAndExecute (WK (redis_client pk) i reg freq) Live s) w = ((s, Some ErrNoTask), w)"
  using run_Dequeue_None [of w q pk Live] assms by (simp add: pollAndExecute_eq sys_defs)

lemma poll_retry:
  assumes sys: "sys_ok w q dl" and t: "a_dequeue q = Some (t, q')" and e: "next_failure reg w t = Some e"
    and retry: "t_RetryCount t < t_MaxRetries t"
  shows "\<exists>now w'. let t' = MarkFailed 0 e (MarkStarted now t) in
    run_state (pollAndExecute (WK (redis_client pk) i reg freq) Live s) w =
      ((s\<lparr>tasksFailed := wrap64 (tasksFailed s + 1), tasksRetried := wrap64 (tasksRetried s + 1)\<rparr>, None), w') \<and>
    evolves (handler_runs reg t) [GetRetryDelay t'] w w' \<and> sys_ok w' (a_enqueue t' q') dl \<and>
    saved_task (w_db w') (t_ID t) = Some t' \<and> only_changes (poll_keys t) (w_db w) (w_db w')"
proof -
  note new = poll_fresh [OF sys t]
  from poll_failed [OF sys t e, where pk = pk and i = i and freq = freq and s = s] obtain now w1 where
    run: "run_state (pollAndExecute (WK (redis_client pk) i reg freq) Live s) w =
      run_state (handleTaskFailure (WK (redis_client pk) i reg freq) Live
        (s\<lparr>tasksFailed := wrap64 (tasksFailed s + 1)\<rparr>) (MarkStarted now t) e) w1"
    and e1: "evolves (handler_runs reg t) [] w w1" and sys1: "sys_ok w1 q' dl" and ok1: "task_ok (MarkStarted now t)"
    and d1: "only_changes (poll_keys t) (w_db w) (w_db w1)"
    by blast
  from run_failure_retry [OF sys1 ok1, where e = e and pk = pk and i = i and freq = freq and reg = reg
      and s = "s\<lparr>tasksFailed := wrap64 (tasksFailed s + 1)\<rparr>"] new retry run evolves_trans [OF e1]
    only_changes_within [OF d1 _ subset_refl, of "poll_keys t"]
  show ?thesis by (fastforce simp: Let_def poll_keys_def)
qed

lemma poll_dead:
  assumes sys: "sys_ok w q dl" and t: "a_dequeue q = Some (t, q')" and e: "next_failure reg w t = Some e"
    and dead: "\<not> t_RetryCount t < t_MaxRetries t"
  shows "\<exists>now now' w'. let t' = MarkFailed now' e (MarkStarted now t) in
    run_state (pollAndExecute (WK (redis_client pk) i reg freq) Live s) w =
      ((s\<lparr>tasksFailed := wrap64 (tasksFailed s + 1)\<rparr>, None), w') \<and>
    evolves (handler_runs reg t) [] w w' \<and> sys_ok w' q' (dl @ [dlq_task t' (dlq_reason t e)]) \<and>
    saved_task (w_db w') (t_ID t) = Some t' \<and> key_get (taskKey (t_ID t)) (w_db w') = None \<and>
    key_get (processingKey (t_ID t)) (w_db w') = None \<and> only_changes (poll_keys t) (w_db w) (w_db w')"
proof -
  note new = poll_fresh [OF sys t]
  from poll_failed [OF sys t e, where pk = pk and i = i and freq = freq and s = s] obtain now w1 where
    run: "run_state (pollAndExecute (WK (redis_client pk) i reg freq) Live s) w =
      run_state (handleTaskFailure (WK (redis_client pk) i reg freq) Live
        (s\<lparr>tasksFailed := wrap64 (tasksFailed s + 1)\<rparr>) (MarkStarted now t) e) w1"
    and e1: "evolves (handler_runs reg t) [] w w1" and sys1: "sys_ok w1 q' dl" and ok1: "task_ok (MarkStarted now t)"
    and d1: "only_changes (poll_keys t) (w_db w) (w_db w1)"
    by blast
  have reason: "dlq_reason (MarkStarted now t) e = dlq_reason t e" by (simp add: dlq_reason_def)
  from run_failure_dead [OF sys1 ok1, where e = e and pk = pk and i = i and freq = freq and reg = reg
      and s = "s\<lparr>tasksFailed := wrap64 (tasksFailed s + 1)\<rparr>"] new dead run evolves_trans [OF e1]
    only_changes_within [OF d1 _ subset_refl, of "poll_keys t"] reason
  show ?thesis by (fastforce simp: Let_def poll_keys_def)
qed

subsection \<open>No task is lost\<close>

definition queued_ids :: "pqueue \<Rightarrow> string list" where
  "queued_ids q = map t_ID (a_order q)"

text \<open>The tasks in the system: queued or in the dead letter queue, by identifier.\<close>

definition work :: "pqueue \<Rightarrow> task list \<Rightarrow> string multiset" where
  "work q dl = mset (queued_ids q) + mset (map t_ID dl)"

text \<open>A task that was executed successfully, as the storage shows it.\<close>

definition finished :: "db \<Rightarrow> string \<Rightarrow> bool" where
  "finished d i \<longleftrightarrow>
     (\<exists>t r. saved_task d i = Some t \<and> t_State t = StateCompleted \<and> saved_result d i = Some r \<and> r_Success r)"

lemma queued_ids_dequeue: "a_dequeue q = Some (t, q') \<Longrightarrow> queued_ids q = t_ID t # queued_ids q'"
  using a_dequeue_order [of q] by (simp add: queued_ids_def)

lemma queued_ids_enqueue:
  "t_Priority t \<in> set priorities \<Longrightarrow> mset (queued_ids (a_enqueue t q)) = add_mset (t_ID t) (mset (queued_ids q))"
  by (auto simp: queued_ids_def a_order_def a_enqueue_def set_priorities) (simp_all add: priorities_def)

lemma distinct_queued_ids:
  assumes q: "holds_queue d q"
  shows "distinct (queued_ids q)"
proof -
  have each: "distinct (map t_ID (q p))" if "p \<in> set priorities" for p
    using q that by (simp add: holds_queue_def)
  have cross: "t_ID ` set (q p) \<inter> t_ID ` set (q r) = {}"
    if "p \<in> set priorities" "r \<in> set priorities" "p \<noteq> r" for p r
  proof -
    have "t_ID u \<noteq> t_ID v" if "u \<in> set (q p)" "v \<in> set (q r)" for u v
      using holds_queue_same_ID [OF q \<open>p \<in> set priorities\<close> that(1) \<open>r \<in> set priorities\<close> that(2)]
        holds_queueD(3) [OF q \<open>p \<in> set priorities\<close> that(1)] holds_queueD(3) [OF q \<open>r \<in> set priorities\<close> that(2)] \<open>p \<noteq> r\<close>
      by blast
    then show ?thesis by blast
  qed
  have all: "{3, 2, 1, 0} \<subseteq> set priorities" by (simp add: set_priorities)
  then have "distinct (map t_ID (q 3) @ map t_ID (q 2) @ map t_ID (q 1) @ map t_ID (q 0))"
    by (simp only: distinct_append each set_append set_map Int_Un_distrib cross insert_subset) simp
  then show ?thesis by (simp add: queued_ids_def a_order_def priorities_def)
qed

text \<open>How many more executions the queued tasks can ask for.\<close>

definition attempts_left :: "task \<Rightarrow> nat" where
  "attempts_left t = Suc (nat (t_MaxRetries t - t_RetryCount t))"

definition budget :: "pqueue \<Rightarrow> nat" where
  "budget q = sum_list (map attempts_left (a_order q))"

lemma budget_dequeue: "a_dequeue q = Some (t, q') \<Longrightarrow> budget q = attempts_left t + budget q'"
  using a_dequeue_order [of q] by (simp add: budget_def)

lemma budget_enqueue:
  "t_Priority t \<in> set priorities \<Longrightarrow> budget (a_enqueue t q) = budget q + attempts_left t"
  by (auto simp: budget_def a_order_def a_enqueue_def set_priorities) (simp_all add: priorities_def)

lemma budget_zero: "budget q = 0 \<longleftrightarrow> a_order q = []"
  by (cases "a_order q") (simp_all add: budget_def attempts_left_def)

lemma attempts_left_failed:
  assumes "task_ok t" and "t_RetryCount t < t_MaxRetries t"
  shows "attempts_left t = Suc (attempts_left (MarkFailed now e (MarkStarted now' t)))"
proof -
  have "in64 (t_RetryCount t + 1)" using assms by (auto simp: task_ok_def in64_def)
  with assms show ?thesis by (simp add: attempts_left_def MarkFailed_count Suc_nat_eq_nat_zadd1)
qed

lemma finished_frame: "only_changes (poll_keys t) d d' \<Longrightarrow> i \<noteq> t_ID t \<Longrightarrow> finished d' i = finished d i"
  by (simp add: finished_def poll_keys_other)

text \<open>
  From the world \<open>w\<close> with queue and dead letters \<open>q\<close>, \<open>dl\<close> to the world \<open>w'\<close> with \<open>q'\<close>, \<open>dl'\<close>,
  the tasks of \<open>fin\<close> were finished and nothing else changed hands.
\<close>

definition conserves ::
  "db world \<Rightarrow> pqueue \<Rightarrow> task list \<Rightarrow> db world \<Rightarrow> pqueue \<Rightarrow> task list \<Rightarrow> string list \<Rightarrow> bool" where
  "conserves w q dl w' q' dl' fin \<longleftrightarrow>
     sys_ok w' q' dl' \<and> work q dl = work q' dl' + mset fin \<and> set (queued_ids q') \<subseteq> set (queued_ids q) \<and>
     set fin \<inter> set (queued_ids q') = {} \<and> (\<forall>j \<in> set fin. finished (w_db w') j) \<and>
     (\<forall>j. j \<notin> set (queued_ids q) \<longrightarrow> finished (w_db w') j = finished (w_db w) j)"

lemma conserves_refl: "sys_ok w q dl \<Longrightarrow> conserves w q dl w q dl []"
  by (simp add: conserves_def)

lemma conserves_trans:
  assumes "conserves u q dl v q' dl' f" and "conserves v q' dl' w q'' dl'' g"
  shows "conserves u q dl w q'' dl'' (f @ g)"
  using assms by (auto simp: conserves_def)

lemma poll_conserve:
  assumes sys: "sys_ok w q dl"
  shows "\<exists>x w' q' dl' fin. run_state (pollAndExecute (WK (redis_client pk) i reg freq) Live s) w = (x, w') \<and>
    conserves w q dl w' q' dl' fin \<and> budget q' \<le> budget q - 1"
proof (cases "a_dequeue q")
  case None
  from poll_idle [OF sys None, where pk = pk and i = i and reg = reg and freq = freq and s = s] conserves_refl [OF sys]
    a_dequeue_order [of q] None budget_zero [of q]
  show ?thesis by fastforce
next
  case (Some tq)
  then obtain t q' where t: "a_dequeue q = Some (t, q')" by (cases tq) simp
  note ids = queued_ids_dequeue [OF t] and new = poll_fresh [OF sys t] and budget = budget_dequeue [OF t]
  have dist: "distinct (queued_ids q)" using sys distinct_queued_ids [of "w_db w"] by (simp add: sys_defs)
  have other: "\<forall>j. j \<notin> set (queued_ids q) \<longrightarrow> finished (w_db w') j = finished (w_db w) j"
    if "only_changes (poll_keys t) (w_db w) (w_db w')" for w'
    using finished_frame [OF that] ids by auto
  show ?thesis
  proof (cases "next_failure reg w t")
    case None
    then obtain j where "handler_result reg (length (w_runs w)) t = Inr j"
      by (auto simp: next_failure_def outcome_def split: sum.splits)
    from poll_success [OF sys t this, where pk = pk and i = i and freq = freq and s = s] obtain x w' where
      run: "run_state (pollAndExecute (WK (redis_client pk) i reg freq) Live s) w = (x, w')"
      and w': "sys_ok w' q' dl" "finished (w_db w') (t_ID t)" "only_changes (poll_keys t) (w_db w) (w_db w')"
      by (auto simp: finished_def)
    have "conserves w q dl w' q' dl [t_ID t]"
      using w' ids dist other [OF w'(3)] by (auto simp: conserves_def work_def)
    moreover have "budget q' \<le> budget q - 1" using budget by (simp add: attempts_left_def)
    ultimately show ?thesis using run by blast
  next
    case (Some e)
    show ?thesis
    proof (cases "t_RetryCount t < t_MaxRetries t")
      case True
      from poll_retry [OF sys t Some True, where pk = pk and i = i and freq = freq and s = s] obtain x now w' where
        run: "run_state (pollAndExecute (WK (redis_client pk) i reg freq) Live s) w = (x, w')"
        and w': "sys_ok w' (a_enqueue (MarkFailed 0 e (MarkStarted now t)) q') dl" "only_changes (poll_keys t) (w_db w) (w_db w')"
        by (auto simp: Let_def)
      let ?q = "a_enqueue (MarkFailed 0 e (MarkStarted now t)) q'"
      have same: "mset (queued_ids ?q) = mset (queued_ids q)" using ids new by (simp add: queued_ids_enqueue)
      have "conserves w q dl w' ?q dl []"
        using w' other [OF w'(2)] same mset_eq_setD [OF same] by (simp add: conserves_def work_def)
      moreover have "budget ?q \<le> budget q - 1"
        using budget new attempts_left_failed [OF new(4) True, of 0 e now] by (simp add: budget_enqueue)
      ultimately show ?thesis using run by blast
    next
      case False
      from poll_dead [OF sys t Some False, where pk = pk and i = i and freq = freq and s = s] obtain x u w' where
        run: "run_state (pollAndExecute (WK (redis_client pk) i reg freq) Live s) w = (x, w')"
        and w': "sys_ok w' q' (dl @ [u])" "t_ID u = t_ID t" "only_changes (poll_keys t) (w_db w) (w_db w')"
        by (auto simp: Let_def)
      have "conserves w q dl w' q' (dl @ [u]) []"
        using w' ids other [OF w'(3)] by (auto simp: conserves_def work_def)
      moreover have "budget q' \<le> budget q - 1" using budget by (simp add: attempts_left_def)
      ultimately show ?thesis using run by blast
    qed
  qed
qed

lemma poll_n_conserve:
  assumes "sys_ok w q dl"
  shows "\<exists>s' w' q' dl' fin. run_state (poll_n n (WK (redis_client pk) i reg freq) Live s) w = (s', w') \<and>
    conserves w q dl w' q' dl' fin \<and> budget q' \<le> budget q - n"
  using assms
proof (induction n arbitrary: w q dl s)
  case 0
  then show ?case using conserves_refl by fastforce
next
  case (Suc n)
  from poll_conserve [OF Suc.prems, where pk = pk and i = i and reg = reg and freq = freq and s = s] obtain x w1 q1 dl1 f where
    run1: "run_state (pollAndExecute (WK (redis_client pk) i reg freq) Live s) w = (x, w1)"
    and c1: "conserves w q dl w1 q1 dl1 f" and b1: "budget q1 \<le> budget q - 1" by blast
  from c1 have "sys_ok w1 q1 dl1" by (simp add: conserves_def)
  from Suc.IH [OF this, of "fst x"] obtain s' w' q' dl' g where
    run2: "run_state (poll_n n (WK (redis_client pk) i reg freq) Live (fst x)) w1 = (s', w')"
    and c2: "conserves w1 q1 dl1 w' q' dl' g" and b2: "budget q' \<le> budget q1 - n" by blast
  from run1 run2 have "run_state (poll_n (Suc n) (WK (redis_client pk) i reg freq) Live s) w = (s', w')"
    by simp
  moreover from b1 b2 have "budget q' \<le> budget q - Suc n" by linarith
  ultimately show ?case using conserves_trans [OF c1 c2] by blast
qed

subsection \<open>A task that always fails\<close>

text \<open>Enough polls leave nothing queued.\<close>

lemma poll_n_settles:
  assumes "sys_ok w q dl" and "budget q \<le> n"
  shows "\<exists>s' w' q' dl' fin. run_state (poll_n n (WK (redis_client pk) i reg freq) Live s) w = (s', w') \<and> sys_ok w' q' dl' \<and>
    (\<forall>p \<in> set priorities. list_at (qkey p) (w_db w') = Some []) \<and> work q dl = mset (map t_ID dl') + mset fin \<and>
    (\<forall>j \<in> set fin. finished (w_db w') j)"
proof -
  from poll_n_conserve [OF assms(1), where n = n and pk = pk and i = i and reg = reg and freq = freq and s = s]
  obtain s' v q' dl' fin where
    run: "run_state (poll_n n (WK (redis_client pk) i reg freq) Live s) w = (s', v)"
    and c: "conserves w q dl v q' dl' fin" and b: "budget q' \<le> budget q - n" by blast
  from b assms(2) have "a_order q' = []" by (simp flip: budget_zero)
  then have "queued_ids q' = []" "\<forall>p \<in> set priorities. q' p = []" by (simp_all add: queued_ids_def a_order_def)
  with c have "\<forall>p \<in> set priorities. list_at (qkey p) (w_db v) = Some []" "sys_ok v q' dl'"
    "work q dl = mset (map t_ID dl') + mset fin" "\<forall>j \<in> set fin. finished (w_db v) j"
    by (simp_all add: conserves_def sys_defs holds_queue_def work_def)
  with run show ?thesis by blast
qed

definition single :: "task \<Rightarrow> pqueue" where
  "single t = (\<lambda>_. [])(t_Priority t := [t])"

lemma single_ops:
  assumes "t_Priority t \<in> set priorities"
  shows "a_dequeue (single t) = Some (t, \<lambda>_. [])" and "a_enqueue t (\<lambda>_. []) = single t"
  using assms by (auto simp: single_def a_dequeue_def a_enqueue_def set_priorities priorities_def)

text \<open>Two tasks that a handler cannot tell apart.\<close>

definition same_job :: "task \<Rightarrow> task \<Rightarrow> bool" where
  "same_job t u \<longleftrightarrow> t_ID t = t_ID u \<and> t_Type t = t_Type u \<and> t_Payload t = t_Payload u \<and> t_Timeout t = t_Timeout u \<and>
     t_Priority t = t_Priority u \<and> t_MaxRetries t = t_MaxRetries u"

lemma same_job_result:
  "same_job t u \<Longrightarrow> handler_result reg n t = handler_result reg n u"
  "same_job t u \<Longrightarrow> handler_runs reg t = handler_runs reg u"
  by (simp_all add: same_job_def handler_result_def handler_runs_def effective_timeout_def split: sum.split)

lemma same_job_failed: "same_job (MarkFailed now e (MarkStarted now' t)) t"
  by (simp add: same_job_def)

definition backoff :: "int \<Rightarrow> int" where
  "backoff n = min (Second * 2 ^ nat n) (5 * Minute)"

lemma failing_next:
  assumes "isl (handler_result reg (length (w_runs w)) t)"
  shows "\<exists>e. next_failure reg w t = Some e"
  using assms by (auto simp: next_failure_def outcome_def isl_def)

lemma failed_count:
  assumes "0 \<le> t_RetryCount t" and "t_RetryCount t \<le> 33"
  shows "t_RetryCount (MarkFailed now e (MarkStarted now' t)) = t_RetryCount t + 1"
  using assms by (simp add: MarkFailed_count in64_def)

lemma same_job_dlq: "same_job (dlq_task (MarkFailed now e (MarkStarted now' t)) m) t"
  "t_State (dlq_task u m) = StateDeadLetter" "t_RetryCount (dlq_task u m) = t_RetryCount u"
  by (simp_all add: same_job_def dlq_task_def Let_def)

lemma run_failing:
  assumes "sys_ok w (single t) dl" and "t_Priority t \<in> set priorities" and "\<And>n. isl (handler_result reg n t)"
    and "0 \<le> t_RetryCount t" and "t_MaxRetries t = t_RetryCount t + int k" and "t_MaxRetries t \<le> 33"
  shows "\<exists>s' w' u. run_state (poll_n (Suc k) (WK (redis_client pk) i reg freq) Live s) w = (s', w') \<and>
    sys_ok w' (\<lambda>_. []) (dl @ [u]) \<and> same_job u t \<and> t_State u = StateDeadLetter \<and>
    t_RetryCount u = t_MaxRetries t + 1 \<and>
    evolves (concat (replicate (Suc k) (handler_runs reg t)))
      (map backoff [t_RetryCount t + 1 .. t_MaxRetries t]) w w'"
  using assms
proof (induction k arbitrary: w t s)
  case 0
  obtain e where e: "next_failure reg w t = Some e" using failing_next "0.prems"(3) by blast
  have dead: "\<not> t_RetryCount t < t_MaxRetries t" using 0 by simp
  from poll_dead [OF "0.prems"(1) single_ops(1) [OF "0.prems"(2)] e dead, where pk = pk and i = i and freq = freq and s = s]
  show ?case
    using failed_count [of t] 0 by (fastforce simp: Let_def same_job_dlq)
next
  case (Suc k)
  obtain e where e: "next_failure reg w t = Some e" using failing_next Suc.prems(3) by blast
  have retry: "t_RetryCount t < t_MaxRetries t" using Suc.prems by simp
  from poll_retry [OF Suc.prems(1) single_ops(1) [OF Suc.prems(2)] e retry, where pk = pk and i = i and freq = freq and s = s]
  obtain now x w1 t' where run1: "run_state (pollAndExecute (WK (redis_client pk) i reg freq) Live s) w = (x, w1)"
    and t': "t' = MarkFailed 0 e (MarkStarted now t)"
    and e1: "evolves (handler_runs reg t) [GetRetryDelay t'] w w1" and "sys_ok w1 (a_enqueue t' (\<lambda>_. [])) dl"
    by (auto simp: Let_def)
  then have sys1: "sys_ok w1 (single t') dl" using Suc.prems(2) by (simp add: single_ops(2))
  from t' have job: "same_job t' t" by (simp add: same_job_failed)
  have count: "t_RetryCount t' = t_RetryCount t + 1" using t' failed_count Suc.prems by simp
  with retry_delay_small [of t'] Suc.prems have delay: "GetRetryDelay t' = backoff (t_RetryCount t + 1)"
    by (simp add: backoff_def)
  have "\<And>n. isl (handler_result reg n t')" using same_job_result(1) [OF job] Suc.prems(3) by simp
  moreover have max: "t_MaxRetries t' = t_MaxRetries t" and "t_Priority t' = t_Priority t"
    using job by (simp_all add: same_job_def)
  ultimately have ih: "\<And>n. isl (handler_result reg n t')" "t_Priority t' \<in> set priorities"
    "0 \<le> t_RetryCount t'" "t_MaxRetries t' = t_RetryCount t' + int k" "t_MaxRetries t' \<le> 33"
    using Suc.prems count by simp_all
  have more: "t_RetryCount t' + 1 = t_RetryCount t + 2" using count by simp
  from Suc.IH [OF sys1 ih(2,1,3-5), of "fst x", unfolded more max same_job_result(2) [OF job]] obtain s' w' u where
    run2: "run_state (poll_n (Suc k) (WK (redis_client pk) i reg freq) Live (fst x)) w1 = (s', w')"
    and u: "sys_ok w' (\<lambda>_. []) (dl @ [u])" "same_job u t'" "t_State u = StateDeadLetter" "t_RetryCount u = t_MaxRetries t + 1"
    and e2: "evolves (concat (replicate (Suc k) (handler_runs reg t))) (map backoff [t_RetryCount t + 2 .. t_MaxRetries t]) w1 w'"
    by blast
  from run1 run2 have "run_state (poll_n (Suc (Suc k)) (WK (redis_client pk) i reg freq) Live s) w = (s', w')"
    by simp
  moreover have "[t_RetryCount t + 1 .. t_MaxRetries t] = (t_RetryCount t + 1) # [t_RetryCount t + 2 .. t_MaxRetries t]"
    using retry upto_rec1 [of "t_RetryCount t + 1" "t_MaxRetries t"] by (simp add: add.assoc)
  with evolves_trans [OF e1 e2] delay have "evolves (concat (replicate (Suc (Suc k)) (handler_runs reg t)))
      (map backoff [t_RetryCount t + 1 .. t_MaxRetries t]) w w'"
    by simp
  ultimately show ?case using u job by (auto simp: same_job_def)
qed

subsection \<open>A context that is cancelled while the handler runs\<close>

lemma dead_client:
  assumes "c \<noteq> Live"
  shows "\<exists>m. redis_client pk c x d = (RErr m, d)"
  using assms by (cases c) (simp_all add: redis_client_def ctx_Err_def)

lemma run_dead_do:
  assumes "c \<noteq> Live"
  shows "\<exists>m. run_state (redis_do (redis_client pk) c x) w = (RErr m, w)"
  using dead_client [OF assms, of pk x "w_db w"] by (auto simp: run_simps)

lemma run_dead_save:
  assumes "c \<noteq> Live"
  shows "run_state (save_state (WK (redis_client pk) i reg freq) c t) w = ((), w)"
    and "run_state (save_result (WK (redis_client pk) i reg freq) c r) w = ((), w)"
proof -
  obtain m where "\<And>x. run_state (redis_do (redis_client pk) c x) w = (RErr m, w)"
    using assms by (cases c) (simp_all add: run_simps redis_client_def ctx_Err_def)
  then show "run_state (save_state (WK (redis_client pk) i reg freq) c t) w = ((), w)"
    "run_state (save_result (WK (redis_client pk) i reg freq) c r) w = ((), w)"
    by (simp_all add: save_state_def save_result_def SaveTask_def SaveResult_def split: sum.split)
qed

lemma run_dead_Ack:
  assumes "c \<noteq> Live" and "i \<noteq> []"
  shows "run_state (Ack (RQ (redis_client pk)) c i) w = (None, w)"
  using assms by (cases c) (simp_all add: Ack_def run_simps redis_client_def ctx_Err_def)

lemma run_executeTask_cancelled:
  assumes t: "t_ID t \<noteq> []" and ctx: "w_parent w (length (w_runs w) + 1) = c" "c \<noteq> Live"
    and e: "handler_result reg (length (w_runs w)) t = Inr j"
  shows "\<exists>now w'. run_state (executeTask (WK (redis_client pk) i reg freq) t) w = ((MarkCompleted now t, None), w') \<and>
    evolves [t_ID t] [] w w' \<and> w_db w' = w_db w"
proof -
  define w1 where "w1 = w\<lparr>w_tick := Suc (w_tick w)\<rparr>"
  from e have e1: "handler_result reg (length (w_runs w1)) t = Inr j" by (simp add: w1_def)
  from run_Execute [of reg t w1] e1 obtain r w2 where
    run: "run_state (Execute reg (effective_timeout t) t) w1 = ((Some r, None), w2)"
    and w2: "evolves [t_ID t] [] w1 w2" "w_db w2 = w_db w1" and r: "exec_result (w_clock w1) t (Inr j) r"
    by auto
  from w2 have env: "evolves [t_ID t] [] w w2" "w_db w2 = w_db w" by (simp_all add: w1_def evolves_def)
  from env ctx have dead: "w_parent w2 (length (w_runs w2)) = c" by (simp add: evolves_def)
  from r have "r_Success r" by (simp add: exec_result_def)
  with env dead run run_dead_save(2) [OF ctx(2)] show ?thesis
    by (auto simp: executeTask_def effective_timeout_def [symmetric] Let_def run_simps w1_def [symmetric])
qed

lemma poll_cancelled:
  assumes sys: "sys_inv w q dl" and t: "a_dequeue q = Some (t, q')"
    and ctx: "w_parent w (length (w_runs w) + 1) \<noteq> Live"
    and j: "handler_result reg (length (w_runs w)) t = Inr j"
  shows "\<exists>now w'. run_state (pollAndExecute (WK (redis_client pk) i reg freq) Live s) w =
      ((s\<lparr>tasksProcessed := wrap64 (tasksProcessed s + 1)\<rparr>, None), w') \<and> sys_inv w' q' dl \<and>
    saved_task (w_db w') (t_ID t) = Some (MarkStarted now t) \<and> task_stored (w_db w') t \<and>
    key_get (processingKey (t_ID t)) (w_db w') \<noteq> None"
proof -
  let ?wk = "WK (redis_client pk) i reg freq"
  from poll_pick_inv [OF sys t, where pk = pk and i = i and reg = reg and freq = freq and s = s] obtain now w1 where
    run: "run_state (pollAndExecute ?wk Live s) w = run_state (after_pick ?wk s (MarkStarted now t)) w1"
    and e1: "evolves [] [] w w1" and sys1: "sys_inv w1 q' dl"
    and kept: "saved_task (w_db w1) (t_ID t) = Some (MarkStarted now t)" "task_stored (w_db w1) t"
      "key_get (processingKey (t_ID t)) (w_db w1) \<noteq> None"
    by blast
  have i: "t_ID t \<noteq> []" using sys t by (auto simp: sys_inv_def elim: a_dequeue_cases)
  define c where "c = w_parent w1 (length (w_runs w1) + 1)"
  have c: "w_parent w1 (length (w_runs w1) + 1) = c" "c \<noteq> Live" using ctx e1 by (simp_all add: c_def evolves_def)
  have "handler_result reg (length (w_runs w1)) (MarkStarted now t) = Inr j" using e1 j by (simp add: evolves_def)
  with run_executeTask_cancelled [of "MarkStarted now t" w1 c reg j, where pk = pk and i = i and freq = freq] i c
  obtain now' w2 where
    run2: "run_state (executeTask ?wk (MarkStarted now t)) w1 = ((MarkCompleted now' (MarkStarted now t), None), w2)"
    and w2: "evolves [t_ID t] [] w1 w2" "w_db w2 = w_db w1" by auto
  have "w_parent w2 (length (w_runs w2)) = c" using w2 c by (simp add: evolves_def)
  with run run2 run_dead_save(1) [OF c(2)] run_dead_Ack [OF c(2) i] have
    "run_state (pollAndExecute ?wk Live s) w = ((s\<lparr>tasksProcessed := wrap64 (tasksProcessed s + 1)\<rparr>, None),
      w2\<lparr>w_tick := Suc (w_tick w2)\<rparr>)"
    by (simp add: after_pick_def run_simps)
  moreover have "sys_inv (w2\<lparr>w_tick := Suc (w_tick w2)\<rparr>) q' dl"
    using sys1 w2 by (simp add: sys_inv_def clock_ok_def evolves_def)
  ultimately show ?thesis using kept w2(2)
    by (intro exI [of _ now] exI [of _ "w2\<lparr>w_tick := Suc (w_tick w2)\<rparr>"]) simp
qed

section \<open>Properties\<close>

text \<open>A world, a registry and a queue for the concrete instances.\<close>

definition failing_registry :: Registry where
  "failing_registry = \<lparr>handlers = [(''email'', \<lambda>n timeout payload. Inl (Err ''boom''))]\<rparr>"

definition working_registry :: Registry where
  "working_registry = \<lparr>handlers = [(''email'', \<lambda>n timeout payload. Inr (GJson (JStr ''sent'')))]\<rparr>"

definition one_task_world :: "task \<Rightarrow> db world" where
  "one_task_world t = queue_enq (redis_client first_pick) t (start_world empty_db)\<lparr>w_clock := \<lambda>_. 0\<rparr>"

lemma one_task_world_ok:
  assumes "task_ok t" and "t_Priority t \<in> set priorities" and "t_ID t \<noteq> []"
  shows "sys_ok (world_map id (one_task_world t)) (single t) []" and "w_runs (one_task_world t) = []"
    and "w_slept (one_task_world t) = []"
proof -
  let ?w0 = "start_world empty_db"
  from holds_queue_Enqueue [of ?w0 "\<lambda>_. []" t first_pick Live] assms obtain d where
    w: "queue_enq (redis_client first_pick) t ?w0 = ?w0\<lparr>w_db := d, w_tick := Suc 0\<rparr>" and q: "holds_queue d (a_enqueue t (\<lambda>_. []))"
    and d: "only_changes {taskKey (t_ID t), qkey (t_Priority t), statsKey ''total'', statsKey ''last_enqueue''} empty_db d"
    by (auto simp: queue_enq_def)
  have "store_ok d" "dlq_holds d []"
    using store_frame(1) [OF d] only_changes_list_at [OF d] by (simp_all add: dlq_holds_def)
  with q w assms show "sys_ok (world_map id (one_task_world t)) (single t) []" "w_runs (one_task_world t) = []"
    "w_slept (one_task_world t) = []"
    by (simp_all add: sys_defs single_ops(2) clock_ok_def time_marshalable_def one_task_world_def start_world_def)
       (simp add: single_def)
qed

lemma registry_results [simp]:
  "handler_result working_registry n (sample_task i p m) = Inr (JStr ''sent'')"
  "handler_result failing_registry n (sample_task i p m) = Inl (Err ''boom'')"
  "handler_runs failing_registry (sample_task i p m) = [i]"
  by (simp_all add: handler_result_def handler_runs_def Registry_Get_def working_registry_def failing_registry_def)

lemma sample_world:
  assumes "in64 m"
  shows "sys_ok (world_map id (one_task_world (sample_task ''a'' 1 m))) (single (sample_task ''a'' 1 m)) []"
    and "a_dequeue (single (sample_task ''a'' 1 m)) = Some (sample_task ''a'' 1 m, \<lambda>_. [])"
    and "next_failure failing_registry (one_task_world (sample_task ''a'' 1 m)) (sample_task ''a'' 1 m) = Some (Err ''boom'')"
    and "w_slept (one_task_world (sample_task ''a'' 1 m)) = []" and "w_runs (one_task_world (sample_task ''a'' 1 m)) = []"
proof -
  let ?t = "sample_task ''a'' 1 m"
  have t: "task_ok ?t" "t_Priority ?t \<in> set priorities" "t_ID ?t \<noteq> []"
    using assms by (simp_all add: sample_task_ok in64_def set_priorities)
  show "sys_ok (world_map id (one_task_world ?t)) (single ?t) []" "w_slept (one_task_world ?t) = []"
    "w_runs (one_task_world ?t) = []"
    by (rule one_task_world_ok [OF t])+
  show "a_dequeue (single ?t) = Some (?t, \<lambda>_. [])" by (rule single_ops(1) [OF t(2)])
  show "next_failure failing_registry (one_task_world ?t) ?t = Some (Err ''boom'')"
    using t by (simp add: next_failure_def outcome_def one_task_world_def queue_enq_def start_world_def
        run_Enqueue [where k = "qkey 1" and xs = "[]" and pk = first_pick])
qed

text \<open>C15: When the handler of the next task succeeds, one poll removes the task from the queue,
  stores it as completed with its result, and removes its data and its processing mark.\<close>

theorem poll_completes_task:
  assumes "redis_server ex view pk" and "sys_ok (world_map view w) q dl" and "a_dequeue q = Some (t, q')"
    and "handler_result reg (length (w_runs w)) t = Inr j"
  shows "\<exists>w' t' r. run_state (pollAndExecute (WK ex i reg freq) Live s) w =
      ((s\<lparr>tasksProcessed := wrap64 (tasksProcessed s + 1)\<rparr>, None), w') \<and>
    sys_ok (world_map view w') q' dl \<and> w_runs w' = w_runs w @ [t_ID t] \<and>
    saved_task (view (w_db w')) (t_ID t) = Some t' \<and> t_State t' = StateCompleted \<and>
    saved_result (view (w_db w')) (t_ID t) = Some r \<and> r_Success r \<and> r_Output r = Some (Doc j) \<and>
    key_get (taskKey (t_ID t)) (view (w_db w')) = None \<and> key_get (processingKey (t_ID t)) (view (w_db w')) = None"
proof -
  from poll_success [OF assms(2,3), of reg j, where pk = pk and i = i and freq = freq and s = s] assms(4) obtain v t' r where
    run: "run_state (pollAndExecute (WK (redis_client pk) i reg freq) Live s) (world_map view w) =
      ((s\<lparr>tasksProcessed := wrap64 (tasksProcessed s + 1)\<rparr>, None), v)"
    and v: "evolves [t_ID t] [] (world_map view w) v" "sys_ok v q' dl" "saved_task (w_db v) (t_ID t) = Some t'"
      "t_State t' = StateCompleted" "saved_result (w_db v) (t_ID t) = Some r" "r_Success r" "r_Output r = Some (Doc j)"
      "key_get (taskKey (t_ID t)) (w_db v) = None" "key_get (processingKey (t_ID t)) (w_db v) = None"
    by auto
  from simulates_run [OF sim_pollAndExecute [OF assms(1)] run] obtain w' where
    "run_state (pollAndExecute (WK ex i reg freq) Live s) w =
      ((s\<lparr>tasksProcessed := wrap64 (tasksProcessed s + 1)\<rparr>, None), w')" and w': "world_map view w' = v" by blast
  moreover from w' v(1) have "w_runs w' = w_runs w @ [t_ID t]" by (auto simp: evolves_def)
  moreover from w' have "w_db v = view (w_db w')" by auto
  ultimately show ?thesis using v by (intro exI [of _ w'] exI [of _ t'] exI [of _ r]) simp
qed

theorem poll_completes_task_witness:
  "let t = sample_task ''a'' 1 3 in
   \<exists>w' t' r. run_state (pollAndExecute (WK (redis_client first_pick) ''w'' working_registry 1) Live
        \<lparr>tasksProcessed = 0, tasksFailed = 0, tasksRetried = 0\<rparr>) (one_task_world t) =
      ((\<lparr>tasksProcessed = 1, tasksFailed = 0, tasksRetried = 0\<rparr>, None), w') \<and>
    saved_task (w_db w') ''a'' = Some t' \<and> t_State t' = StateCompleted \<and>
    saved_result (w_db w') ''a'' = Some r \<and> r_Output r = Some (Doc (JStr ''sent''))"
  using poll_completes_task [OF redis_server_refl sample_world(1,2), of 3 working_registry "JStr ''sent''", where i = "''w''" and freq = 1
      and s = "\<lparr>tasksProcessed = 0, tasksFailed = 0, tasksRetried = 0\<rparr>" and pk = first_pick]
  by (simp add: wrap64_def in64_def) blast

text \<open>When the execution of the next task fails and it has retries left, one poll counts the
  failure, sleeps for the backoff of the incremented retry count and puts the task, marked as
  retrying with the error, at the tail of the queue of its priority.\<close>

theorem poll_retries_task:
  assumes "redis_server ex view pk" and "sys_ok (world_map view w) q dl" and "a_dequeue q = Some (t, q')"
    and "next_failure reg w t = Some e" and "t_RetryCount t < t_MaxRetries t"
  shows "\<exists>now w'. let t' = MarkFailed 0 e (MarkStarted now t) in
    run_state (pollAndExecute (WK ex i reg freq) Live s) w =
      ((s\<lparr>tasksFailed := wrap64 (tasksFailed s + 1), tasksRetried := wrap64 (tasksRetried s + 1)\<rparr>, None), w') \<and>
    sys_ok (world_map view w') (a_enqueue t' q') dl \<and> w_slept w' = w_slept w @ [GetRetryDelay t'] \<and>
    saved_task (view (w_db w')) (t_ID t) = Some t'"
proof -
  have "next_failure reg (world_map view w) t = Some e" using assms(4) by (simp add: next_failure_def)
  from poll_retry [OF assms(2,3) this assms(5), where pk = pk and i = i and freq = freq and s = s] obtain now v t' where
    t': "t' = MarkFailed 0 e (MarkStarted now t)"
    and run: "run_state (pollAndExecute (WK (redis_client pk) i reg freq) Live s) (world_map view w) =
      ((s\<lparr>tasksFailed := wrap64 (tasksFailed s + 1), tasksRetried := wrap64 (tasksRetried s + 1)\<rparr>, None), v)"
    and v: "evolves (handler_runs reg t) [GetRetryDelay t'] (world_map view w) v" "sys_ok v (a_enqueue t' q') dl"
      "saved_task (w_db v) (t_ID t) = Some t'"
    by (auto simp: Let_def)
  from simulates_run [OF sim_pollAndExecute [OF assms(1)] run] obtain w' where
    "run_state (pollAndExecute (WK ex i reg freq) Live s) w =
      ((s\<lparr>tasksFailed := wrap64 (tasksFailed s + 1), tasksRetried := wrap64 (tasksRetried s + 1)\<rparr>, None), w')"
    and w': "world_map view w' = v" by blast
  moreover from w' v(1) have "w_slept w' = w_slept w @ [GetRetryDelay t']" by (auto simp: evolves_def)
  moreover from w' have "w_db v = view (w_db w')" by auto
  ultimately show ?thesis using v t' w' by (intro exI [of _ now] exI [of _ w']) (simp add: Let_def)
qed

theorem poll_retries_task_witness:
  "let t = sample_task ''a'' 1 3 in
   \<exists>now w'. let t' = MarkFailed 0 (Err ''boom'') (MarkStarted now t) in
    run_state (pollAndExecute (WK (redis_client first_pick) ''w'' failing_registry 1) Live
        \<lparr>tasksProcessed = 0, tasksFailed = 0, tasksRetried = 0\<rparr>) (one_task_world t) =
      ((\<lparr>tasksProcessed = 0, tasksFailed = 1, tasksRetried = 1\<rparr>, None), w') \<and>
    sys_ok (world_map id w') (single t') [] \<and> w_slept w' = [GetRetryDelay t']"
  using poll_retries_task [OF redis_server_refl sample_world(1-3), of 3, where i = "''w''" and freq = 1
      and s = "\<lparr>tasksProcessed = 0, tasksFailed = 0, tasksRetried = 0\<rparr>" and pk = first_pick]
  by (simp add: wrap64_def Let_def single_ops(2) set_priorities sample_world in64_def) blast

text \<open>When the execution of the next task fails and its retries are used up, one poll moves it to
  the dead letter queue with the reason, and removes its data and its processing mark.\<close>

theorem poll_dead_letters_task:
  assumes "redis_server ex view pk" and "sys_ok (world_map view w) q dl" and "a_dequeue q = Some (t, q')"
    and "next_failure reg w t = Some e" and "t_MaxRetries t \<le> t_RetryCount t"
  shows "\<exists>u w'. run_state (pollAndExecute (WK ex i reg freq) Live s) w =
      ((s\<lparr>tasksFailed := wrap64 (tasksFailed s + 1)\<rparr>, None), w') \<and>
    sys_ok (world_map view w') q' (dl @ [u]) \<and> w_slept w' = w_slept w \<and>
    t_ID u = t_ID t \<and> t_State u = StateDeadLetter \<and> t_Error u = dlq_reason t e \<and>
    key_get (taskKey (t_ID t)) (view (w_db w')) = None \<and> key_get (processingKey (t_ID t)) (view (w_db w')) = None"
proof -
  have "next_failure reg (world_map view w) t = Some e" "\<not> t_RetryCount t < t_MaxRetries t"
    using assms(4,5) by (simp_all add: next_failure_def)
  from poll_dead [OF assms(2,3) this, where pk = pk and i = i and freq = freq and s = s] obtain now now' v where
    run: "run_state (pollAndExecute (WK (redis_client pk) i reg freq) Live s) (world_map view w) =
      ((s\<lparr>tasksFailed := wrap64 (tasksFailed s + 1)\<rparr>, None), v)"
    and v: "evolves (handler_runs reg t) [] (world_map view w) v"
      "sys_ok v q' (dl @ [dlq_task (MarkFailed now' e (MarkStarted now t)) (dlq_reason t e)])"
      "key_get (taskKey (t_ID t)) (w_db v) = None" "key_get (processingKey (t_ID t)) (w_db v) = None"
    by (auto simp: Let_def)
  let ?u = "dlq_task (MarkFailed now' e (MarkStarted now t)) (dlq_reason t e)"
  from simulates_run [OF sim_pollAndExecute [OF assms(1)] run] obtain w' where
    "run_state (pollAndExecute (WK ex i reg freq) Live s) w = ((s\<lparr>tasksFailed := wrap64 (tasksFailed s + 1)\<rparr>, None), w')"
    and w': "world_map view w' = v" by blast
  moreover from w' v(1) have "w_slept w' = w_slept w" by (auto simp: evolves_def)
  moreover from w' have "w_db v = view (w_db w')" by auto
  moreover have "t_Error ?u = dlq_reason t e" "t_State ?u = StateDeadLetter" "t_ID ?u = t_ID t"
    by (simp_all add: dlq_task_def dlq_reason_def Let_def)
  ultimately show ?thesis using v w' by (intro exI [of _ ?u] exI [of _ w']) simp
qed

theorem poll_dead_letters_task_witness:
  "let t = sample_task ''a'' 1 0 in
   \<exists>u w'. run_state (pollAndExecute (WK (redis_client first_pick) ''w'' failing_registry 1) Live
        \<lparr>tasksProcessed = 0, tasksFailed = 0, tasksRetried = 0\<rparr>) (one_task_world t) =
      ((\<lparr>tasksProcessed = 0, tasksFailed = 1, tasksRetried = 0\<rparr>, None), w') \<and>
    sys_ok (world_map id w') (\<lambda>_. []) [u] \<and> t_ID u = ''a''"
  using poll_dead_letters_task [OF redis_server_refl sample_world(1-3), of 0, where i = "''w''" and freq = 1
      and s = "\<lparr>tasksProcessed = 0, tasksFailed = 0, tasksRetried = 0\<rparr>" and pk = first_pick]
  by (simp add: wrap64_def in64_def) blast



text \<open>C4: Polling settles the queue: as many polls as the queued tasks have attempts left empty it,
  and then each task is finished or in the dead letter queue.\<close>

theorem polling_settles_all_tasks:
  assumes "redis_server ex view pk" and "sys_ok (world_map view w) q dl" and "budget q \<le> n"
  shows "\<exists>s' w' dl' fin. run_state (poll_n n (WK ex i reg freq) Live s) w = (s', w') \<and>
    (\<forall>p \<in> set priorities. list_at (qkey p) (view (w_db w')) = Some []) \<and>
    dlq_holds (view (w_db w')) dl' \<and> work q dl = mset (map t_ID dl') + mset fin \<and>
    (\<forall>j \<in> set fin. finished (view (w_db w')) j)"
proof -
  from poll_n_settles [OF assms(2,3), where pk = pk and i = i and reg = reg and freq = freq and s = s]
  obtain s' v q' dl' fin where
    run: "run_state (poll_n n (WK (redis_client pk) i reg freq) Live s) (world_map view w) = (s', v)" "sys_ok v q' dl'"
    and v: "\<forall>p \<in> set priorities. list_at (qkey p) (w_db v) = Some []" "work q dl = mset (map t_ID dl') + mset fin"
      "\<forall>j \<in> set fin. finished (w_db v) j" by blast
  from simulates_run [OF sim_poll_n [OF assms(1)] run(1)] obtain w' where
    w': "run_state (poll_n n (WK ex i reg freq) Live s) w = (s', w')" "world_map view w' = v" by blast
  then have "w_db v = view (w_db w')" by auto
  with w'(1) run(2) v show ?thesis by (auto simp: sys_defs)
qed

theorem polling_settles_all_tasks_witness:
  "let t = sample_task ''a'' 1 3 in
   \<exists>s' w' dl' fin. run_state (poll_n 4 (WK (redis_client first_pick) ''w'' failing_registry 1) Live
        \<lparr>tasksProcessed = 0, tasksFailed = 0, tasksRetried = 0\<rparr>) (one_task_world t) = (s', w') \<and>
     list_at (qkey 1) (w_db w') = Some [] \<and> dlq_holds (w_db w') dl' \<and> work (single t) [] = mset (map t_ID dl') + mset fin"
proof -
  have b: "budget (single (sample_task ''a'' 1 3)) \<le> 4"
    by (simp add: budget_def a_order_def single_def priorities_def attempts_left_def)
  from polling_settles_all_tasks [OF redis_server_refl sample_world(1) b, where i = "''w''" and freq = 1
      and reg = failing_registry and s = "\<lparr>tasksProcessed = 0, tasksFailed = 0, tasksRetried = 0\<rparr>" and pk = first_pick]
  show ?thesis by (simp add: in64_def set_priorities Let_def) blast
qed



text \<open>C35: When the worker's context is cancelled while a handler succeeds, the poll still counts the
  task as processed and returns nil, but neither the completion nor the acknowledgement is recorded:
  the task stays stored as processing, with its data and its processing mark, and in no queue.\<close>

theorem cancelled_completion_not_recorded:
  assumes "redis_server ex view pk" and "sys_inv (world_map view w) q dl" and "a_dequeue q = Some (t, q')"
    and "w_parent w (length (w_runs w) + 1) = Canceled" and "handler_result reg (length (w_runs w)) t = Inr j"
  shows "\<exists>t' w'. run_state (pollAndExecute (WK ex i reg freq) Live s) w =
      ((s\<lparr>tasksProcessed := wrap64 (tasksProcessed s + 1)\<rparr>, None), w') \<and>
    holds_queue (view (w_db w')) q' \<and> saved_task (view (w_db w')) (t_ID t) = Some t' \<and> t_State t' = StateProcessing \<and>
    task_stored (view (w_db w')) t \<and> key_get (processingKey (t_ID t)) (view (w_db w')) \<noteq> None"
proof -
  from poll_cancelled [OF assms(2,3), of reg j, where pk = pk and i = i and freq = freq and s = s] assms(4,5)
  obtain now v where
    run: "run_state (pollAndExecute (WK (redis_client pk) i reg freq) Live s) (world_map view w) =
      ((s\<lparr>tasksProcessed := wrap64 (tasksProcessed s + 1)\<rparr>, None), v)"
    and v: "sys_inv v q' dl" "saved_task (w_db v) (t_ID t) = Some (MarkStarted now t)" "task_stored (w_db v) t"
      "key_get (processingKey (t_ID t)) (w_db v) \<noteq> None"
    by auto
  from simulates_run [OF sim_pollAndExecute [OF assms(1)] run] obtain w' where
    "run_state (pollAndExecute (WK ex i reg freq) Live s) w =
      ((s\<lparr>tasksProcessed := wrap64 (tasksProcessed s + 1)\<rparr>, None), w')" "world_map view w' = v" by blast
  moreover then have "w_db v = view (w_db w')" by auto
  moreover have "t_State (MarkStarted now t) = StateProcessing" by (simp add: MarkStarted_def)
  ultimately show ?thesis using v by (intro exI [of _ "MarkStarted now t"] exI [of _ w']) (simp add: sys_inv_def)
qed

theorem cancelled_completion_not_recorded_witness:
  "let t = sample_task ''a'' 1 3 in
   \<exists>t' w'. run_state (pollAndExecute (WK (redis_client first_pick) ''w'' working_registry 1) Live
        \<lparr>tasksProcessed = 0, tasksFailed = 0, tasksRetried = 0\<rparr>) ((one_task_world t)\<lparr>w_parent := \<lambda>_. Canceled\<rparr>) =
      ((\<lparr>tasksProcessed = 1, tasksFailed = 0, tasksRetried = 0\<rparr>, None), w') \<and>
     holds_queue (w_db w') (\<lambda>_. []) \<and> saved_task (w_db w') ''a'' = Some t' \<and> t_State t' = ''processing'' \<and>
     task_stored (w_db w') t"
proof -
  let ?w = "(one_task_world (sample_task ''a'' 1 3))\<lparr>w_parent := \<lambda>_. Canceled\<rparr>"
  have sys: "sys_inv (world_map id ?w) (single (sample_task ''a'' 1 3)) []"
    using sample_world(1) [of 3] by (simp add: sys_defs clock_ok_def in64_def)
  from cancelled_completion_not_recorded [OF redis_server_refl sys sample_world(2), where i = "''w''" and freq = 1
      and s = "\<lparr>tasksProcessed = 0, tasksFailed = 0, tasksRetried = 0\<rparr>" and pk = first_pick and reg = working_registry]
  show ?thesis by (simp add: in64_def wrap64_def Let_def) blast
qed

end
