(* ===== verification/Spool_Http.thy ===== *)
theory Spool_Http
  imports Spool_Storage
begin

text \<open>
  The part of \<open>net/http\<close> that the broker and the dashboard use: a request, the response writer
  with its rule that the header is fixed by the first \<open>WriteHeader\<close> or \<open>Write\<close>, and
  \<open>ServeMux\<close>. A request body is its first JSON value, or text that has none; the paths are
  decoded paths; the body of a redirect and the query in its location are left out.
\<close>

section \<open>Definitions\<close>

record http_request =
  rq_Method :: string
  rq_Path :: string
  rq_Query :: "(string \<times> string) list"
  rq_Body :: blob
  rq_Context :: ctx

text \<open>\<open>hw_sent\<close>: the status and the header as they were when the header was written.\<close>

record http_writer =
  hw_header :: "(string \<times> string) list"
  hw_sent :: "(int \<times> (string \<times> string) list) option"
  hw_body :: "blob list"

definition new_writer :: http_writer where
  "new_writer = \<lparr>hw_header = [], hw_sent = None, hw_body = []\<rparr>"

definition Header_Set :: "string \<Rightarrow> string \<Rightarrow> http_writer \<Rightarrow> http_writer" where
  "Header_Set k v w = w\<lparr>hw_header := AList.update k v (hw_header w)\<rparr>"

definition WriteHeader :: "int \<Rightarrow> http_writer \<Rightarrow> http_writer" where
  "WriteHeader code w = (case hw_sent w of Some _ \<Rightarrow> w | None \<Rightarrow> w\<lparr>hw_sent := Some (code, hw_header w)\<rparr>)"

definition Write_Body :: "blob \<Rightarrow> http_writer \<Rightarrow> http_writer" where
  "Write_Body b w = (let w = WriteHeader 200 w in w\<lparr>hw_body := hw_body w @ [b]\<rparr>)"

definition text_plain :: string where
  "text_plain = ''text/plain; charset=utf-8''"

definition http_Error :: "string \<Rightarrow> int \<Rightarrow> http_writer \<Rightarrow> http_writer" where
  "http_Error msg code w =
     Write_Body (Text (msg @ [CHR 0x0A]))
       (WriteHeader code (Header_Set ''X-Content-Type-Options'' ''nosniff'' (Header_Set ''Content-Type'' text_plain w)))"

text \<open>\<open>json.NewEncoder(w).Encode(v)\<close>: a value that does not encode writes nothing.\<close>

definition Encode :: "gerr + json \<Rightarrow> http_writer \<Rightarrow> http_writer" where
  "Encode v w = (case v of Inl e \<Rightarrow> w | Inr j \<Rightarrow> Write_Body (Doc j) w)"

definition json_reply :: "json \<Rightarrow> http_writer \<Rightarrow> http_writer" where
  "json_reply j w = Encode (Inr j) (Header_Set ''Content-Type'' ''application/json'' w)"

text \<open>
  What the client receives: a handler that writes nothing gives 200 with an empty body; a body
  without a content type is sniffed (every such body here is JSON, which is taken for text).
\<close>

record http_response =
  rp_Status :: int
  rp_Header :: "(string \<times> string) list"
  rp_Body :: "blob list"

definition finish_response :: "http_writer \<Rightarrow> http_response" where
  "finish_response w =
     (let (code, h) = (case hw_sent w of Some x \<Rightarrow> x | None \<Rightarrow> (200, hw_header w));
          h = (if hw_body w \<noteq> [] \<and> map_of h ''Content-Type'' = None then AList.update ''Content-Type'' text_plain h else h)
      in \<lparr>rp_Status = code, rp_Header = h, rp_Body = hw_body w\<rparr>)"

type_synonym 's http_handler = "http_request \<Rightarrow> http_writer \<Rightarrow> ('s, http_writer) io"

subsection \<open>ServeMux\<close>

fun split_slash :: "string \<Rightarrow> string \<Rightarrow> string list" where
  "split_slash acc [] = [rev acc]"
| "split_slash acc (c # cs) = (if c = CHR ''/'' then rev acc # split_slash [] cs else split_slash (c # acc) cs)"

text \<open>\<open>path.Clean\<close> of a rooted path; \<open>st\<close> holds the elements kept so far, the last one first.\<close>

fun clean_elements :: "string list \<Rightarrow> string list \<Rightarrow> string list" where
  "clean_elements st [] = rev st"
| "clean_elements st (e # es) =
     (if e = [] \<or> e = ''.'' then clean_elements st es
      else if e = ''..'' then clean_elements (drop 1 st) es
      else clean_elements (e # st) es)"

definition clean_path :: "string \<Rightarrow> string" where
  "clean_path p =
     (let np = (case clean_elements [] (split_slash [] p) of [] \<Rightarrow> ''/'' | es \<Rightarrow> concat (map (\<lambda>e. CHR ''/'' # e) es))
      in if p \<noteq> [] \<and> last p = CHR ''/'' \<and> np \<noteq> ''/'' then np @ ''/'' else np)"

definition subtree :: "string \<Rightarrow> string \<Rightarrow> bool" where
  "subtree pat path \<longleftrightarrow> pat \<noteq> [] \<and> last pat = CHR ''/'' \<and> take (length pat) path = pat"

text \<open>An exact pattern, otherwise the longest pattern that ends in a slash and is a prefix.\<close>

fun longest_subtree :: "(string \<times> 'h) list \<Rightarrow> string \<Rightarrow> (string \<times> 'h) option" where
  "longest_subtree [] path = None"
| "longest_subtree ((pat, h) # pats) path =
     (case longest_subtree pats path of
        None \<Rightarrow> if subtree pat path then Some (pat, h) else None
      | Some (pat', h') \<Rightarrow>
          if subtree pat path \<and> length pat' < length pat then Some (pat, h) else Some (pat', h'))"

definition mux_find :: "(string \<times> 'h) list \<Rightarrow> string \<Rightarrow> 'h option" where
  "mux_find pats path =
     (case map_of pats path of Some h \<Rightarrow> Some h | None \<Rightarrow> map_option snd (longest_subtree pats path))"

text \<open>A path that is not registered, but is with a slash at its end, is redirected there, and so is a
  path that is not clean to its clean form (the latter not for \<open>CONNECT\<close>).\<close>

definition redirect_to :: "string \<Rightarrow> http_writer \<Rightarrow> http_writer" where
  "redirect_to p w = WriteHeader 301 (Header_Set ''Location'' p w)"

definition add_slash :: "(string \<times> 'h) list \<Rightarrow> string \<Rightarrow> bool" where
  "add_slash pats p \<longleftrightarrow> map_of pats p = None \<and> p \<noteq> [] \<and> last p \<noteq> CHR ''/'' \<and> map_of pats (p @ ''/'') \<noteq> None"

definition mux_route :: "(string \<times> 'h) list \<Rightarrow> http_request \<Rightarrow> http_writer \<Rightarrow> http_writer + 'h" where
  "mux_route pats r w =
     (let p = (if rq_Method r = ''CONNECT'' then rq_Path r else clean_path (rq_Path r))
      in if add_slash pats p then Inl (redirect_to (clean_path (rq_Path r) @ ''/'') w)
         else if p \<noteq> rq_Path r then Inl (redirect_to p w)
         else
           (case mux_find pats (rq_Path r) of
              None \<Rightarrow> Inl (http_Error ''404 page not found'' 404 w)
            | Some h \<Rightarrow> Inr h))"

definition serve_mux :: "(string \<times> 's http_handler) list \<Rightarrow> 's http_handler" where
  "serve_mux pats r w = (case mux_route pats r w of Inl w' \<Rightarrow> ret w' | Inr h \<Rightarrow> h r w)"

definition serve :: "'s http_handler \<Rightarrow> http_request \<Rightarrow> ('s, http_response) io" where
  "serve h r = do { w \<leftarrow> h r new_writer; ret (finish_response w) }"

text \<open>Requests for the concrete instances of the theorems.\<close>

definition get_request :: "string \<Rightarrow> http_request" where
  "get_request p = \<lparr>rq_Method = ''GET'', rq_Path = p, rq_Query = [], rq_Body = Text [], rq_Context = Live\<rparr>"

definition post_request :: "string \<Rightarrow> blob \<Rightarrow> http_request" where
  "post_request p b = \<lparr>rq_Method = ''POST'', rq_Path = p, rq_Query = [], rq_Body = b, rq_Context = Live\<rparr>"

section \<open>Lemmas\<close>

text \<open>The header of a response is the one of the first write.\<close>

lemma WriteHeader_first: "hw_sent w = None \<Longrightarrow> hw_sent (WriteHeader c w) = Some (c, hw_header w)"
  by (simp add: WriteHeader_def)

lemma writer_simps [simp]:
  "hw_sent (Header_Set k v w) = hw_sent w" "hw_body (Header_Set k v w) = hw_body w"
  "hw_header (Header_Set k v w) = AList.update k v (hw_header w)"
  "hw_header (WriteHeader c w) = hw_header w" "hw_body (WriteHeader c w) = hw_body w"
  "hw_body (Write_Body b w) = hw_body w @ [b]" "hw_header (Write_Body b w) = hw_header w"
  "hw_sent (Write_Body b w) = hw_sent (WriteHeader 200 w)"
  by (simp_all add: Header_Set_def WriteHeader_def Write_Body_def Let_def split: option.split)

lemma sent_simps [simp]:
  "hw_sent (WriteHeader c w) = (case hw_sent w of Some x \<Rightarrow> Some x | None \<Rightarrow> Some (c, hw_header w))"
  by (simp add: WriteHeader_def split: option.split)

lemma new_writer_simps [simp]: "hw_sent new_writer = None" "hw_body new_writer = []" "hw_header new_writer = []"
  by (simp_all add: new_writer_def)

text \<open>Headers that are set before anything is written reach the client.\<close>

definition sends :: "string \<Rightarrow> string \<Rightarrow> http_writer \<Rightarrow> bool" where
  "sends k v w \<longleftrightarrow> map_of (case hw_sent w of Some (_, h) \<Rightarrow> h | None \<Rightarrow> hw_header w) k = Some v"

lemma sends_keeps:
  assumes "sends k v w"
  shows "sends k v (WriteHeader c w)" and "sends k v (Write_Body b w)"
    and "k \<noteq> k' \<Longrightarrow> sends k v (Header_Set k' v' w)"
    and "k \<noteq> ''Content-Type'' \<Longrightarrow> k \<noteq> ''X-Content-Type-Options'' \<Longrightarrow> sends k v (http_Error msg c w)"
    and "k \<noteq> ''Content-Type'' \<Longrightarrow> map_of (rp_Header (finish_response w)) k = Some v"
  using assms
  by (auto simp: sends_def http_Error_def finish_response_def Let_def update_conv' split: option.splits prod.splits)

lemma longest_subtree_mem: "longest_subtree pats path = Some ph \<Longrightarrow> ph \<in> set pats"
  by (induction pats arbitrary: ph) (auto split: option.splits if_splits)

lemma mux_find_mem: "mux_find pats path = Some h \<Longrightarrow> h \<in> snd ` set pats"
  using longest_subtree_mem [of pats path]
  by (force simp: mux_find_def split: option.splits dest: map_of_SomeD)

text \<open>A route is a redirect, a 404 or a registered handler.\<close>

lemma mux_route_cases:
  "(\<exists>p. mux_route pats r w = Inl (redirect_to p w)) \<or> mux_route pats r w = Inl (http_Error ''404 page not found'' 404 w) \<or>
   (\<exists>h \<in> snd ` set pats. mux_route pats r w = Inr h)"
proof (cases "mux_find pats (rq_Path r)")
  case None
  then show ?thesis by (auto simp: mux_route_def Let_def)
next
  case (Some h)
  from mux_find_mem [OF this] Some show ?thesis by (simp add: mux_route_def Let_def) blast
qed

lemma serve_mux_rule:
  assumes "\<And>p. P (ret (redirect_to p w))" and "P (ret (http_Error ''404 page not found'' 404 w))"
    and "\<And>h. h \<in> snd ` set pats \<Longrightarrow> P (h r w)"
  shows "P (serve_mux pats r w)"
  using mux_route_cases [of pats r w] assms by (metis serve_mux_def sum.simps(5,6))

lemma mux_route_plain:
  assumes "clean_path (rq_Path r) = rq_Path r" and "\<not> add_slash pats (rq_Path r)" and "mux_find pats (rq_Path r) = Some h"
  shows "mux_route pats r w = Inr h"
  using assms by (simp add: mux_route_def)

lemma sim_serve_mux [sim_intros]:
  assumes "list_all2 (\<lambda>p p'. fst p = fst p' \<and> (\<forall>r w. simulates f (snd p r w) (snd p' r w))) pats pats'"
  shows "simulates f (serve_mux pats r w) (serve_mux pats' r w)"
proof -
  have exact: "rel_option (\<lambda>h h'. \<forall>r w. simulates f (h r w) (h' r w)) (map_of pats k) (map_of pats' k)" for k
    using assms by (induction rule: list_all2_induct) (auto simp: map_of_Cons_code)
  have sub: "rel_option (\<lambda>p p'. fst p = fst p' \<and> (\<forall>r w. simulates f (snd p r w) (snd p' r w)))
      (longest_subtree pats k) (longest_subtree pats' k)" for k
    using assms by (induction rule: list_all2_induct) (auto split: option.splits simp: option_rel_Some1 option_rel_Some2)
  have "rel_option (\<lambda>h h'. \<forall>r w. simulates f (h r w) (h' r w)) (mux_find pats (rq_Path r)) (mux_find pats' (rq_Path r))"
    using exact [of "rq_Path r"] sub [of "rq_Path r"]
    by (auto simp: mux_find_def option_rel_Some1 option_rel_Some2 split: option.splits elim!: option.rel_cases)
  moreover have "add_slash pats p = add_slash pats' p" for p
  proof -
    have "(map_of pats k = None) = (map_of pats' k = None)" for k
      using exact [of k] by (auto elim: option.rel_cases)
    then show ?thesis by (simp add: add_slash_def)
  qed
  ultimately show ?thesis
    unfolding serve_mux_def mux_route_def Let_def
    by (cases rule: option.rel_cases) (simp_all add: simulates_return)
qed

subsection \<open>Operations that only read\<close>

text \<open>An operation that leaves every key of the database alone (the choices of \<open>SRANDMEMBER\<close> are counted).\<close>

definition only_reads :: "('s \<Rightarrow> db) \<Rightarrow> ('s, 'a) io \<Rightarrow> bool" where
  "only_reads view m \<longleftrightarrow> (\<forall>w. keyspace (view (w_db (snd (run_state m w)))) = keyspace (view (w_db w)))"

named_theorems reads_intros \<open>composition rules of operations that only read\<close>

fun read_cmd :: "cmd \<Rightarrow> bool" where
  "read_cmd PING = True"
| "read_cmd (GET k) = True"
| "read_cmd (LINDEX k i) = True"
| "read_cmd (LLEN k) = True"
| "read_cmd (LRANGE k i j) = True"
| "read_cmd (SMEMBERS k) = True"
| "read_cmd (SRANDMEMBER k n) = True"
| "read_cmd (SCAN k) = True"
| "read_cmd _ = False"

lemma only_reads_basic [reads_intros]:
  "only_reads view (ret a)" "only_reads view time_Now"
  by (simp_all add: only_reads_def run_simps)

lemma only_reads_bind [reads_intros]:
  "only_reads view m \<Longrightarrow> (\<And>a. only_reads view (g a)) \<Longrightarrow> only_reads view (State_Monad.bind m g)"
  unfolding only_reads_def by (simp add: run_simps split: prod.split) (metis snd_conv)

lemma only_reads_cases [reads_intros]:
  "(b \<Longrightarrow> only_reads view m) \<Longrightarrow> (\<not> b \<Longrightarrow> only_reads view n) \<Longrightarrow> only_reads view (if b then m else n)"
  "(\<And>a. only_reads view (g a)) \<Longrightarrow> (\<And>b. only_reads view (h b)) \<Longrightarrow>
     only_reads view (case s of Inl a \<Rightarrow> g a | Inr b \<Rightarrow> h b)"
  "only_reads view m \<Longrightarrow> (\<And>b. only_reads view (h b)) \<Longrightarrow> only_reads view (case t of None \<Rightarrow> m | Some b \<Rightarrow> h b)"
  "(\<And>a b. only_reads view (k a b)) \<Longrightarrow> only_reads view (case p of (a, b) \<Rightarrow> k a b)"
  "(\<And>a. only_reads view (g a)) \<Longrightarrow> only_reads view (let a = x in g a)"
  by (simp_all split: sum.split option.split prod.split)

lemma redis_step_reads: "read_cmd x \<Longrightarrow> keyspace (snd (redis_client pk c x d)) = keyspace d"
  by (cases x) (auto simp: redis_client_def split: option.split rval.split list.split)

lemma only_reads_redis_do [reads_intros]:
  assumes "redis_server ex view pk" and "read_cmd x"
  shows "only_reads view (redis_do ex c x)"
proof -
  have "keyspace (view (snd (ex c x s))) = keyspace (view s)" for s
    using assms(1) redis_step_reads [OF assms(2), of pk c "view s"] by (simp add: redis_server_def)
  then show ?thesis by (simp add: only_reads_def run_simps)
qed

lemma only_reads_size_loop [reads_intros]:
  "redis_server ex view pk \<Longrightarrow> only_reads view (size_loop (RQ ex) c ks n)"
  by (induction ks arbitrary: n) (auto intro!: reads_intros)

lemma only_reads_GetTask [reads_intros]: "redis_server ex view pk \<Longrightarrow> only_reads view (GetTask (RS ex) c i)"
  unfolding GetTask_def by (auto intro!: reads_intros)

lemma only_reads_get_tasks [reads_intros]: "redis_server ex view pk \<Longrightarrow> only_reads view (get_tasks (RS ex) c bs)"
  by (induction bs) (auto intro!: reads_intros split: option.split)

lemma only_reads_ops [reads_intros]:
  assumes "redis_server ex view pk"
  shows "only_reads view (Size (RQ ex) c)" "only_reads view (GetDLQSize (RQ ex) c)"
    "only_reads view (Health (RQ ex) c)" "only_reads view (GetTasksByState (RS ex) c st n)"
    "only_reads view (GetDLQTasks (RQ ex) c n)"
  unfolding Size_def GetDLQSize_def Health_def GetTasksByState_def GetDLQTasks_def
  using assms by (auto intro!: reads_intros)

end
