(* ===== verification/Spool_Broker.thy ===== *)
theory Spool_Broker
  imports Spool_Http
begin

text \<open>
  \<open>internal/broker/broker.go\<close>: the HTTP interface for submitting and querying tasks. Each
  handler is a function of the request and the response writer; log output is left out.
  Members of a JSON object that comes from a Go map are in the order of their keys.
\<close>

section \<open>Definitions\<close>

record 's Broker =
  b_addr :: string
  b_queue :: "'s RedisQueue"
  b_storage :: "'s RedisStorage option"

definition NewBroker :: "string \<Rightarrow> 's RedisQueue \<Rightarrow> 's RedisStorage option \<Rightarrow> 's Broker" where
  "NewBroker addr q st = \<lparr>b_addr = (if addr = [] then '':8000'' else addr), b_queue = q, b_storage = st\<rparr>"

subsection \<open>Handlers\<close>

definition handleSubmit :: "'s Broker \<Rightarrow> 's http_handler" where
  "handleSubmit b r w =
     (case unmarshal_task (rq_Body r) of
        Inl e \<Rightarrow> ret (http_Error ''Invalid task format'' 400 w)
      | Inr t \<Rightarrow> do {
          e \<leftarrow> Enqueue (b_queue b) (rq_Context r) (Some t);
          (case e of
             Some _ \<Rightarrow> ret (http_Error ''Failed to enqueue task'' 500 w)
           | None \<Rightarrow> do {
               let w = WriteHeader 201 (Header_Set ''Content-Type'' ''application/json'' w);
               ret (Encode (Inr (JObj [(''id'', JStr (t_ID t)), (''status'', JStr ''enqueued'')])) w)
             })
        })"

text \<open>The loop over the tasks of a batch: the identifiers of those that were enqueued.\<close>

primrec enqueue_batch :: "'s RedisQueue \<Rightarrow> ctx \<Rightarrow> task list \<Rightarrow> ('s, string list) io" where
  "enqueue_batch q c [] = ret []"
| "enqueue_batch q c (t # ts) = do {
     e \<leftarrow> Enqueue q c (Some t);
     ids \<leftarrow> enqueue_batch q c ts;
     ret (case e of Some _ \<Rightarrow> ids | None \<Rightarrow> t_ID t # ids)
   }"

definition batch_reply :: "string list \<Rightarrow> nat \<Rightarrow> json" where
  "batch_reply ids n =
     JObj [(''enqueued'', JNum (int (length ids))), (''ids'', JArr (map JStr ids)), (''total'', JNum (int n))]"

definition handleBatchSubmit :: "'s Broker \<Rightarrow> 's http_handler" where
  "handleBatchSubmit b r w =
     (if rq_Method r \<noteq> ''POST'' then ret (http_Error ''Method not allowed'' 405 w)
      else
        (case unmarshal_slice unmarshal_task (rq_Body r) of
           Inl e \<Rightarrow> ret (http_Error ''Invalid task format'' 400 w)
         | Inr tasks \<Rightarrow> do {
             ids \<leftarrow> enqueue_batch (b_queue b) (rq_Context r) tasks;
             let w = WriteHeader 201 (Header_Set ''Content-Type'' ''application/json'' w);
             ret (Encode (Inr (batch_reply ids (length tasks))) w)
           }))"

fun marshal_all :: "task list \<Rightarrow> gerr + json list" where
  "marshal_all [] = Inr []"
| "marshal_all (t # ts) =
     (case marshal_task t of Inl e \<Rightarrow> Inl e
      | Inr j \<Rightarrow> (case marshal_all ts of Inl e \<Rightarrow> Inl e | Inr js \<Rightarrow> Inr (j # js)))"

definition list_reply :: "task list \<Rightarrow> gerr + json" where
  "list_reply tasks =
     (case marshal_all tasks of Inl e \<Rightarrow> Inl e
      | Inr js \<Rightarrow> Inr (JObj [(''tasks'', JArr js), (''total'', JNum (int (length tasks)))]))"

definition handleList :: "'s Broker \<Rightarrow> 's http_handler" where
  "handleList b r w =
     (case b_storage b of
        None \<Rightarrow> ret (http_Error ''Storage not configured'' 503 w)
      | Some st \<Rightarrow> do {
          x \<leftarrow> GetTasksByState st (rq_Context r) StatePending 50;
          (case x of
             Inl e \<Rightarrow> ret (http_Error ''Failed to list tasks'' 500 w)
           | Inr tasks \<Rightarrow> ret (Encode (list_reply tasks) (Header_Set ''Content-Type'' ''application/json'' w)))
        })"

definition Broker_handleTasks :: "'s Broker \<Rightarrow> 's http_handler" where
  "Broker_handleTasks b r w =
     (if rq_Method r = ''POST'' then handleSubmit b r w
      else if rq_Method r = ''GET'' then handleList b r w
      else ret (http_Error ''Method not allowed'' 405 w))"

definition handleTaskByID :: "'s Broker \<Rightarrow> 's http_handler" where
  "handleTaskByID b r w =
     (if rq_Method r \<noteq> ''GET'' then ret (http_Error ''Method not allowed'' 405 w)
      else
        (let taskID = drop (length ''/api/tasks/'') (rq_Path r)
         in if taskID = [] then ret (http_Error ''Task ID required'' 400 w)
            else
              (case b_storage b of
                 None \<Rightarrow> ret (http_Error ''Storage not configured'' 503 w)
               | Some st \<Rightarrow> do {
                   x \<leftarrow> GetTask st (rq_Context r) taskID;
                   (case x of
                      Inl e \<Rightarrow> ret (http_Error ''Task not found'' 404 w)
                    | Inr t \<Rightarrow> ret (Encode (marshal_task t) (Header_Set ''Content-Type'' ''application/json'' w)))
                 })))"

text \<open>\<open>time.Now().Format(time.RFC3339)\<close>: an instant in whole seconds.\<close>

definition stamp :: "int \<Rightarrow> json" where
  "stamp now = JTime (now - now mod Second)"

definition handleQueueStats :: "'s Broker \<Rightarrow> 's http_handler" where
  "handleQueueStats b r w =
     (if rq_Method r \<noteq> ''GET'' then ret (http_Error ''Method not allowed'' 405 w)
      else do {
        x \<leftarrow> Size (b_queue b) (rq_Context r);
        (case x of
           Inl e \<Rightarrow> ret (http_Error ''Failed to get queue stats'' 500 w)
         | Inr sz \<Rightarrow> do {
             y \<leftarrow> GetDLQSize (b_queue b) (rq_Context r);
             let dlq = (case y of Inl _ \<Rightarrow> 0 | Inr n \<Rightarrow> n);
             now \<leftarrow> time_Now;
             ret (json_reply (JObj [(''dlq_size'', JNum dlq), (''queue_size'', JNum sz), (''timestamp'', stamp now)]) w)
           })
      })"

definition handlePurge :: "'s Broker \<Rightarrow> 's http_handler" where
  "handlePurge b r w =
     (if rq_Method r \<noteq> ''POST'' then ret (http_Error ''Method not allowed'' 405 w)
      else do {
        e \<leftarrow> Purge (b_queue b) (rq_Context r);
        (case e of
           Some _ \<Rightarrow> ret (http_Error ''Failed to purge queue'' 500 w)
         | None \<Rightarrow> ret (json_reply (JObj [(''status'', JStr ''purged'')]) w))
      })"

definition Broker_handleHealth :: "'s Broker \<Rightarrow> 's http_handler" where
  "Broker_handleHealth b r w = do {
     now \<leftarrow> time_Now;
     e \<leftarrow> Health (b_queue b) (rq_Context r);
     (case e of
        Some err \<Rightarrow>
          ret (json_reply (JObj [(''queue_error'', JStr (err_Error err)), (''status'', JStr ''unhealthy''), (''timestamp'', stamp now)])
            (WriteHeader 503 w))
      | None \<Rightarrow> ret (json_reply (JObj [(''status'', JStr ''healthy''), (''timestamp'', stamp now)]) w))
   }"

subsection \<open>Middleware and server\<close>

definition withCORS :: "'s http_handler \<Rightarrow> 's http_handler" where
  "withCORS next r w =
     (let w = Header_Set ''Access-Control-Allow-Origin'' ''*'' w;
          w = Header_Set ''Access-Control-Allow-Methods'' ''GET, POST, PUT, DELETE, OPTIONS'' w;
          w = Header_Set ''Access-Control-Allow-Headers'' ''Content-Type, Authorization'' w
      in if rq_Method r = ''OPTIONS'' then ret (WriteHeader 200 w) else next r w)"

text \<open>Only the readings of the clock remain of the logging.\<close>

definition withLogging :: "'s http_handler \<Rightarrow> 's http_handler" where
  "withLogging next r w = do { start \<leftarrow> time_Now; w \<leftarrow> next r w; now \<leftarrow> time_Now; ret w }"

definition broker_mux :: "'s Broker \<Rightarrow> (string \<times> 's http_handler) list" where
  "broker_mux b =
     [(''/api/tasks'', Broker_handleTasks b), (''/api/tasks/batch'', handleBatchSubmit b),
      (''/api/tasks/'', handleTaskByID b), (''/api/queue/stats'', handleQueueStats b),
      (''/api/queue/purge'', handlePurge b), (''/health'', Broker_handleHealth b)]"

definition broker_handler :: "'s Broker \<Rightarrow> 's http_handler" where
  "broker_handler b = withLogging (withCORS (serve_mux (broker_mux b)))"

text \<open>
  The state of \<open>Start\<close> and \<open>Stop\<close>: whether the server exists, and which channels are closed.
  \<open>None\<close>: the call panics, closing a closed channel. \<open>shutdown\<close> is what \<open>server.Shutdown\<close>
  returns.
\<close>

record broker_server =
  bs_server :: bool
  bs_ready :: bool
  bs_done :: bool

definition Broker_Start :: "broker_server \<Rightarrow> broker_server option" where
  "Broker_Start s =
     (let s = s\<lparr>bs_server := True\<rparr> in if bs_ready s then None else Some (s\<lparr>bs_ready := True\<rparr>))"

definition Broker_Stop :: "(ctx \<Rightarrow> gerr option) \<Rightarrow> ctx \<Rightarrow> broker_server \<Rightarrow> (gerr option \<times> broker_server) option" where
  "Broker_Stop shutdown c s =
     (if bs_done s then None
      else (let s = s\<lparr>bs_done := True\<rparr> in if \<not> bs_server s then Some (None, s) else Some (shutdown c, s)))"

section \<open>Lemmas\<close>

abbreviation (input) BR :: "'s client \<Rightarrow> 's Broker" where
  "BR ex \<equiv> \<lparr>b_addr = '':8000'', b_queue = RQ ex, b_storage = Some (RS ex)\<rparr>"

lemma sim_enqueue_batch [sim_intros]:
  assumes "redis_server ex view pk"
  shows "simulates view (enqueue_batch (RQ ex) c ts) (enqueue_batch (RQ (redis_client pk)) c ts)"
  by (induction ts) (simp_all only: enqueue_batch.simps, (intro sim_intros assms; assumption)+)

lemma sim_handlers [sim_intros]:
  assumes "redis_server ex view pk"
  shows "simulates view (handleSubmit (BR ex) r w) (handleSubmit (BR (redis_client pk)) r w)"
    and "simulates view (handleBatchSubmit (BR ex) r w) (handleBatchSubmit (BR (redis_client pk)) r w)"
    and "simulates view (handleList (BR ex) r w) (handleList (BR (redis_client pk)) r w)"
    and "simulates view (handleTaskByID (BR ex) r w) (handleTaskByID (BR (redis_client pk)) r w)"
    and "simulates view (handleQueueStats (BR ex) r w) (handleQueueStats (BR (redis_client pk)) r w)"
    and "simulates view (handlePurge (BR ex) r w) (handlePurge (BR (redis_client pk)) r w)"
    and "simulates view (Broker_handleHealth (BR ex) r w) (Broker_handleHealth (BR (redis_client pk)) r w)"
  unfolding handleSubmit_def handleBatchSubmit_def handleList_def handleTaskByID_def handleQueueStats_def
    handlePurge_def Broker_handleHealth_def Broker.simps option.simps
  by (intro sim_intros assms)+

lemma sim_broker [sim_intros]:
  assumes "redis_server ex view pk"
  shows "simulates view (serve (broker_handler (BR ex)) r) (serve (broker_handler (BR (redis_client pk))) r)"
proof -
  have "simulates view (Broker_handleTasks (BR ex) r w) (Broker_handleTasks (BR (redis_client pk)) r w)" for r w
    unfolding Broker_handleTasks_def by (intro sim_intros assms)
  with sim_handlers [OF assms] have "list_all2 (\<lambda>p p'. fst p = fst p' \<and> (\<forall>r w. simulates view (snd p r w) (snd p' r w)))
      (broker_mux (BR ex)) (broker_mux (BR (redis_client pk)))"
    by (simp add: broker_mux_def)
  note mux = this
  show ?thesis
    unfolding serve_def broker_handler_def withLogging_def withCORS_def by (intro sim_intros mux)
qed

text \<open>Routing, on the paths the broker serves.\<close>

lemma clean_broker_paths:
  "clean_path ''/api/tasks'' = ''/api/tasks''" "clean_path ''/api/tasks/batch'' = ''/api/tasks/batch''"
  "clean_path ''/api/queue/purge'' = ''/api/queue/purge''" "clean_path ''/health'' = ''/health''"
  by code_simp+

definition cors_writer :: http_writer where
  "cors_writer = \<lparr>hw_header = [(''Access-Control-Allow-Origin'', ''*''),
      (''Access-Control-Allow-Methods'', ''GET, POST, PUT, DELETE, OPTIONS''),
      (''Access-Control-Allow-Headers'', ''Content-Type, Authorization'')], hw_sent = None, hw_body = []\<rparr>"

lemma run_serve:
  "run_state (serve (broker_handler b) r) w =
     (let v = w\<lparr>w_tick := Suc (w_tick w)\<rparr>;
          (hw, u) = (if rq_Method r = ''OPTIONS'' then (WriteHeader 200 cors_writer, v)
            else run_state (serve_mux (broker_mux b) r cors_writer) v)
      in (finish_response hw, u\<lparr>w_tick := Suc (w_tick u)\<rparr>))"
proof -
  have "Header_Set ''Access-Control-Allow-Headers'' ''Content-Type, Authorization''
      (Header_Set ''Access-Control-Allow-Methods'' ''GET, POST, PUT, DELETE, OPTIONS''
        (Header_Set ''Access-Control-Allow-Origin'' ''*'' new_writer)) = cors_writer"
    by (simp add: cors_writer_def Header_Set_def new_writer_def)
  then show ?thesis
    by (auto simp: serve_def broker_handler_def withLogging_def withCORS_def run_simps Let_def split: prod.splits)
qed

text \<open>Every handler keeps a header it does not set itself.\<close>

definition keeps_header :: "string \<Rightarrow> string \<Rightarrow> ('s, http_writer) io \<Rightarrow> bool" where
  "keeps_header k v m \<longleftrightarrow> (\<forall>w. sends k v (fst (run_state m w)))"

lemma keeps_header_ret: "keeps_header k v (ret hw) \<longleftrightarrow> sends k v hw"
  by (simp add: keeps_header_def)

lemma keeps_header_bind: "(\<And>a. keeps_header k v (g a)) \<Longrightarrow> keeps_header k v (State_Monad.bind m g)"
  by (simp add: keeps_header_def run_simps split: prod.split)

lemma keeps_header_cases:
  "(b \<Longrightarrow> keeps_header k v m) \<Longrightarrow> (\<not> b \<Longrightarrow> keeps_header k v n) \<Longrightarrow> keeps_header k v (if b then m else n)"
  "(\<And>a. keeps_header k v (g a)) \<Longrightarrow> (\<And>b. keeps_header k v (h b)) \<Longrightarrow> keeps_header k v (case s of Inl a \<Rightarrow> g a | Inr b \<Rightarrow> h b)"
  "keeps_header k v m \<Longrightarrow> (\<And>b. keeps_header k v (h b)) \<Longrightarrow> keeps_header k v (case t of None \<Rightarrow> m | Some b \<Rightarrow> h b)"
  "(\<And>a. keeps_header k v (g a)) \<Longrightarrow> keeps_header k v (let a = x in g a)"
  by (simp_all split: sum.split option.split)

lemma sends_replies:
  assumes "sends k v w" and "k \<noteq> ''Content-Type''"
  shows "sends k v (Encode x w)" and "sends k v (json_reply j w)"
  using assms sends_keeps [of k v] by (auto simp: Encode_def json_reply_def split: sum.split)

lemma handlers_keep_headers:
  assumes "sends k v hw" and "k \<noteq> ''Content-Type''" and "k \<noteq> ''X-Content-Type-Options''" and "h \<in> snd ` set (broker_mux b)"
  shows "keeps_header k v (h r hw)"
proof -
  note keeps = sends_keeps(4) [OF assms(1-3)] sends_keeps(1) [OF assms(1)] sends_keeps(1) [OF sends_keeps(3) [OF assms(1,2)]]
    sends_keeps(3) [OF assms(1,2)]
  have "keeps_header k v (handleSubmit b r hw)" "keeps_header k v (handleBatchSubmit b r hw)"
    "keeps_header k v (handleList b r hw)" "keeps_header k v (handleTaskByID b r hw)"
    "keeps_header k v (handleQueueStats b r hw)" "keeps_header k v (handlePurge b r hw)"
    "keeps_header k v (Broker_handleHealth b r hw)"
    unfolding handleSubmit_def handleBatchSubmit_def handleList_def handleTaskByID_def handleQueueStats_def
      handlePurge_def Broker_handleHealth_def Let_def
    by (auto intro!: keeps_header_cases keeps_header_bind keeps sends_replies assms simp: keeps_header_ret Let_def)
  moreover from this have "keeps_header k v (Broker_handleTasks b r hw)"
    unfolding Broker_handleTasks_def by (auto intro!: keeps_header_cases keeps simp: keeps_header_ret)
  ultimately show ?thesis using assms(4) by (auto simp: broker_mux_def)
qed

lemma mux_keeps_headers:
  assumes "sends k v hw" and "k \<noteq> ''Content-Type''" and "k \<noteq> ''X-Content-Type-Options''" and "k \<noteq> ''Location''"
  shows "sends k v (fst (run_state (serve_mux (broker_mux b) r hw) w))"
proof -
  have "sends k v (redirect_to p hw)" "sends k v (http_Error msg c hw)" for p msg c
    using sends_keeps(4) [OF assms(1-3)] sends_keeps(1) [OF sends_keeps(3) [OF assms(1,4)]] by (auto simp: redirect_to_def)
  moreover have "sends k v (fst (run_state (h r hw) w))" if "h \<in> snd ` set (broker_mux b)" for h
    using handlers_keep_headers [OF assms(1-3) that] by (simp add: keeps_header_def)
  ultimately show ?thesis
    using serve_mux_rule [of "\<lambda>m. sends k v (fst (run_state m w))"] by simp
qed

text \<open>The handlers that a request other than \<open>POST\<close> reaches only read.\<close>

lemma handlers_only_read:
  assumes "redis_server ex view pk" and "rq_Method r \<noteq> ''POST''" and "h \<in> snd ` set (broker_mux (BR ex))"
  shows "only_reads view (h r hw)"
proof -
  have "only_reads view (handleList (BR ex) r hw)" "only_reads view (handleTaskByID (BR ex) r hw)"
    "only_reads view (handleQueueStats (BR ex) r hw)" "only_reads view (Broker_handleHealth (BR ex) r hw)"
    unfolding handleList_def handleTaskByID_def handleQueueStats_def Broker_handleHealth_def
    using assms(1) by (auto intro!: reads_intros)
  moreover from this assms(2) have "only_reads view (Broker_handleTasks (BR ex) r hw)"
    "only_reads view (handleBatchSubmit (BR ex) r hw)" "only_reads view (handlePurge (BR ex) r hw)"
    unfolding Broker_handleTasks_def handleBatchSubmit_def handlePurge_def by (auto intro!: reads_intros)
  ultimately show ?thesis using assms(3) by (auto simp: broker_mux_def)
qed

lemma mux_only_reads:
  assumes "redis_server ex view pk" and "rq_Method r \<noteq> ''POST''"
  shows "only_reads view (serve_mux (broker_mux (BR ex)) r hw)"
  by (rule serve_mux_rule) (intro reads_intros handlers_only_read [OF assms]; assumption)+

lemma serve_only_reads:
  assumes "redis_server ex view pk" and "rq_Method r \<noteq> ''POST''"
  shows "only_reads view (serve (broker_handler (BR ex)) r)"
  unfolding serve_def broker_handler_def withLogging_def withCORS_def
  by (intro reads_intros mux_only_reads [OF assms])

lemma serve_sends_CORS:
  "map_of (rp_Header (fst (run_state (serve (broker_handler b) r) w))) ''Access-Control-Allow-Origin'' = Some ''*''"
proof -
  have cors: "sends ''Access-Control-Allow-Origin'' ''*'' cors_writer" by (simp add: sends_def cors_writer_def)
  define hw where "hw = fst (if rq_Method r = ''OPTIONS'' then (WriteHeader 200 cors_writer, w\<lparr>w_tick := Suc (w_tick w)\<rparr>)
    else run_state (serve_mux (broker_mux b) r cors_writer) (w\<lparr>w_tick := Suc (w_tick w)\<rparr>))"
  have "sends ''Access-Control-Allow-Origin'' ''*'' hw"
    using mux_keeps_headers [OF cors, of b r] sends_keeps(1) [OF cors] by (simp add: hw_def)
  from sends_keeps(5) [OF this] show ?thesis
    by (simp add: run_serve hw_def [symmetric] Let_def split_beta)
qed

subsection \<open>Submission\<close>

lemma mux_tasks:
  "run_state (serve_mux (broker_mux b) \<lparr>rq_Method = m, rq_Path = ''/api/tasks'', rq_Query = q, rq_Body = bd, rq_Context = c\<rparr> hw) w =
     run_state (Broker_handleTasks b \<lparr>rq_Method = m, rq_Path = ''/api/tasks'', rq_Query = q, rq_Body = bd, rq_Context = c\<rparr> hw) w"
  by (simp add: serve_mux_def mux_route_def add_slash_def clean_broker_paths mux_find_def broker_mux_def)

lemma mux_batch:
  "run_state (serve_mux (broker_mux b) \<lparr>rq_Method = m, rq_Path = ''/api/tasks/batch'', rq_Query = q, rq_Body = bd, rq_Context = c\<rparr> hw) w =
     run_state (handleBatchSubmit b \<lparr>rq_Method = m, rq_Path = ''/api/tasks/batch'', rq_Query = q, rq_Body = bd, rq_Context = c\<rparr> hw) w"
  by (simp add: serve_mux_def mux_route_def add_slash_def clean_broker_paths mux_find_def broker_mux_def)

text \<open>A batch of fresh well-formed tasks is enqueued in order.\<close>

definition a_enqueue_all :: "task list \<Rightarrow> pqueue \<Rightarrow> pqueue" where
  "a_enqueue_all ts q = fold a_enqueue ts q"

definition batch_keys :: "task list \<Rightarrow> string set" where
  "batch_keys ts = {statsKey ''total'', statsKey ''last_enqueue''} \<union> (\<Union>t \<in> set ts. {taskKey (t_ID t), qkey (t_Priority t)})"

lemma run_enqueue_batch:
  assumes "holds_queue (w_db w) q" and "submittable ts"
    and "\<forall>p \<in> set priorities. \<forall>u \<in> set (q p). t_ID u \<notin> t_ID ` set ts"
  shows "\<exists>d n. run_state (enqueue_batch (RQ (redis_client pk)) c ts) w = (map t_ID ts, w\<lparr>w_db := d, w_tick := n\<rparr>) \<and>
    holds_queue d (a_enqueue_all ts q) \<and> only_changes (batch_keys ts) (w_db w) d"
  using assms
proof (induction ts arbitrary: w q)
  case Nil
  then show ?case by (intro exI [of _ "w_db w"] exI [of _ "w_tick w"]) (simp add: run_simps a_enqueue_all_def)
next
  case (Cons t ts)
  from Cons.prems(2) have t: "task_ok t" "t_Priority t \<in> set priorities" and ts: "submittable ts" "t_ID t \<notin> t_ID ` set ts"
    by (auto simp: submittable_def)
  from holds_queue_Enqueue [OF Cons.prems(1) t, of pk c] Cons.prems(3) obtain d
    where enq: "run_state (Enqueue (RQ (redis_client pk)) c (Some t)) w = (None, w\<lparr>w_db := d, w_tick := Suc (w_tick w)\<rparr>)"
      and d: "holds_queue d (a_enqueue t q)"
        "only_changes {taskKey (t_ID t), qkey (t_Priority t), statsKey ''total'', statsKey ''last_enqueue''} (w_db w) d" by auto
  have fresh: "\<forall>p \<in> set priorities. \<forall>u \<in> set (a_enqueue t q p). t_ID u \<notin> t_ID ` set ts"
    using Cons.prems(3) ts(2) by (auto simp: a_enqueue_def split: if_splits)
  from Cons.IH [OF _ ts(1) fresh, of "w\<lparr>w_db := d, w_tick := Suc (w_tick w)\<rparr>"] d(1) obtain e n where
    run: "run_state (enqueue_batch (RQ (redis_client pk)) c ts) (w\<lparr>w_db := d, w_tick := Suc (w_tick w)\<rparr>) =
      (map t_ID ts, w\<lparr>w_db := e, w_tick := n\<rparr>)" and e: "holds_queue e (a_enqueue_all ts (a_enqueue t q))" "only_changes (batch_keys ts) d e"
    by auto
  have "only_changes (batch_keys (t # ts)) (w_db w) e"
    by (rule only_changes_mono [OF only_changes_trans [OF d(2) e(2)]]) (auto simp: batch_keys_def)
  with run enq e(1) show ?case by (auto simp: run_simps a_enqueue_all_def)
qed

lemma serve_batch:
  assumes "holds_queue (w_db w) q" and "unmarshal_slice unmarshal_task bd = Inr ts" and "submittable ts"
    and "\<forall>p \<in> set priorities. \<forall>u \<in> set (q p). t_ID u \<notin> t_ID ` set ts"
  shows "\<exists>resp d n. run_state (serve (broker_handler (BR (redis_client pk))) (post_request ''/api/tasks/batch'' bd)) w =
      (resp, w\<lparr>w_db := d, w_tick := n\<rparr>) \<and>
    rp_Status resp = 201 \<and> rp_Body resp = [Doc (batch_reply (map t_ID ts) (length ts))] \<and>
    holds_queue d (a_enqueue_all ts q) \<and> only_changes (batch_keys ts) (w_db w) d"
proof -
  from run_enqueue_batch [of "w\<lparr>w_tick := Suc (w_tick w)\<rparr>" q ts pk Live] assms obtain d n
    where "run_state (enqueue_batch (RQ (redis_client pk)) Live ts) (w\<lparr>w_tick := Suc (w_tick w)\<rparr>) =
        (map t_ID ts, w\<lparr>w_db := d, w_tick := n\<rparr>)" "holds_queue d (a_enqueue_all ts q)" "only_changes (batch_keys ts) (w_db w) d"
    by auto
  then have "run_state (serve (broker_handler (BR (redis_client pk))) (post_request ''/api/tasks/batch'' bd)) w =
      (finish_response (Encode (Inr (batch_reply (map t_ID ts) (length ts)))
         (WriteHeader 201 (Header_Set ''Content-Type'' ''application/json'' cors_writer))), w\<lparr>w_db := d, w_tick := Suc n\<rparr>)"
      "holds_queue d (a_enqueue_all ts q)" "only_changes (batch_keys ts) (w_db w) d"
    by (simp_all add: run_serve mux_batch post_request_def handleBatchSubmit_def assms(2) run_simps Let_def)
  then show ?thesis
    by (intro exI conjI) (assumption | simp add: finish_response_def Encode_def cors_writer_def)+
qed

lemma serve_submit:
  assumes q: "holds_queue (w_db w) q" and t: "unmarshal_task bd = Inr t" "task_ok t" "t_Priority t \<in> set priorities"
    and fresh: "t_ID t \<notin> t_ID ` set (a_order q)"
  shows "\<exists>resp w'. run_state (serve (broker_handler (BR (redis_client pk))) (post_request ''/api/tasks'' bd)) w = (resp, w') \<and>
    rp_Status resp = 201 \<and> rp_Body resp = [Doc (JObj [(''id'', JStr (t_ID t)), (''status'', JStr ''enqueued'')])] \<and>
    holds_queue (w_db w') (a_enqueue t q) \<and>
    only_changes {taskKey (t_ID t), qkey (t_Priority t), statsKey ''total'', statsKey ''last_enqueue''} (w_db w) (w_db w')"
proof -
  let ?w = "w\<lparr>w_tick := Suc (w_tick w)\<rparr>"
  have "t_ID u \<noteq> t_ID t" if "p \<in> set priorities" "u \<in> set (q p)" for p u
    using fresh that by (metis image_eqI set_a_order)
  with holds_queue_Enqueue [of ?w q t pk Live] q t obtain d
    where "run_state (Enqueue (RQ (redis_client pk)) Live (Some t)) ?w = (None, ?w\<lparr>w_db := d, w_tick := Suc (w_tick ?w)\<rparr>)"
      "holds_queue d (a_enqueue t q)"
      "only_changes {taskKey (t_ID t), qkey (t_Priority t), statsKey ''total'', statsKey ''last_enqueue''} (w_db w) d"
    by auto
  then show ?thesis
    by (simp add: run_serve mux_tasks post_request_def Broker_handleTasks_def handleSubmit_def t(1) run_simps Let_def
        finish_response_def Encode_def cors_writer_def)
qed

lemma mux_task_path:
  assumes "i \<noteq> []" "i \<noteq> ''batch''" "clean_path (''/api/tasks/'' @ i) = ''/api/tasks/'' @ i"
  shows "run_state (serve_mux (broker_mux b) (get_request (''/api/tasks/'' @ i)) hw) v =
    run_state (handleTaskByID b (get_request (''/api/tasks/'' @ i)) hw) v"
proof -
  have "mux_find (broker_mux b) (''/api/tasks/'' @ i) = Some (handleTaskByID b)"
    using assms(1,2) by (simp add: mux_find_def broker_mux_def subtree_def)
  with assms show ?thesis by (simp add: serve_mux_def mux_route_def add_slash_def get_request_def broker_mux_def)
qed

lemma serve_lookup_missing:
  assumes i: "i \<noteq> []" "i \<noteq> ''batch''" "clean_path (''/api/tasks/'' @ i) = ''/api/tasks/'' @ i"
    and none: "key_get (storeKey i) (w_db w) = None"
  shows "rp_Status (fst (run_state (serve (broker_handler (BR (redis_client pk))) (get_request (''/api/tasks/'' @ i))) w)) = 404"
  unfolding run_serve mux_task_path [OF i] using i none
  by (simp add: get_request_def handleTaskByID_def GetTask_def run_simps Let_def
      finish_response_def http_Error_def cors_writer_def)

lemma serve_lookup_saved:
  assumes i: "i \<noteq> []" "i \<noteq> ''batch''" "clean_path (''/api/tasks/'' @ i) = ''/api/tasks/'' @ i"
    and t: "saved_task (w_db w) i = Some t" "task_ok t"
  shows "\<exists>resp w'. run_state (serve (broker_handler (BR (redis_client pk))) (get_request (''/api/tasks/'' @ i))) w = (resp, w') \<and>
    rp_Status resp = 200 \<and> rp_Body resp = [Doc (task_json t)]"
  unfolding run_serve mux_task_path [OF i] using i run_GetTask [of "w\<lparr>w_tick := Suc (w_tick w)\<rparr>" i t pk] t
  by (simp add: get_request_def handleTaskByID_def task_ok_marshal run_simps Let_def
      finish_response_def Encode_def cors_writer_def)

section \<open>Properties\<close>

text \<open>A \<open>POST\<close> of a fresh well-formed task to \<open>/api/tasks\<close> puts it at the tail of the queue of its
  priority and is answered with 201 and the task's identifier.\<close>

theorem submission_enqueues:
  assumes "redis_server ex view pk" and "holds_queue (view (w_db w)) q" and "unmarshal_task bd = Inr t" and "task_ok t"
    and "t_Priority t \<in> set priorities" and "t_ID t \<notin> t_ID ` set (a_order q)"
  shows "\<exists>resp w'. run_state (serve (broker_handler (BR ex)) (post_request ''/api/tasks'' bd)) w = (resp, w') \<and>
    rp_Status resp = 201 \<and> rp_Body resp = [Doc (JObj [(''id'', JStr (t_ID t)), (''status'', JStr ''enqueued'')])] \<and>
    holds_queue (view (w_db w')) (a_enqueue t q)"
  using serve_submit [of "world_map view w" q bd t pk] assms(2-6) simulates_run [OF sim_broker [OF assms(1)]]
  by (fastforce simp: world_map_def)

theorem submission_enqueues_witness:
  "\<exists>resp w'. run_state (serve (broker_handler (BR (redis_client first_pick)))
       (post_request ''/api/tasks'' (Doc (task_json (sample_task ''a'' 2 3))))) (start_world empty_db) = (resp, w') \<and>
     rp_Status resp = 201 \<and> holds_queue (w_db w') (a_enqueue (sample_task ''a'' 2 3) (\<lambda>_. []))"
proof -
  have ok: "task_ok (sample_task ''a'' 2 3)" "t_Priority (sample_task ''a'' 2 3) \<in> set priorities"
    by (simp_all add: sample_task_ok in64_def set_priorities)
  from submission_enqueues [OF redis_server_refl, where w = "start_world empty_db" and q = "\<lambda>_. []" and pk = first_pick
      and bd = "Doc (task_json (sample_task ''a'' 2 3))" and t = "sample_task ''a'' 2 3"] task_json_roundtrip [OF ok(1)] ok
  show ?thesis by (auto simp: a_order_def)
qed

text \<open>A \<open>POST\<close> of a batch of distinct, fresh and well-formed tasks enqueues all of them in their order;
  the answer, 201, lists their identifiers and counts them.\<close>

theorem batch_submission_enqueues_all:
  assumes "redis_server ex view pk" and "holds_queue (view (w_db w)) q" and "unmarshal_slice unmarshal_task bd = Inr ts"
    and "submittable ts" and "\<forall>p \<in> set priorities. \<forall>u \<in> set (q p). t_ID u \<notin> t_ID ` set ts"
  shows "\<exists>resp w'. run_state (serve (broker_handler (BR ex)) (post_request ''/api/tasks/batch'' bd)) w = (resp, w') \<and>
    rp_Status resp = 201 \<and> rp_Body resp = [Doc (batch_reply (map t_ID ts) (length ts))] \<and>
    holds_queue (view (w_db w')) (a_enqueue_all ts q)"
  using serve_batch [of "world_map view w" q bd ts pk] assms(2-5) simulates_run [OF sim_broker [OF assms(1)]]
  by (fastforce simp: world_map_def)

theorem batch_submission_enqueues_all_witness:
  "let ts = [sample_task ''a'' 2 3, sample_task ''b'' 0 1] in
   \<exists>resp w'. run_state (serve (broker_handler (BR (redis_client first_pick)))
       (post_request ''/api/tasks/batch'' (Doc (JArr (map task_json ts))))) (start_world empty_db) = (resp, w') \<and>
     rp_Status resp = 201 \<and> rp_Body resp = [Doc (batch_reply [''a'', ''b''] 2)]"
proof -
  let ?ts = "[sample_task ''a'' 2 3, sample_task ''b'' 0 1]"
  have sub: "submittable ?ts" by (simp add: submittable_def sample_task_ok in64_def set_priorities)
  then have "unmarshal_slice unmarshal_task (Doc (JArr (map task_json ?ts))) = Inr ?ts"
    using unmarshal_list_map [of ?ts unmarshal_task task_json] task_json_roundtrip
    by (simp add: submittable_def)
  from batch_submission_enqueues_all [OF redis_server_refl _ this sub, where w = "start_world empty_db" and q = "\<lambda>_. []" and pk = first_pick]
  show ?thesis by (auto simp: Let_def numeral_2_eq_2)
qed

text \<open>C23: Whatever the path, a request whose method is not \<open>POST\<close> leaves every key of the database as it
  is, and every response, errors and redirects included, carries the CORS header.\<close>

theorem only_POST_changes_the_database:
  assumes "redis_server ex view pk" and "run_state (serve (broker_handler (BR ex)) r) w = (resp, w')"
  shows "(rq_Method r \<noteq> ''POST'' \<longrightarrow> keyspace (view (w_db w')) = keyspace (view (w_db w))) \<and>
    map_of (rp_Header resp) ''Access-Control-Allow-Origin'' = Some ''*''"
proof -
  from serve_sends_CORS [of "BR ex" r w] assms(2)
  have "map_of (rp_Header resp) ''Access-Control-Allow-Origin'' = Some ''*''" by simp
  moreover have "keyspace (view (w_db w')) = keyspace (view (w_db w))" if "rq_Method r \<noteq> ''POST''"
    using serve_only_reads [OF assms(1) that] assms(2) unfolding only_reads_def by (metis snd_conv)
  ultimately show ?thesis by blast
qed

theorem only_POST_changes_the_database_witness:
  "let (resp, w') = run_state (serve (broker_handler (BR (redis_client first_pick))) (get_request ''/health'')) (start_world empty_db)
   in keyspace (w_db w') = [] \<and> map_of (rp_Header resp) ''Access-Control-Allow-Origin'' = Some ''*''"
proof -
  let ?r = "get_request ''/health''"
  obtain resp w' where run: "run_state (serve (broker_handler (BR (redis_client first_pick))) ?r) (start_world empty_db) = (resp, w')"
    by (cases "run_state (serve (broker_handler (BR (redis_client first_pick))) ?r) (start_world empty_db)")
  from only_POST_changes_the_database [OF redis_server_refl run] run show ?thesis
    by (simp add: get_request_def empty_db_def)
qed

text \<open>The broker does not store what it enqueues: a task that was just submitted with 201 is not found
  under its identifier, and stays so until a worker has picked it up.\<close>

theorem submitted_task_is_not_found:
  assumes "redis_server ex view pk" and "holds_queue (view (w_db w)) q" and "unmarshal_task bd = Inr t" and "task_ok t"
    and "t_Priority t \<in> set priorities" and "t_ID t \<notin> t_ID ` set (a_order q)"
    and "key_get (storeKey (t_ID t)) (view (w_db w)) = None" and "t_ID t \<noteq> []" and "t_ID t \<noteq> ''batch''"
    and "clean_path (''/api/tasks/'' @ t_ID t) = ''/api/tasks/'' @ t_ID t"
  shows "\<exists>resp w'. run_state (serve (broker_handler (BR ex)) (post_request ''/api/tasks'' bd)) w = (resp, w') \<and> rp_Status resp = 201 \<and>
    rp_Status (fst (run_state (serve (broker_handler (BR ex)) (get_request (''/api/tasks/'' @ t_ID t))) w')) = 404"
proof -
  from serve_submit [of "world_map view w" q bd t pk] assms(2-6) obtain resp v'
    where run: "run_state (serve (broker_handler (BR (redis_client pk))) (post_request ''/api/tasks'' bd)) (world_map view w) = (resp, v')"
      "rp_Status resp = 201"
      and keys: "only_changes {taskKey (t_ID t), qkey (t_Priority t), statsKey ''total'', statsKey ''last_enqueue''} (view (w_db w)) (w_db v')"
    by auto
  from simulates_run [OF sim_broker [OF assms(1)] run(1)] obtain w'
    where w': "run_state (serve (broker_handler (BR ex)) (post_request ''/api/tasks'' bd)) w = (resp, w')" "world_map view w' = v'" by blast
  from only_changes_key_get [OF keys, of "storeKey (t_ID t)"] assms(7) have "key_get (storeKey (t_ID t)) (w_db v') = None" by simp
  from serve_lookup_missing [OF assms(8-10) this, of pk]
    sim_broker [OF assms(1), of "get_request (''/api/tasks/'' @ t_ID t)"] w'(2)
  have "rp_Status (fst (run_state (serve (broker_handler (BR ex)) (get_request (''/api/tasks/'' @ t_ID t))) w')) = 404"
    by (auto simp: simulates_def)
  with w'(1) run(2) show ?thesis by blast
qed

theorem submitted_task_is_not_found_witness:
  "\<exists>resp w'. run_state (serve (broker_handler (BR (redis_client first_pick)))
       (post_request ''/api/tasks'' (Doc (task_json (sample_task ''a'' 2 3))))) (start_world empty_db) = (resp, w') \<and> rp_Status resp = 201 \<and>
     rp_Status (fst (run_state (serve (broker_handler (BR (redis_client first_pick))) (get_request ''/api/tasks/a'')) w')) = 404"
proof -
  have ok: "task_ok (sample_task ''a'' 2 3)" "t_Priority (sample_task ''a'' 2 3) \<in> set priorities" "t_ID (sample_task ''a'' 2 3) = ''a''"
    by (simp_all add: sample_task_ok in64_def set_priorities)
  have "clean_path (''/api/tasks/'' @ ''a'') = ''/api/tasks/'' @ ''a''" by code_simp
  with submitted_task_is_not_found [OF redis_server_refl, where w = "start_world empty_db" and q = "\<lambda>_. []" and pk = first_pick
      and bd = "Doc (task_json (sample_task ''a'' 2 3))" and t = "sample_task ''a'' 2 3"] task_json_roundtrip [OF ok(1)] ok
  show ?thesis by (simp add: a_order_def)
qed

end
