(* ===== verification/Spool_Maps.thy ===== *)
theory Spool_Maps
  imports Spool_Prelude "HOL-Library.AList"
begin

text \<open>
  Go maps as association lists with distinct keys, in the order in which a \<open>range\<close> loop meets
  them: the keys and the number of entries after an assignment and after \<open>delete\<close>.
\<close>

definition gmap_keys :: "('k \<times> 'v) list \<Rightarrow> 'k set" where
  "gmap_keys m = fst ` set m"

definition gmap_ok :: "('k \<times> 'v) list \<Rightarrow> bool" where
  "gmap_ok m \<longleftrightarrow> distinct (map fst m)"

lemma gmap_lookup: "map_of m k = None \<longleftrightarrow> k \<notin> gmap_keys m"
  by (simp add: gmap_keys_def map_of_eq_None_iff)

lemma gmap_lookup_Some: "map_of m k = Some v \<Longrightarrow> k \<in> gmap_keys m"
  by (force simp: gmap_keys_def dest: map_of_SomeD)

lemma gmap_empty [simp]: "gmap_ok []" "gmap_keys [] = {}"
  by (simp_all add: gmap_ok_def gmap_keys_def)

lemma gmap_ok_ops [simp]:
  "gmap_ok m \<Longrightarrow> gmap_ok (AList.update k v m)" "gmap_ok m \<Longrightarrow> gmap_ok (AList.delete k m)"
  by (simp_all add: gmap_ok_def distinct_update distinct_delete)

lemma gmap_keys_ops [simp]:
  "gmap_keys (AList.update k v m) = insert k (gmap_keys m)" "gmap_keys (AList.delete k m) = gmap_keys m - {k}"
proof -
  have "set (map fst (AList.update k v m)) = insert k (set (map fst m))" by (auto simp: update_keys)
  then show "gmap_keys (AList.update k v m) = insert k (gmap_keys m)" by (simp add: gmap_keys_def)
  have "set (map fst (AList.delete k m)) = set (map fst m) - {k}" by (simp add: delete_keys)
  then show "gmap_keys (AList.delete k m) = gmap_keys m - {k}" by (simp add: gmap_keys_def)
qed

text \<open>The number of entries is the number of keys.\<close>

lemma gmap_card: "gmap_ok m \<Longrightarrow> length m = card (gmap_keys m)"
  unfolding gmap_ok_def gmap_keys_def set_map [symmetric] by (metis distinct_card length_map)

lemma finite_gmap_keys [simp]: "finite (gmap_keys m)"
  by (simp add: gmap_keys_def)

lemma gmap_length_ops:
  assumes "gmap_ok m"
  shows "length (AList.update k v m) = (if k \<in> gmap_keys m then length m else Suc (length m))"
    and "length (AList.delete k m) = (if k \<in> gmap_keys m then length m - 1 else length m)"
  using assms by (simp_all add: gmap_card insert_absorb)

lemma gmap_pred: "k \<in> gmap_keys m \<Longrightarrow> int (length m - Suc 0) = int (length m) - 1 \<and> 1 \<le> length m"
  by (cases m) auto

lemma gmap_values_update:
  "snd ` set (AList.update k v m) \<subseteq> insert v (snd ` set m)"
  by (induction m) auto

lemma gmap_values_delete: "snd ` set (AList.delete k m) \<subseteq> snd ` set m"
  by (auto simp: AList.delete_eq)

lemma gmap_all_update:
  "\<forall>x \<in> snd ` set m. P x \<Longrightarrow> P v \<Longrightarrow> \<forall>x \<in> snd ` set (AList.update k v m). P x"
  using gmap_values_update [of k v m] by blast

lemma gmap_all_delete: "\<forall>x \<in> snd ` set m. P x \<Longrightarrow> \<forall>x \<in> snd ` set (AList.delete k m). P x"
  using gmap_values_delete [of k m] by blast

lemma gmap_all_lookup: "\<forall>x \<in> snd ` set m. P x \<Longrightarrow> map_of m k = Some v \<Longrightarrow> P v"
  by (force dest: map_of_SomeD)

end
