(* ===== verification/Spool_Metrics.thy ===== *)
theory Spool_Metrics
  imports Spool_Queue Spool_Maps Complex_Main
begin

text \<open>
  \<open>internal/monitoring/metrics.go\<close>: the metrics collector. Its maps are association lists in
  their iteration order, its 64-bit and 32-bit counters wrap around. Each method holds the
  lock or uses an atomic operation, so a method is one step. A \<open>float64\<close> is a rational
  number, and each floating-point operation is the exact one followed by \<open>rnd\<close>, the rounding of
  the machine, which is a parameter; the operations used here never divide by zero.
\<close>

section \<open>Definitions\<close>

subsection \<open>Floating-point numbers\<close>

type_synonym float64 = rat
type_synonym rounding = "rat \<Rightarrow> rat"

definition float_of :: "rounding \<Rightarrow> int \<Rightarrow> float64" where
  "float_of rnd n = rnd (of_int n)"

text \<open>\<open>int64(x)\<close> drops the fraction; out of range the result is left to the implementation, here the
  low 64 bits.\<close>

definition int64_of :: "float64 \<Rightarrow> int" where
  "int64_of x = wrap64 (if x \<ge> 0 then \<lfloor>x\<rfloor> else \<lceil>x\<rceil>)"

text \<open>\<open>Duration.Seconds\<close>: whole seconds plus the fraction.\<close>

definition duration_Seconds :: "rounding \<Rightarrow> int \<Rightarrow> float64" where
  "duration_Seconds rnd d =
     rnd (float_of rnd (d sdiv Second) + rnd (float_of rnd (d smod Second) / float_of rnd Second))"

subsection \<open>Data\<close>

record QueueDepthSnapshot =
  qs_Timestamp :: int
  qs_Depth :: int

record ThroughputSample =
  ts_Timestamp :: int
  ts_TasksPerSec :: float64
  ts_WindowSize :: int

record WorkerStats =
  ws_ID :: string
  ws_State :: string
  ws_TasksCompleted :: int
  ws_TasksFailed :: int
  ws_TotalIdleTime :: int
  ws_TotalBusyTime :: int
  ws_LastIdleStart :: int
  ws_LastBusyStart :: int
  ws_ProcessingTimes :: "int list"
  ws_StartTime :: int

record TaskInfo =
  ti_ID :: string
  ti_Type :: string
  ti_StartTime :: int

record MetricsSnapshot =
  ms_QueueDepth :: int
  ms_QueueDepthHigh :: int
  ms_QueueDepthLow :: int
  ms_ActiveWorkers :: int
  ms_IdleWorkers :: int
  ms_BusyWorkers :: int
  ms_OldestIdleTime :: int
  ms_NewestWorkerAge :: int
  ms_TasksProcessed :: int
  ms_TasksFailed :: int
  ms_TasksRetried :: int
  ms_TasksEnqueued :: int
  ms_TasksInProgress :: int
  ms_CurrentThroughput :: float64
  ms_AvgThroughput :: float64
  ms_AvgProcessingTime :: int
  ms_P95ProcessingTime :: int
  ms_P99ProcessingTime :: int
  ms_Uptime :: int
  ms_LastUpdated :: int

record 's Metrics =
  m_queueDepth :: int
  m_queueDepthHigh :: int
  m_queueDepthLow :: int
  m_lastQueueCheck :: int
  m_queueDepthSeries :: "QueueDepthSnapshot list"
  m_activeWorkers :: int
  m_idleWorkers :: int
  m_busyWorkers :: int
  m_workerLastIdle :: "(string \<times> int) list"
  m_workerStartTime :: "(string \<times> int) list"
  m_workerStats :: "(string \<times> WorkerStats) list"
  m_workerCurrentTask :: "(string \<times> TaskInfo) list"
  m_tasksProcessed :: int
  m_tasksFailed :: int
  m_tasksRetried :: int
  m_tasksEnqueued :: int
  m_tasksInProgress :: int
  m_throughputSamples :: "ThroughputSample list"
  m_lastSampleTime :: int
  m_processingTimes :: "int list"
  m_startTime :: int
  m_lastUpdated :: int
  m_queue :: "'s RedisQueue"

definition NewMetrics :: "'s RedisQueue \<Rightarrow> ('s, 's Metrics) io" where
  "NewMetrics q = do {
     now \<leftarrow> time_Now;
     ret \<lparr>m_queueDepth = 0, m_queueDepthHigh = 0, m_queueDepthLow = 0, m_lastQueueCheck = now,
       m_queueDepthSeries = [], m_activeWorkers = 0, m_idleWorkers = 0, m_busyWorkers = 0,
       m_workerLastIdle = [], m_workerStartTime = [], m_workerStats = [], m_workerCurrentTask = [],
       m_tasksProcessed = 0, m_tasksFailed = 0, m_tasksRetried = 0, m_tasksEnqueued = 0,
       m_tasksInProgress = 0, m_throughputSamples = [], m_lastSampleTime = now, m_processingTimes = [],
       m_startTime = now, m_lastUpdated = now, m_queue = q\<rparr>
   }"

subsection \<open>Queue depth\<close>

text \<open>What \<open>UpdateQueueDepth\<close> does with a size; \<open>now\<close> and \<open>now'\<close> are its two readings of the clock.\<close>

definition observe_depth :: "int \<Rightarrow> int \<Rightarrow> int \<Rightarrow> 's Metrics \<Rightarrow> 's Metrics" where
  "observe_depth sz now now' m =
     (let m = m\<lparr>m_queueDepth := sz, m_lastQueueCheck := now\<rparr>;
          m = (if sz > m_queueDepthHigh m then m\<lparr>m_queueDepthHigh := sz\<rparr> else m);
          m = (if m_queueDepthLow m = 0 \<or> sz < m_queueDepthLow m then m\<lparr>m_queueDepthLow := sz\<rparr> else m)
      in m\<lparr>m_queueDepthSeries :=
             push_bounded 100 (m_queueDepthSeries m) \<lparr>qs_Timestamp = now', qs_Depth = sz\<rparr>\<rparr>)"

definition UpdateQueueDepth :: "ctx \<Rightarrow> 's Metrics \<Rightarrow> ('s, gerr option \<times> 's Metrics) io" where
  "UpdateQueueDepth c m = do {
     r \<leftarrow> Size (m_queue m) c;
     (case r of
        Inl e \<Rightarrow> ret (Some e, m)
      | Inr sz \<Rightarrow> do {
          now \<leftarrow> time_Now;
          now' \<leftarrow> time_Now;
          ret (None, observe_depth sz now now' m)
        })
   }"

definition GetQueueDepth :: "'s Metrics \<Rightarrow> int" where
  "GetQueueDepth m = m_queueDepth m"

definition GetQueueDepthTrend :: "int \<Rightarrow> 's Metrics \<Rightarrow> ('s, QueueDepthSnapshot list) io" where
  "GetQueueDepthTrend duration m = do {
     now \<leftarrow> time_Now;
     let cutoff = now + wrap64 (- duration);
     ret (filter (\<lambda>snap. qs_Timestamp snap > cutoff) (m_queueDepthSeries m))
   }"

definition GetThroughputTrend :: "int \<Rightarrow> 's Metrics \<Rightarrow> ('s, ThroughputSample list) io" where
  "GetThroughputTrend duration m = do {
     now \<leftarrow> time_Now;
     let cutoff = now + wrap64 (- duration);
     ret (filter (\<lambda>sample. ts_Timestamp sample > cutoff) (m_throughputSamples m))
   }"

subsection \<open>Workers\<close>

definition RegisterWorker :: "string \<Rightarrow> 's Metrics \<Rightarrow> ('s, 's Metrics) io" where
  "RegisterWorker workerID m = do {
     let m = m\<lparr>m_activeWorkers := wrap32 (m_activeWorkers m + 1), m_idleWorkers := wrap32 (m_idleWorkers m + 1)\<rparr>;
     now \<leftarrow> time_Now;
     ret (m\<lparr>m_workerStats := AList.update workerID
              \<lparr>ws_ID = workerID, ws_State = ''idle'', ws_TasksCompleted = 0, ws_TasksFailed = 0,
               ws_TotalIdleTime = 0, ws_TotalBusyTime = 0, ws_LastIdleStart = now, ws_LastBusyStart = zero_time,
               ws_ProcessingTimes = [], ws_StartTime = now\<rparr> (m_workerStats m),
            m_workerLastIdle := AList.update workerID now (m_workerLastIdle m),
            m_workerStartTime := AList.update workerID now (m_workerStartTime m)\<rparr>)
   }"

definition UnregisterWorker :: "string \<Rightarrow> 's Metrics \<Rightarrow> 's Metrics" where
  "UnregisterWorker workerID m =
     (let m = (if map_of (m_workerLastIdle m) workerID \<noteq> None
               then m\<lparr>m_idleWorkers := wrap32 (m_idleWorkers m - 1)\<rparr>
               else m\<lparr>m_busyWorkers := wrap32 (m_busyWorkers m - 1)\<rparr>)
      in m\<lparr>m_activeWorkers := wrap32 (m_activeWorkers m - 1),
           m_workerLastIdle := AList.delete workerID (m_workerLastIdle m),
           m_workerStartTime := AList.delete workerID (m_workerStartTime m),
           m_workerStats := AList.delete workerID (m_workerStats m),
           m_workerCurrentTask := AList.delete workerID (m_workerCurrentTask m)\<rparr>)"

definition MarkWorkerBusy :: "string \<Rightarrow> 's Metrics \<Rightarrow> ('s, 's Metrics) io" where
  "MarkWorkerBusy workerID m =
     (if map_of (m_workerLastIdle m) workerID \<noteq> None then do {
        m \<leftarrow> (case map_of (m_workerStats m) workerID of
                None \<Rightarrow> ret m
              | Some stats \<Rightarrow> do {
                  now \<leftarrow> time_Now;
                  now' \<leftarrow> time_Now;
                  ret (m\<lparr>m_workerStats := AList.update workerID
                    (stats\<lparr>ws_TotalIdleTime := wrap64 (ws_TotalIdleTime stats + time_Sub now (ws_LastIdleStart stats)),
                           ws_State := ''busy'', ws_LastBusyStart := now'\<rparr>) (m_workerStats m)\<rparr>)
                });
        ret (m\<lparr>m_workerLastIdle := AList.delete workerID (m_workerLastIdle m),
               m_idleWorkers := wrap32 (m_idleWorkers m - 1), m_busyWorkers := wrap32 (m_busyWorkers m + 1)\<rparr>)
      }
      else ret m)"

definition MarkWorkerBusyWithTask :: "string \<Rightarrow> string \<Rightarrow> string \<Rightarrow> 's Metrics \<Rightarrow> ('s, 's Metrics) io" where
  "MarkWorkerBusyWithTask workerID taskID taskType m = do {
     m \<leftarrow> MarkWorkerBusy workerID m;
     now \<leftarrow> time_Now;
     ret (m\<lparr>m_workerCurrentTask := AList.update workerID
       \<lparr>ti_ID = taskID, ti_Type = taskType, ti_StartTime = now\<rparr> (m_workerCurrentTask m)\<rparr>)
   }"

definition MarkWorkerIdle :: "string \<Rightarrow> 's Metrics \<Rightarrow> ('s, 's Metrics) io" where
  "MarkWorkerIdle workerID m =
     (if map_of (m_workerLastIdle m) workerID = None then do {
        now \<leftarrow> time_Now;
        let m = m\<lparr>m_workerLastIdle := AList.update workerID now (m_workerLastIdle m)\<rparr>;
        m \<leftarrow> (case map_of (m_workerStats m) workerID of
                None \<Rightarrow> ret m
              | Some stats \<Rightarrow> do {
                  now' \<leftarrow> time_Now;
                  ret (m\<lparr>m_workerStats := AList.update workerID
                    (stats\<lparr>ws_TotalBusyTime := wrap64 (ws_TotalBusyTime stats + time_Sub now' (ws_LastBusyStart stats)),
                           ws_State := ''idle'', ws_LastIdleStart := now\<rparr>) (m_workerStats m)\<rparr>)
                });
        ret (m\<lparr>m_workerCurrentTask := AList.delete workerID (m_workerCurrentTask m),
               m_busyWorkers := wrap32 (m_busyWorkers m - 1), m_idleWorkers := wrap32 (m_idleWorkers m + 1)\<rparr>)
      }
      else ret m)"

definition RecordWorkerTaskCompleted :: "string \<Rightarrow> int \<Rightarrow> bool \<Rightarrow> 's Metrics \<Rightarrow> 's Metrics" where
  "RecordWorkerTaskCompleted workerID duration success m =
     (case map_of (m_workerStats m) workerID of
        None \<Rightarrow> m
      | Some stats \<Rightarrow>
        (let stats = (if success then stats\<lparr>ws_TasksCompleted := wrap64 (ws_TasksCompleted stats + 1)\<rparr>
                      else stats\<lparr>ws_TasksFailed := wrap64 (ws_TasksFailed stats + 1)\<rparr>);
             stats = stats\<lparr>ws_ProcessingTimes := push_bounded 100 (ws_ProcessingTimes stats) duration\<rparr>
         in m\<lparr>m_workerStats := AList.update workerID stats (m_workerStats m)\<rparr>))"

definition GetWorkerCounts :: "'s Metrics \<Rightarrow> int \<times> int \<times> int" where
  "GetWorkerCounts m = (m_activeWorkers m, m_idleWorkers m, m_busyWorkers m)"

text \<open>The loop of \<open>getOldestIdleTime\<close>.\<close>

definition oldest_time :: "int list \<Rightarrow> int" where
  "oldest_time ts = foldl (\<lambda>oldest t. if time_IsZero oldest \<or> t < oldest then t else oldest) zero_time ts"

definition GetOldestIdleTime :: "'s Metrics \<Rightarrow> ('s, int) io" where
  "GetOldestIdleTime m =
     (let oldest = oldest_time (map snd (m_workerLastIdle m))
      in if time_IsZero oldest then ret 0 else do { now \<leftarrow> time_Now; ret (time_Sub now oldest) })"

definition GetWorkerDetails :: "string \<Rightarrow> 's Metrics \<Rightarrow> (WorkerStats \<times> TaskInfo option) option" where
  "GetWorkerDetails workerID m =
     (case map_of (m_workerStats m) workerID of
        None \<Rightarrow> None
      | Some stats \<Rightarrow> Some (stats, map_of (m_workerCurrentTask m) workerID))"

definition GetAllWorkerDetails :: "'s Metrics \<Rightarrow> WorkerStats list" where
  "GetAllWorkerDetails m = map snd (m_workerStats m)"

subsection \<open>Tasks\<close>

definition RecordTaskEnqueued :: "'s Metrics \<Rightarrow> 's Metrics" where
  "RecordTaskEnqueued m = m\<lparr>m_tasksEnqueued := wrap64 (m_tasksEnqueued m + 1)\<rparr>"

definition RecordTaskStarted :: "'s Metrics \<Rightarrow> 's Metrics" where
  "RecordTaskStarted m = m\<lparr>m_tasksInProgress := wrap32 (m_tasksInProgress m + 1)\<rparr>"

definition getLastTotalTasks :: "rounding \<Rightarrow> 's Metrics \<Rightarrow> int" where
  "getLastTotalTasks rnd m =
     (if m_throughputSamples m = [] then 0
      else
        (let lastSample = last (m_throughputSamples m)
         in wrap64 (m_tasksProcessed m -
              int64_of (rnd (ts_TasksPerSec lastSample * duration_Seconds rnd (ts_WindowSize lastSample))))))"

definition updateThroughput :: "rounding \<Rightarrow> 's Metrics \<Rightarrow> ('s, 's Metrics) io" where
  "updateThroughput rnd m = do {
     now \<leftarrow> time_Now;
     let elapsed = time_Sub now (m_lastSampleTime m);
     (if elapsed < 5 * Second then ret m
      else
        (let completed = m_tasksProcessed m;
             tasksInWindow = wrap64 (completed - getLastTotalTasks rnd m);
             throughput = rnd (float_of rnd tasksInWindow / duration_Seconds rnd elapsed)
         in ret (m\<lparr>m_throughputSamples := push_bounded 100 (m_throughputSamples m)
                     \<lparr>ts_Timestamp = now, ts_TasksPerSec = throughput, ts_WindowSize = elapsed\<rparr>,
                   m_lastSampleTime := now\<rparr>)))
   }"

definition RecordTaskCompleted :: "rounding \<Rightarrow> int \<Rightarrow> 's Metrics \<Rightarrow> ('s, 's Metrics) io" where
  "RecordTaskCompleted rnd duration m =
     (let m = m\<lparr>m_tasksProcessed := wrap64 (m_tasksProcessed m + 1),
                m_tasksInProgress := wrap32 (m_tasksInProgress m - 1)\<rparr>;
          m = m\<lparr>m_processingTimes := push_bounded 1000 (m_processingTimes m) duration\<rparr>
      in updateThroughput rnd m)"

definition RecordTaskFailed :: "'s Metrics \<Rightarrow> 's Metrics" where
  "RecordTaskFailed m =
     m\<lparr>m_tasksFailed := wrap64 (m_tasksFailed m + 1), m_tasksInProgress := wrap32 (m_tasksInProgress m - 1)\<rparr>"

definition RecordTaskRetried :: "'s Metrics \<Rightarrow> 's Metrics" where
  "RecordTaskRetried m = m\<lparr>m_tasksRetried := wrap64 (m_tasksRetried m + 1)\<rparr>"

subsection \<open>Derived values\<close>

definition GetThroughput :: "'s Metrics \<Rightarrow> float64" where
  "GetThroughput m = (if m_throughputSamples m = [] then 0 else ts_TasksPerSec (last (m_throughputSamples m)))"

definition GetAvgThroughput :: "rounding \<Rightarrow> 's Metrics \<Rightarrow> float64" where
  "GetAvgThroughput rnd m =
     (if m_throughputSamples m = [] then 0
      else rnd (foldl (\<lambda>sum sample. rnd (sum + ts_TasksPerSec sample)) 0 (m_throughputSamples m) /
                float_of rnd (int (length (m_throughputSamples m)))))"

definition CalculatePercentiles :: "'s Metrics \<Rightarrow> int \<times> int \<times> int" where
  "CalculatePercentiles m =
     (if m_processingTimes m = [] then (0, 0, 0)
      else
        (let sum = foldl (\<lambda>sum t. wrap64 (sum + t)) 0 (m_processingTimes m);
             avg = sum sdiv int (length (m_processingTimes m))
         in (avg, wrap64 (avg * 2), wrap64 (avg * 3))))"

definition newest_age :: "int \<Rightarrow> int list \<Rightarrow> int" where
  "newest_age now ts =
     foldl (\<lambda>newest t. let age = time_Sub now t in if newest = 0 \<or> age < newest then age else newest) 0 ts"

definition Snapshot :: "rounding \<Rightarrow> 's Metrics \<Rightarrow> ('s, MetricsSnapshot) io" where
  "Snapshot rnd m =
     (let (active, idle, busy) = GetWorkerCounts m; (avg, p95, p99) = CalculatePercentiles m
      in do {
        now \<leftarrow> time_Now;
        oldest \<leftarrow> GetOldestIdleTime m;
        now' \<leftarrow> time_Now;
        now'' \<leftarrow> time_Now;
        ret \<lparr>ms_QueueDepth = GetQueueDepth m, ms_QueueDepthHigh = m_queueDepthHigh m,
          ms_QueueDepthLow = m_queueDepthLow m, ms_ActiveWorkers = active, ms_IdleWorkers = idle,
          ms_BusyWorkers = busy, ms_OldestIdleTime = oldest,
          ms_NewestWorkerAge = newest_age now (map snd (m_workerStartTime m)),
          ms_TasksProcessed = m_tasksProcessed m, ms_TasksFailed = m_tasksFailed m,
          ms_TasksRetried = m_tasksRetried m, ms_TasksEnqueued = m_tasksEnqueued m,
          ms_TasksInProgress = m_tasksInProgress m, ms_CurrentThroughput = GetThroughput m,
          ms_AvgThroughput = GetAvgThroughput rnd m, ms_AvgProcessingTime = avg,
          ms_P95ProcessingTime = p95, ms_P99ProcessingTime = p99,
          ms_Uptime = time_Sub now' (m_startTime m), ms_LastUpdated = now''\<rparr>
      })"

definition Reset :: "'s Metrics \<Rightarrow> ('s, 's Metrics) io" where
  "Reset m = do {
     now1 \<leftarrow> time_Now;
     now2 \<leftarrow> time_Now;
     now3 \<leftarrow> time_Now;
     now4 \<leftarrow> time_Now;
     ret \<lparr>m_queueDepth = 0, m_queueDepthHigh = 0, m_queueDepthLow = 0, m_lastQueueCheck = now3,
       m_queueDepthSeries = [], m_activeWorkers = 0, m_idleWorkers = 0, m_busyWorkers = 0,
       m_workerLastIdle = [], m_workerStartTime = [], m_workerStats = [], m_workerCurrentTask = [],
       m_tasksProcessed = 0, m_tasksFailed = 0, m_tasksRetried = 0, m_tasksEnqueued = 0,
       m_tasksInProgress = 0, m_throughputSamples = [], m_lastSampleTime = now4, m_processingTimes = [],
       m_startTime = now1, m_lastUpdated = now2, m_queue = m_queue m\<rparr>
   }"

subsection \<open>Consistency\<close>

text \<open>
  The counters describe the maps: a registered worker has a start time and statistics, an
  idle one also a time since when it is idle; the histories are bounded.
\<close>

definition stats_bounded :: "(string \<times> WorkerStats) list \<Rightarrow> bool" where
  "stats_bounded m \<longleftrightarrow> (\<forall>s \<in> snd ` set m. length (ws_ProcessingTimes s) \<le> 100)"

definition metrics_ok :: "'s Metrics \<Rightarrow> bool" where
  "metrics_ok m \<longleftrightarrow>
     gmap_ok (m_workerLastIdle m) \<and> gmap_ok (m_workerStartTime m) \<and> gmap_ok (m_workerStats m) \<and>
     gmap_keys (m_workerLastIdle m) \<subseteq> gmap_keys (m_workerStartTime m) \<and>
     gmap_keys (m_workerStats m) = gmap_keys (m_workerStartTime m) \<and>
     length (m_workerStartTime m) < 2 ^ 31 \<and>
     m_activeWorkers m = int (length (m_workerStartTime m)) \<and> m_idleWorkers m = int (length (m_workerLastIdle m)) \<and>
     m_busyWorkers m = m_activeWorkers m - m_idleWorkers m \<and>
     length (m_queueDepthSeries m) \<le> 100 \<and> length (m_throughputSamples m) \<le> 100 \<and> length (m_processingTimes m) \<le> 1000 \<and>
     stats_bounded (m_workerStats m)"

abbreviation registered :: "string \<Rightarrow> 's Metrics \<Rightarrow> bool" where
  "registered i m \<equiv> i \<in> gmap_keys (m_workerStartTime m)"

text \<open>
  The calls on a metrics object, one at a time, in the order of their lock: workers are
  registered under new identifiers and unregistered or marked only while they are registered.
\<close>

inductive metrics_step :: "rounding \<Rightarrow> db Metrics \<Rightarrow> db Metrics \<Rightarrow> bool" for rnd where
  ms_depth: "run_state (UpdateQueueDepth c m) w = ((e, m'), w') \<Longrightarrow> metrics_step rnd m m'"
| ms_register: "\<lbrakk>\<not> registered i m; length (m_workerStartTime m) + 1 < 2 ^ 31;
    run_state (RegisterWorker i m) w = (m', w')\<rbrakk> \<Longrightarrow> metrics_step rnd m m'"
| ms_unregister: "registered i m \<Longrightarrow> metrics_step rnd m (UnregisterWorker i m)"
| ms_busy: "run_state (MarkWorkerBusy i m) w = (m', w') \<Longrightarrow> metrics_step rnd m m'"
| ms_busy_task: "run_state (MarkWorkerBusyWithTask i t ty m) w = (m', w') \<Longrightarrow> metrics_step rnd m m'"
| ms_idle: "registered i m \<Longrightarrow> run_state (MarkWorkerIdle i m) w = (m', w') \<Longrightarrow> metrics_step rnd m m'"
| ms_worker_task: "metrics_step rnd m (RecordWorkerTaskCompleted i d b m)"
| ms_enqueued: "metrics_step rnd m (RecordTaskEnqueued m)"
| ms_started: "metrics_step rnd m (RecordTaskStarted m)"
| ms_completed: "run_state (RecordTaskCompleted rnd d m) w = (m', w') \<Longrightarrow> metrics_step rnd m m'"
| ms_failed: "metrics_step rnd m (RecordTaskFailed m)"
| ms_retried: "metrics_step rnd m (RecordTaskRetried m)"
| ms_reset: "run_state (Reset m) w = (m', w') \<Longrightarrow> metrics_step rnd m m'"

definition metrics_init :: "db Metrics \<Rightarrow> bool" where
  "metrics_init m \<longleftrightarrow> (\<exists>q w w'. run_state (NewMetrics q) w = (m, w'))"

section \<open>Lemmas\<close>

lemma idle_le_active: "metrics_ok m \<Longrightarrow> length (m_workerLastIdle m) \<le> length (m_workerStartTime m)"
  by (simp add: metrics_ok_def gmap_card card_mono)

lemma wrap32_small: "0 \<le> n \<Longrightarrow> n < 2 ^ 31 \<Longrightarrow> wrap32 n = n"
  by (rule wrap32_id) (simp add: in32_def)

lemma stats_bounded_ops:
  "stats_bounded m \<Longrightarrow> length (ws_ProcessingTimes s) \<le> 100 \<Longrightarrow> stats_bounded (AList.update i s m)"
  "stats_bounded m \<Longrightarrow> stats_bounded (AList.delete i m)"
  unfolding stats_bounded_def using gmap_values_update [of i s m] gmap_values_delete [of i m] by blast+

lemma stats_bounded_lookup: "stats_bounded m \<Longrightarrow> map_of m i = Some s \<Longrightarrow> length (ws_ProcessingTimes s) \<le> 100"
  by (force simp: stats_bounded_def dest: map_of_SomeD)

lemma wrap32_pred: "Suc 0 \<le> n \<Longrightarrow> n < 2 ^ 31 \<Longrightarrow> wrap32 (int n - 1) = int n - 1"
  by (rule wrap32_small) simp_all

lemma NewMetrics_ok: "metrics_init m \<Longrightarrow> metrics_ok m"
  by (auto simp: metrics_init_def NewMetrics_def run_simps metrics_ok_def stats_bounded_def)

lemma observe_depth_frame:
  "m_workerLastIdle (observe_depth d n n' m) = m_workerLastIdle m"
  "m_workerStartTime (observe_depth d n n' m) = m_workerStartTime m"
  "m_workerStats (observe_depth d n n' m) = m_workerStats m"
  "m_activeWorkers (observe_depth d n n' m) = m_activeWorkers m" "m_idleWorkers (observe_depth d n n' m) = m_idleWorkers m"
  "m_busyWorkers (observe_depth d n n' m) = m_busyWorkers m"
  "m_throughputSamples (observe_depth d n n' m) = m_throughputSamples m" "m_processingTimes (observe_depth d n n' m) = m_processingTimes m"
  "m_queueDepthSeries (observe_depth d n n' m) = push_bounded 100 (m_queueDepthSeries m) \<lparr>qs_Timestamp = n', qs_Depth = d\<rparr>"
  by (simp_all add: observe_depth_def Let_def)

lemma UpdateQueueDepth_ok:
  "metrics_ok m \<Longrightarrow> run_state (UpdateQueueDepth c m) w = ((e, m'), w') \<Longrightarrow> metrics_ok m'"
  by (auto simp: UpdateQueueDepth_def run_simps metrics_ok_def observe_depth_frame push_bounded_length
      split: prod.splits sum.splits)

lemma RegisterWorker_ok:
  assumes ok: "metrics_ok m" and new: "\<not> registered i m" "length (m_workerStartTime m) + 1 < 2 ^ 31"
    and run: "run_state (RegisterWorker i m) w = (m', w')"
  shows "metrics_ok m'"
proof -
  have "i \<notin> gmap_keys (m_workerLastIdle m)" using ok new by (auto simp: metrics_ok_def)
  moreover have "length (m_workerLastIdle m) + 1 < 2 ^ 31" using idle_le_active [OF ok] new(2) by simp
  ultimately show ?thesis
    using ok new run
    by (auto simp: RegisterWorker_def run_simps metrics_ok_def gmap_length_ops wrap32_small stats_bounded_ops)
qed

lemmas metrics_simps = metrics_ok_def gmap_length_ops gmap_lookup wrap32_small wrap32_pred stats_bounded_ops Let_def

lemma UnregisterWorker_ok:
  assumes ok: "metrics_ok m" and i: "registered i m"
  shows "metrics_ok (UnregisterWorker i m)"
proof (cases "i \<in> gmap_keys (m_workerLastIdle m)")
  case True
  with ok i gmap_pred [OF i] gmap_pred [OF True] idle_le_active [OF ok] show ?thesis
    by (auto simp: UnregisterWorker_def metrics_simps)
next
  case False
  then have "length (m_workerLastIdle m) < length (m_workerStartTime m)"
    using ok i by (auto simp: metrics_ok_def gmap_card intro!: psubset_card_mono)
  with False ok i gmap_pred [OF i] show ?thesis
    by (auto simp: UnregisterWorker_def metrics_simps)
qed

lemma MarkWorkerBusy_ok:
  assumes ok: "metrics_ok m" and run: "run_state (MarkWorkerBusy i m) w = (m', w')"
  shows "metrics_ok m'"
proof (cases "i \<in> gmap_keys (m_workerLastIdle m)")
  case True
  with ok have i: "i \<in> gmap_keys (m_workerStats m)" "registered i m" by (auto simp: metrics_ok_def)
  then obtain s where s: "map_of (m_workerStats m) i = Some s" using gmap_lookup [of "m_workerStats m" i] by auto
  from stats_bounded_lookup [OF _ s] ok have "length (ws_ProcessingTimes s) \<le> 100" by (simp add: metrics_ok_def)
  with True ok i s run gmap_pred [OF True] idle_le_active [OF ok] show ?thesis
    by (auto simp: MarkWorkerBusy_def run_simps metrics_simps insert_absorb)
next
  case False
  with ok run show ?thesis by (simp add: MarkWorkerBusy_def gmap_lookup)
qed

lemma MarkWorkerBusyWithTask_ok:
  assumes "metrics_ok m" and "run_state (MarkWorkerBusyWithTask i t ty m) w = (m', w')"
  shows "metrics_ok m'"
  using assms(2) MarkWorkerBusy_ok [OF assms(1), of i w]
  by (auto simp: MarkWorkerBusyWithTask_def run_simps metrics_ok_def split: prod.splits)

lemma MarkWorkerIdle_ok:
  assumes ok: "metrics_ok m" and i: "registered i m" and run: "run_state (MarkWorkerIdle i m) w = (m', w')"
  shows "metrics_ok m'"
proof (cases "i \<in> gmap_keys (m_workerLastIdle m)")
  case True
  with ok run gmap_lookup [of "m_workerLastIdle m" i] show ?thesis by (auto simp: MarkWorkerIdle_def)
next
  case False
  from ok i have "i \<in> gmap_keys (m_workerStats m)" by (auto simp: metrics_ok_def)
  then obtain s where s: "map_of (m_workerStats m) i = Some s" using gmap_lookup [of "m_workerStats m" i] by auto
  from stats_bounded_lookup [OF _ s] ok have "length (ws_ProcessingTimes s) \<le> 100" by (simp add: metrics_ok_def)
  moreover have "length (m_workerLastIdle m) < length (m_workerStartTime m)"
    using ok i False by (auto simp: metrics_ok_def gmap_card intro!: psubset_card_mono)
  ultimately show ?thesis
    using False ok i s run by (auto simp: MarkWorkerIdle_def run_simps metrics_simps insert_absorb)
qed

lemma RecordWorkerTaskCompleted_ok:
  assumes "metrics_ok m"
  shows "metrics_ok (RecordWorkerTaskCompleted i d b m)"
proof (cases "map_of (m_workerStats m) i")
  case None
  with assms show ?thesis by (simp add: RecordWorkerTaskCompleted_def)
next
  case (Some s)
  with stats_bounded_lookup [OF _ Some] assms gmap_lookup_Some [OF Some] show ?thesis
    by (auto simp: RecordWorkerTaskCompleted_def metrics_simps insert_absorb push_bounded_length)
qed

lemma updateThroughput_ok:
  "metrics_ok m \<Longrightarrow> run_state (updateThroughput rnd m) w = (m', w') \<Longrightarrow> metrics_ok m'"
  by (auto simp: updateThroughput_def run_simps metrics_ok_def push_bounded_length Let_def split: if_splits)

lemma RecordTaskCompleted_ok:
  assumes "metrics_ok m" and "run_state (RecordTaskCompleted rnd d m) w = (m', w')"
  shows "metrics_ok m'"
  using assms(2) unfolding RecordTaskCompleted_def Let_def
  by (rule updateThroughput_ok [rotated]) (use assms(1) in \<open>simp add: metrics_ok_def push_bounded_length\<close>)

lemma Reset_ok: "run_state (Reset m) w = (m', w') \<Longrightarrow> metrics_ok m'"
  by (auto simp: Reset_def run_simps metrics_ok_def stats_bounded_def)

lemma counters_ok:
  assumes "metrics_ok m"
  shows "metrics_ok (RecordTaskEnqueued m)" "metrics_ok (RecordTaskStarted m)" "metrics_ok (RecordTaskFailed m)"
    "metrics_ok (RecordTaskRetried m)"
  using assms by (simp_all add: metrics_ok_def RecordTaskEnqueued_def RecordTaskStarted_def RecordTaskFailed_def
      RecordTaskRetried_def)

lemma metrics_step_ok:
  assumes ok: "metrics_ok m" and step: "metrics_step rnd m m'"
  shows "metrics_ok m'"
  using step
proof cases
  case ms_depth
  with ok show ?thesis by (rule UpdateQueueDepth_ok)
next
  case ms_register
  with ok show ?thesis by (rule RegisterWorker_ok)
next
  case ms_unregister
  with ok UnregisterWorker_ok show ?thesis by blast
next
  case ms_busy
  with ok show ?thesis by (rule MarkWorkerBusy_ok)
next
  case ms_busy_task
  with ok show ?thesis by (rule MarkWorkerBusyWithTask_ok)
next
  case ms_idle
  with ok show ?thesis by (rule MarkWorkerIdle_ok)
next
  case ms_worker_task
  with ok RecordWorkerTaskCompleted_ok show ?thesis by blast
next
  case ms_completed
  with ok show ?thesis by (rule RecordTaskCompleted_ok)
next
  case ms_reset
  then show ?thesis by (rule Reset_ok)
qed (use counters_ok [OF ok] in blast)+

interpretation mtr: inductive_invariant metrics_init "metrics_step rnd" metrics_ok for rnd
  by unfold_locales (erule NewMetrics_ok, erule (1) metrics_step_ok)

subsection \<open>Throughput\<close>

lemma wrap64_cancel: "wrap64 (a - wrap64 (a - x)) = wrap64 x"
  by (simp add: wrap64_eq_sint)

lemma int64_of_wrap [simp]: "wrap64 (int64_of x) = int64_of x"
  unfolding int64_of_def by (rule wrap64_id) (rule wrap64_range)

text \<open>The number of tasks that \<open>updateThroughput\<close> attributes to the window.\<close>

lemma window_tasks:
  assumes "m_throughputSamples m \<noteq> []"
  shows "wrap64 (m_tasksProcessed m - getLastTotalTasks rnd m) =
    int64_of (rnd (ts_TasksPerSec (last (m_throughputSamples m)) *
      duration_Seconds rnd (ts_WindowSize (last (m_throughputSamples m)))))"
  using assms by (simp add: getLastTotalTasks_def Let_def wrap64_cancel)

subsection \<open>Queue depth history\<close>

definition observe_all :: "(int \<times> int \<times> int) list \<Rightarrow> 's Metrics \<Rightarrow> 's Metrics" where
  "observe_all xs m = foldl (\<lambda>m (d, now, now'). observe_depth d now now' m) m xs"

lemma observe_all_snoc: "observe_all (xs @ [(d, n, n')]) m = observe_depth d n n' (observe_all xs m)"
  by (simp add: observe_all_def)

lemma observe_depth_marks:
  "m_queueDepthHigh (observe_depth d n n' m) = max d (m_queueDepthHigh m)"
  "m_queueDepthLow (observe_depth d n n' m) = (if m_queueDepthLow m = 0 \<or> d < m_queueDepthLow m then d else m_queueDepthLow m)"
  "m_queueDepth (observe_depth d n n' m) = d"
  by (simp_all add: observe_depth_def Let_def)

lemma map_push_bounded: "map f (push_bounded n xs x) = push_bounded n (map f xs) (f x)"
  by (simp add: push_bounded_def Let_def drop_map [symmetric] del: drop_append)

lemma observe_all_series:
  assumes "m_queueDepthSeries m = []"
  shows "map qs_Depth (m_queueDepthSeries (observe_all xs m)) = drop (length xs - 100) (map fst xs)"
proof (induction xs rule: rev_induct)
  case Nil
  with assms show ?case by (simp add: observe_all_def)
next
  case (snoc x xs)
  obtain d n n' where x: "x = (d, n, n')" by (cases x)
  with snoc push_bounded_suffix [of "drop (length xs - 100) (map fst xs)" "map fst xs" 100 d] show ?case
    by (simp add: observe_all_snoc observe_depth_frame map_push_bounded)
qed

lemma observe_all_low:
  assumes "\<forall>x \<in> set xs. 0 \<le> fst x" and "m_queueDepthLow m = 0" and "xs \<noteq> []"
  shows "0 \<le> m_queueDepthLow (observe_all xs m) \<and> (m_queueDepthLow (observe_all xs m) = 0 \<longleftrightarrow> fst (last xs) = 0)"
  using assms(1,3)
proof (induction xs rule: rev_induct)
  case Nil
  then show ?case by simp
next
  case (snoc x xs)
  obtain d n n' where x: "x = (d, n, n')" by (cases x)
  show ?case
  proof (cases "xs = []")
    case True
    with x snoc.prems assms(2) show ?thesis by (simp add: observe_all_def observe_depth_marks)
  next
    case False
    with snoc x show ?thesis by (auto simp: observe_all_snoc observe_depth_marks)
  qed
qed

lemma observe_all_high:
  assumes "m_queueDepthHigh m = 0"
  shows "m_queueDepthHigh (observe_all xs m) = foldr max (map fst xs) 0"
proof -
  have fold: "foldr max (ys @ [d]) a = max d (foldr max ys a)" for ys and d a :: int
    by (induction ys) (simp_all add: max.left_commute)
  show ?thesis
  proof (induction xs rule: rev_induct)
    case Nil
    with assms show ?case by (simp add: observe_all_def)
  next
    case (snoc x xs)
    obtain d n n' where "x = (d, n, n')" by (cases x)
    with snoc fold [of "map fst xs" d 0] show ?case by (simp add: observe_all_snoc observe_depth_marks)
  qed
qed

section \<open>Properties\<close>



text \<open>After any sequence of depth measurements, the history holds the last 100 of them and the high
  water mark is the largest; the low water mark is zero exactly when the last measurement was: an
  empty queue is forgotten by the next measurement.\<close>

theorem depth_history_and_marks:
  assumes "\<forall>x \<in> set xs. 0 \<le> fst x" and "xs \<noteq> []"
    and "m_queueDepthSeries m = []" and "m_queueDepthHigh m = 0" and "m_queueDepthLow m = 0"
  shows "map qs_Depth (m_queueDepthSeries (observe_all xs m)) = drop (length xs - 100) (map fst xs) \<and>
    m_queueDepthHigh (observe_all xs m) = foldr max (map fst xs) 0 \<and>
    (m_queueDepthLow (observe_all xs m) = 0 \<longleftrightarrow> fst (last xs) = 0)"
  using observe_all_series [OF assms(3)] observe_all_high [OF assms(4)] observe_all_low [OF assms(1,5,2)] by simp

theorem depth_history_and_marks_witness:
  "let m = observe_all [(4, 0, 1), (0, 2, 3), (9, 4, 5)] (fst (run_state (NewMetrics (RQ (redis_client first_pick))) (start_world empty_db)))
   in map qs_Depth (m_queueDepthSeries m) = [4, 0, 9] \<and> m_queueDepthHigh m = 9 \<and> m_queueDepthLow m \<noteq> 0"
  using depth_history_and_marks [of "[(4, 0, 1), (0, 2, 3), (9, 4, 5)]"
      "fst (run_state (NewMetrics (RQ (redis_client first_pick))) (start_world empty_db))"]
  by (simp add: NewMetrics_def run_simps)

text \<open>Once there is a throughput sample, the number of tasks completed has no influence on the next
  one: the window's task count is computed from the previous sample alone, whatever the rounding of
  floating-point operations.\<close>

theorem throughput_ignores_completed_tasks:
  assumes "m_throughputSamples m \<noteq> []"
  shows "fst (run_state (updateThroughput rnd (m\<lparr>m_tasksProcessed := n\<rparr>)) w) =
    (fst (run_state (updateThroughput rnd m) w))\<lparr>m_tasksProcessed := n\<rparr>"
  using assms window_tasks [of m rnd] window_tasks [of "m\<lparr>m_tasksProcessed := n\<rparr>" rnd]
  by (simp add: updateThroughput_def run_simps Let_def)

theorem throughput_ignores_completed_tasks_witness:
  "let m = (fst (run_state (NewMetrics (RQ (redis_client first_pick))) (start_world empty_db)))
       \<lparr>m_throughputSamples := [\<lparr>ts_Timestamp = 0, ts_TasksPerSec = 2, ts_WindowSize = 5 * Second\<rparr>]\<rparr>
   in m_throughputSamples m \<noteq> [] \<and>
      fst (run_state (updateThroughput id (m\<lparr>m_tasksProcessed := 1000\<rparr>)) (start_world empty_db)) =
      (fst (run_state (updateThroughput id m) (start_world empty_db)))\<lparr>m_tasksProcessed := 1000\<rparr>"
  unfolding Let_def by (intro conjI throughput_ignores_completed_tasks) simp_all

end
