(* ===== verification/Spool_Web.thy ===== *)
theory Spool_Web
  imports Spool_Broker Spool_Metrics "HOL-Library.Multiset"
begin

text \<open>
  \<open>web/server.go\<close>: the dashboard. The handlers are functions of the request, the response
  writer and the server, which they return updated, because collecting metrics measures the
  queue. The server also holds the channels between its goroutines: the queue of updates to
  broadcast, the feed of task events, and for each connected client a buffer of updates and one
  of events; the goroutines are the steps of \<open>hub_step\<close>. Log output is left out. Replies are
  only shown, so every string of them is a \<open>JStr\<close>, timestamps too.
\<close>

section \<open>Definitions\<close>

subsection \<open>Data\<close>

record QueueDataPoint =
  qp_Timestamp :: string
  qp_Depth :: int

record ThroughputDataPoint =
  tp_Timestamp :: string
  tp_Throughput :: float64

record WorkerSummary =
  wm_ID :: string
  wm_State :: string
  wm_TasksCompleted :: int

record MetricsUpdate =
  mu_Timestamp :: string
  mu_QueueDepth :: int
  mu_QueueDepthHigh :: int
  mu_QueueDepthLow :: int
  mu_QueueTrend :: "QueueDataPoint list"
  mu_ThroughputTrend :: "ThroughputDataPoint list"
  mu_ActiveWorkers :: int
  mu_IdleWorkers :: int
  mu_BusyWorkers :: int
  mu_Workers :: "WorkerSummary list"
  mu_WorkerUtilization :: float64
  mu_TasksProcessed :: int
  mu_TasksFailed :: int
  mu_TasksRetried :: int
  mu_TasksEnqueued :: int
  mu_TasksInProgress :: int
  mu_CurrentThroughput :: float64
  mu_AvgThroughput :: float64
  mu_AvgProcessingTime :: string
  mu_P95ProcessingTime :: string
  mu_P99ProcessingTime :: string
  mu_Uptime :: string
  mu_OldestIdleTime :: string
  mu_DLQSize :: int
  mu_QueueHealth :: string

text \<open>The zero value, which a receive from a closed channel gives.\<close>

definition zero_update :: MetricsUpdate where
  "zero_update =
     \<lparr>mu_Timestamp = [], mu_QueueDepth = 0, mu_QueueDepthHigh = 0, mu_QueueDepthLow = 0, mu_QueueTrend = [],
      mu_ThroughputTrend = [], mu_ActiveWorkers = 0, mu_IdleWorkers = 0, mu_BusyWorkers = 0, mu_Workers = [],
      mu_WorkerUtilization = 0, mu_TasksProcessed = 0, mu_TasksFailed = 0, mu_TasksRetried = 0, mu_TasksEnqueued = 0,
      mu_TasksInProgress = 0, mu_CurrentThroughput = 0, mu_AvgThroughput = 0, mu_AvgProcessingTime = [],
      mu_P95ProcessingTime = [], mu_P99ProcessingTime = [], mu_Uptime = [], mu_OldestIdleTime = [], mu_DLQSize = 0,
      mu_QueueHealth = []\<rparr>"

record TaskEvent =
  te_ID :: string
  te_Type :: string
  te_Status :: string
  te_Duration :: string
  te_Timestamp :: string

text \<open>An empty string stands for a field that \<open>omitempty\<close> leaves out; a payload may be nil.\<close>

record TaskDetail =
  td_ID :: string
  td_Type :: string
  td_State :: string
  td_Priority :: int
  td_RetryCount :: int
  td_MaxRetries :: int
  td_CreatedAt :: string
  td_StartedAt :: string
  td_CompletedAt :: string
  td_Error :: string
  td_Metadata :: "(string \<times> json) list"
  td_Payload :: "blob option"

record CurrentTask =
  ct_ID :: string
  ct_Type :: string
  ct_StartTime :: string
  ct_ElapsedTime :: string

record WorkerDetailResponse =
  wd_ID :: string
  wd_State :: string
  wd_TasksCompleted :: int
  wd_TasksFailed :: int
  wd_TotalIdleTime :: string
  wd_TotalBusyTime :: string
  wd_AvgProcessingTime :: string
  wd_StartTime :: string
  wd_Uptime :: string
  wd_CurrentTask :: "CurrentTask option"

text \<open>
  A client: the buffer of \<open>send\<close> (10 updates) and whether it is closed, the buffer of its
  handler's \<open>taskEventCh\<close> (10 events), and whether the handler is still in its loop.
\<close>

record connection =
  cn_send :: "MetricsUpdate list"
  cn_closed :: bool
  cn_taskEventCh :: "TaskEvent list"
  cn_serving :: bool

text \<open>
  The connections are numbered in the order in which they were opened; \<open>sv_heap\<close> holds all of
  them, \<open>sv_connections\<close> those of the map. \<open>sv_locked\<close>: a handler panicked while it held \<open>mu\<close>, which
  nobody releases any more. \<open>sv_stopping\<close>: a call of \<open>Stop\<close> has closed \<open>done\<close> and not yet locked \<open>mu\<close>.
  The last two fields count the goroutines of \<open>broadcastMetrics\<close> and \<open>updateMetricsLoop\<close>.
\<close>

record 's Server =
  sv_metrics :: "'s Metrics"
  sv_queue :: "'s RedisQueue"
  sv_storage :: "'s RedisStorage option"
  sv_addr :: string
  sv_server :: bool
  sv_heap :: "connection list"
  sv_connections :: "nat list"
  sv_locked :: bool
  sv_broadcast :: "MetricsUpdate list"
  sv_taskEvents :: "TaskEvent list"
  sv_recentEvents :: "TaskEvent list"
  sv_maxRecentEvents :: nat
  sv_done :: bool
  sv_stopping :: bool
  sv_ready :: bool
  sv_broadcasters :: nat
  sv_updaters :: nat

definition NewServer :: "string \<Rightarrow> 's Metrics \<Rightarrow> 's RedisQueue \<Rightarrow> 's RedisStorage option \<Rightarrow> 's Server" where
  "NewServer addr m q st =
     \<lparr>sv_metrics = m, sv_queue = q, sv_storage = st, sv_addr = (if addr = [] then '':8080'' else addr),
      sv_server = False, sv_heap = [], sv_connections = [], sv_locked = False, sv_broadcast = [],
      sv_taskEvents = [], sv_recentEvents = [], sv_maxRecentEvents = 20, sv_done = False, sv_stopping = False,
      sv_ready = False, sv_broadcasters = 0, sv_updaters = 0\<rparr>"

text \<open>
  What the dashboard finds around it: the rounding of floating-point operations and the JSON
  literal of a number, the state of the five-second context at each of the queue operations it
  is used for, the template of the page and the static files, whether the response writer can
  flush, and what a client's handler receives until the client disconnects.
\<close>

record dash_env =
  de_rounding :: rounding
  de_float :: "float64 \<Rightarrow> json"
  de_timeout :: "nat \<Rightarrow> ctx"
  de_template :: "gerr + (string \<Rightarrow> blob list)"
  de_static :: "http_request \<Rightarrow> http_writer \<Rightarrow> http_writer"
  de_flusher :: bool
  de_feed :: "(MetricsUpdate + TaskEvent) list"

subsection \<open>JSON forms\<close>

definition QueueDataPoint_json :: "QueueDataPoint \<Rightarrow> json" where
  "QueueDataPoint_json p = JObj [(''timestamp'', JStr (qp_Timestamp p)), (''depth'', JNum (qp_Depth p))]"

definition ThroughputDataPoint_json :: "(float64 \<Rightarrow> json) \<Rightarrow> ThroughputDataPoint \<Rightarrow> json" where
  "ThroughputDataPoint_json fl p =
     JObj [(''timestamp'', JStr (tp_Timestamp p)), (''throughput'', fl (tp_Throughput p))]"

definition WorkerSummary_json :: "WorkerSummary \<Rightarrow> json" where
  "WorkerSummary_json w =
     JObj [(''id'', JStr (wm_ID w)), (''state'', JStr (wm_State w)), (''tasksCompleted'', JNum (wm_TasksCompleted w))]"

definition MetricsUpdate_json :: "(float64 \<Rightarrow> json) \<Rightarrow> MetricsUpdate \<Rightarrow> json" where
  "MetricsUpdate_json fl u =
     JObj [(''timestamp'', JStr (mu_Timestamp u)), (''queueDepth'', JNum (mu_QueueDepth u)),
       (''queueDepthHigh'', JNum (mu_QueueDepthHigh u)), (''queueDepthLow'', JNum (mu_QueueDepthLow u)),
       (''queueTrend'', JArr (map QueueDataPoint_json (mu_QueueTrend u))),
       (''throughputTrend'', JArr (map (ThroughputDataPoint_json fl) (mu_ThroughputTrend u))),
       (''activeWorkers'', JNum (mu_ActiveWorkers u)), (''idleWorkers'', JNum (mu_IdleWorkers u)),
       (''busyWorkers'', JNum (mu_BusyWorkers u)), (''workers'', JArr (map WorkerSummary_json (mu_Workers u))),
       (''workerUtilization'', fl (mu_WorkerUtilization u)), (''tasksProcessed'', JNum (mu_TasksProcessed u)),
       (''tasksFailed'', JNum (mu_TasksFailed u)), (''tasksRetried'', JNum (mu_TasksRetried u)),
       (''tasksEnqueued'', JNum (mu_TasksEnqueued u)), (''tasksInProgress'', JNum (mu_TasksInProgress u)),
       (''currentThroughput'', fl (mu_CurrentThroughput u)), (''avgThroughput'', fl (mu_AvgThroughput u)),
       (''avgProcessingTime'', JStr (mu_AvgProcessingTime u)), (''p95ProcessingTime'', JStr (mu_P95ProcessingTime u)),
       (''p99ProcessingTime'', JStr (mu_P99ProcessingTime u)), (''uptime'', JStr (mu_Uptime u)),
       (''oldestIdleTime'', JStr (mu_OldestIdleTime u)), (''dlqSize'', JNum (mu_DLQSize u)),
       (''queueHealth'', JStr (mu_QueueHealth u))]"

definition TaskEvent_json :: "TaskEvent \<Rightarrow> json" where
  "TaskEvent_json e =
     JObj [(''id'', JStr (te_ID e)), (''type'', JStr (te_Type e)), (''status'', JStr (te_Status e)),
       (''duration'', JStr (te_Duration e)), (''timestamp'', JStr (te_Timestamp e))]"

definition str_member :: "string \<Rightarrow> string \<Rightarrow> (string \<times> json) list" where
  "str_member k s = (if s = [] then [] else [(k, JStr s)])"

definition TaskDetail_json :: "TaskDetail \<Rightarrow> gerr + json" where
  "TaskDetail_json d =
     (let close = (\<lambda>payload. Inr (JObj (
            [(''id'', JStr (td_ID d)), (''type'', JStr (td_Type d)), (''state'', JStr (td_State d)),
             (''priority'', JNum (td_Priority d)), (''retryCount'', JNum (td_RetryCount d)),
             (''maxRetries'', JNum (td_MaxRetries d)), (''createdAt'', JStr (td_CreatedAt d))] @
            str_member ''startedAt'' (td_StartedAt d) @ str_member ''completedAt'' (td_CompletedAt d) @
            str_member ''error'' (td_Error d) @
            (if td_Metadata d = [] then [] else [(''metadata'', JObj (td_Metadata d))]) @ payload)))
      in case td_Payload d of
           None \<Rightarrow> close []
         | Some (Doc p) \<Rightarrow> close [(''payload'', p)]
         | Some (Text s) \<Rightarrow>
             if s = [] then close [] else Inl (Err ''json: error calling MarshalJSON for type json.RawMessage''))"

definition CurrentTask_json :: "CurrentTask \<Rightarrow> json" where
  "CurrentTask_json c =
     JObj [(''id'', JStr (ct_ID c)), (''type'', JStr (ct_Type c)), (''startTime'', JStr (ct_StartTime c)),
       (''elapsedTime'', JStr (ct_ElapsedTime c))]"

definition WorkerDetailResponse_json :: "WorkerDetailResponse \<Rightarrow> json" where
  "WorkerDetailResponse_json d =
     JObj ([(''id'', JStr (wd_ID d)), (''state'', JStr (wd_State d)), (''tasksCompleted'', JNum (wd_TasksCompleted d)),
       (''tasksFailed'', JNum (wd_TasksFailed d)), (''totalIdleTime'', JStr (wd_TotalIdleTime d)),
       (''totalBusyTime'', JStr (wd_TotalBusyTime d)), (''avgProcessingTime'', JStr (wd_AvgProcessingTime d)),
       (''startTime'', JStr (wd_StartTime d)), (''uptime'', JStr (wd_Uptime d))] @
       (case wd_CurrentTask d of None \<Rightarrow> [] | Some c \<Rightarrow> [(''currentTask'', CurrentTask_json c)]))"

subsection \<open>Collecting metrics\<close>

definition summarize :: "WorkerStats \<Rightarrow> WorkerSummary" where
  "summarize w = \<lparr>wm_ID = ws_ID w, wm_State = ws_State w, wm_TasksCompleted = ws_TasksCompleted w\<rparr>"

definition worker_utilization :: "rounding \<Rightarrow> MetricsSnapshot \<Rightarrow> float64" where
  "worker_utilization rnd sn =
     (if ms_ActiveWorkers sn > 0
      then rnd (rnd (float_of rnd (ms_BusyWorkers sn) / float_of rnd (ms_ActiveWorkers sn)) * 100)
      else 0)"

definition round_string :: "int \<Rightarrow> int \<Rightarrow> string" where
  "round_string d m = duration_String (duration_Round d m)"

definition collectMetrics :: "dash_env \<Rightarrow> 's Server \<Rightarrow> ('s, MetricsUpdate \<times> 's Server) io" where
  "collectMetrics env s = do {
     (e, m) \<leftarrow> UpdateQueueDepth (de_timeout env 0) (sv_metrics s);
     sn \<leftarrow> Snapshot (de_rounding env) m;
     trend \<leftarrow> GetQueueDepthTrend (5 * Minute) m;
     history \<leftarrow> GetThroughputTrend (5 * Minute) m;
     dlq \<leftarrow> GetDLQSize (sv_queue s) (de_timeout env 1);
     h \<leftarrow> Health (sv_queue s) (de_timeout env 2);
     now \<leftarrow> time_Now;
     ret (\<lparr>mu_Timestamp = rfc3339 now, mu_QueueDepth = ms_QueueDepth sn, mu_QueueDepthHigh = ms_QueueDepthHigh sn,
        mu_QueueDepthLow = ms_QueueDepthLow sn,
        mu_QueueTrend = map (\<lambda>p. \<lparr>qp_Timestamp = rfc3339 (qs_Timestamp p), qp_Depth = qs_Depth p\<rparr>) trend,
        mu_ThroughputTrend =
          map (\<lambda>p. \<lparr>tp_Timestamp = rfc3339 (ts_Timestamp p), tp_Throughput = ts_TasksPerSec p\<rparr>) history,
        mu_ActiveWorkers = ms_ActiveWorkers sn, mu_IdleWorkers = ms_IdleWorkers sn, mu_BusyWorkers = ms_BusyWorkers sn,
        mu_Workers = map summarize (GetAllWorkerDetails m),
        mu_WorkerUtilization = worker_utilization (de_rounding env) sn,
        mu_TasksProcessed = ms_TasksProcessed sn, mu_TasksFailed = ms_TasksFailed sn,
        mu_TasksRetried = ms_TasksRetried sn, mu_TasksEnqueued = ms_TasksEnqueued sn,
        mu_TasksInProgress = ms_TasksInProgress sn, mu_CurrentThroughput = ms_CurrentThroughput sn,
        mu_AvgThroughput = ms_AvgThroughput sn,
        mu_AvgProcessingTime = round_string (ms_AvgProcessingTime sn) Millisecond,
        mu_P95ProcessingTime = round_string (ms_P95ProcessingTime sn) Millisecond,
        mu_P99ProcessingTime = round_string (ms_P99ProcessingTime sn) Millisecond,
        mu_Uptime = round_string (ms_Uptime sn) Second,
        mu_OldestIdleTime = round_string (ms_OldestIdleTime sn) Second,
        mu_DLQSize = (case dlq of Inl _ \<Rightarrow> 0 | Inr n \<Rightarrow> n),
        mu_QueueHealth = (case h of Some _ \<Rightarrow> ''unhealthy'' | None \<Rightarrow> ''healthy'')\<rparr>,
       s\<lparr>sv_metrics := m\<rparr>)
   }"

subsection \<open>The feed of task events and the connections\<close>

text \<open>A send in a \<open>select\<close> with a \<open>default\<close>: an element that does not fit is dropped.\<close>

definition try_send :: "nat \<Rightarrow> 'a list \<Rightarrow> 'a \<Rightarrow> 'a list" where
  "try_send cap buf x = (if length buf < cap then buf @ [x] else buf)"

text \<open>\<open>Panics\<close> takes the process down; \<open>Blocks\<close>: the call does not return in this state.\<close>

datatype 'a call_outcome = Blocks | Panics | Returns 'a

definition BroadcastTaskEvent :: "string \<Rightarrow> string \<Rightarrow> string \<Rightarrow> int \<Rightarrow> 's Server \<Rightarrow> ('s, 's Server) io" where
  "BroadcastTaskEvent taskID taskType status duration s = do {
     now \<leftarrow> time_Now;
     let event = \<lparr>te_ID = taskID, te_Type = taskType, te_Status = status,
           te_Duration = round_string duration Millisecond, te_Timestamp = rfc3339 now\<rparr>;
     ret (s\<lparr>sv_recentEvents := push_bounded (sv_maxRecentEvents s) (sv_recentEvents s) event,
            sv_taskEvents := try_send 100 (sv_taskEvents s) event\<rparr>)
   }"

definition getRecentEvents :: "'s Server \<Rightarrow> TaskEvent list" where
  "getRecentEvents s = sv_recentEvents s"

definition new_connection :: connection where
  "new_connection = \<lparr>cn_send = [], cn_closed = False, cn_taskEventCh = [], cn_serving = True\<rparr>"

definition conn_update :: "nat \<Rightarrow> (connection \<Rightarrow> connection) \<Rightarrow> 's Server \<Rightarrow> 's Server" where
  "conn_update i f s = s\<lparr>sv_heap := (sv_heap s)[i := f (sv_heap s ! i)]\<rparr>"

text \<open>The parts of \<open>handleWebSocket\<close>: registering the connection, \<dots>\<close>

definition ws_register :: "'s Server \<Rightarrow> (nat \<times> 's Server) call_outcome" where
  "ws_register s =
     (if sv_locked s then Blocks
      else Returns (length (sv_heap s),
        s\<lparr>sv_heap := sv_heap s @ [new_connection], sv_connections := sv_connections s @ [length (sv_heap s)]\<rparr>))"

text \<open>\<dots> the goroutine that moves task events into the handler's own buffer, \<dots>\<close>

definition ws_subscribe :: "nat \<Rightarrow> 's Server \<Rightarrow> 's Server call_outcome" where
  "ws_subscribe i s =
     (case sv_taskEvents s of
        [] \<Rightarrow> Blocks
      | event # events \<Rightarrow>
          Returns (conn_update i (\<lambda>c. c\<lparr>cn_taskEventCh := try_send 10 (cn_taskEventCh c) event\<rparr>)
            (s\<lparr>sv_taskEvents := events\<rparr>)))"

text \<open>\<dots> receiving an update (a closed channel gives the zero value when its buffer is empty) or an event, \<dots>\<close>

definition ws_update :: "nat \<Rightarrow> 's Server \<Rightarrow> (MetricsUpdate \<times> 's Server) call_outcome" where
  "ws_update i s =
     (case cn_send (sv_heap s ! i) of
        u # us \<Rightarrow> Returns (u, conn_update i (\<lambda>c. c\<lparr>cn_send := us\<rparr>) s)
      | [] \<Rightarrow> if cn_closed (sv_heap s ! i) then Returns (zero_update, s) else Blocks)"

definition ws_event :: "nat \<Rightarrow> 's Server \<Rightarrow> (TaskEvent \<times> 's Server) call_outcome" where
  "ws_event i s =
     (case cn_taskEventCh (sv_heap s ! i) of
        e # es \<Rightarrow> Returns (e, conn_update i (\<lambda>c. c\<lparr>cn_taskEventCh := es\<rparr>) s)
      | [] \<Rightarrow> Blocks)"

text \<open>
  \<dots> and the end, when the client disconnects. Closing a closed channel panics; \<open>net/http\<close> recovers
  the panic of a handler, but \<open>mu\<close> stays locked.
\<close>

definition ws_disconnect :: "nat \<Rightarrow> 's Server \<Rightarrow> 's Server call_outcome" where
  "ws_disconnect i s =
     (if sv_locked s then Blocks
      else
        (let s = s\<lparr>sv_connections := filter (\<lambda>j. j \<noteq> i) (sv_connections s)\<rparr>
         in if cn_closed (sv_heap s ! i)
            then Returns (conn_update i (\<lambda>c. c\<lparr>cn_serving := False\<rparr>) (s\<lparr>sv_locked := True\<rparr>))
            else Returns (conn_update i (\<lambda>c. c\<lparr>cn_closed := True, cn_serving := False\<rparr>) s)))"

text \<open>The loops over the connections, which send on \<open>send\<close> or close it: on a closed channel both panic.\<close>

fun for_connections :: "(connection \<Rightarrow> connection) \<Rightarrow> nat list \<Rightarrow> connection list \<Rightarrow> connection list option" where
  "for_connections f [] h = Some h"
| "for_connections f (i # is) h = (if cn_closed (h ! i) then None else for_connections f is (h[i := f (h ! i)]))"

definition offer :: "MetricsUpdate \<Rightarrow> connection \<Rightarrow> connection" where
  "offer u c = c\<lparr>cn_send := try_send 10 (cn_send c) u\<rparr>"

definition close_send :: "connection \<Rightarrow> connection" where
  "close_send c = c\<lparr>cn_closed := True\<rparr>"

definition broadcast_once :: "'s Server \<Rightarrow> 's Server call_outcome" where
  "broadcast_once s =
     (case sv_broadcast s of
        [] \<Rightarrow> Blocks
      | u # us \<Rightarrow>
          if sv_locked s then Blocks
          else
            (case for_connections (offer u) (sv_connections s) (sv_heap s) of
               None \<Rightarrow> Panics
             | Some h \<Rightarrow> Returns (s\<lparr>sv_broadcast := us, sv_heap := h\<rparr>)))"

text \<open>
  One round of the loop: the \<open>select\<close> takes the case of \<open>done\<close>, which ends the loop, or the other one.
\<close>

definition broadcastMetrics :: "bool \<Rightarrow> 's Server \<Rightarrow> 's Server call_outcome" where
  "broadcastMetrics take_done s =
     (if take_done then if sv_done s then Returns (s\<lparr>sv_broadcasters := sv_broadcasters s - 1\<rparr>) else Blocks
      else broadcast_once s)"

definition update_tick :: "dash_env \<Rightarrow> 's Server \<Rightarrow> ('s, 's Server) io" where
  "update_tick env s = do {
     (u, s) \<leftarrow> collectMetrics env s;
     ret (s\<lparr>sv_broadcast := try_send 100 (sv_broadcast s) u\<rparr>)
   }"

definition updateMetricsLoop :: "dash_env \<Rightarrow> bool \<Rightarrow> 's Server \<Rightarrow> ('s, 's Server call_outcome) io" where
  "updateMetricsLoop env take_done s =
     (if take_done then ret (if sv_done s then Returns (s\<lparr>sv_updaters := sv_updaters s - 1\<rparr>) else Blocks)
      else do { s \<leftarrow> update_tick env s; ret (Returns s) })"

subsection \<open>Start and stop\<close>

text \<open>Up to \<open>ListenAndServe\<close>.\<close>

definition Server_Start :: "'s Server \<Rightarrow> 's Server call_outcome" where
  "Server_Start s =
     (let s = s\<lparr>sv_server := True, sv_broadcasters := sv_broadcasters s + 1, sv_updaters := sv_updaters s + 1\<rparr>
      in if sv_ready s then Panics else Returns (s\<lparr>sv_ready := True\<rparr>))"

definition Stop_done :: "'s Server \<Rightarrow> 's Server call_outcome" where
  "Stop_done s = (if sv_done s then Panics else Returns (s\<lparr>sv_done := True, sv_stopping := True\<rparr>))"

definition Stop_connections :: "'s Server \<Rightarrow> 's Server call_outcome" where
  "Stop_connections s =
     (if sv_locked s then Blocks
      else
        (case for_connections close_send (sv_connections s) (sv_heap s) of
           None \<Rightarrow> Panics
         | Some h \<Rightarrow> Returns (s\<lparr>sv_heap := h, sv_connections := [], sv_stopping := False\<rparr>)))"

definition Server_Stop :: "(ctx \<Rightarrow> gerr option) \<Rightarrow> ctx \<Rightarrow> 's Server \<Rightarrow> (gerr option \<times> 's Server) call_outcome" where
  "Server_Stop shutdown c s =
     (case Stop_done s of
        Returns s \<Rightarrow>
          (case Stop_connections s of
             Returns s \<Rightarrow> Returns (if sv_server s then shutdown c else None, s)
           | Panics \<Rightarrow> Panics
           | Blocks \<Rightarrow> Blocks)
      | Panics \<Rightarrow> Panics
      | Blocks \<Rightarrow> Blocks)"

subsection \<open>Handlers\<close>

type_synonym 's dash_fn =
  "http_request \<Rightarrow> http_writer \<Rightarrow> 's Server \<Rightarrow> ('s, (http_writer \<times> 's Server) call_outcome) io"

abbreviation (input) done_with :: "'s Server \<Rightarrow> http_writer \<Rightarrow> ('s, (http_writer \<times> 's Server) call_outcome) io" where
  "done_with s w \<equiv> ret (Returns (w, s))"

definition json_header :: "http_writer \<Rightarrow> http_writer" where
  "json_header w = Header_Set ''Content-Type'' ''application/json'' w"

definition handleDashboard :: "dash_env \<Rightarrow> 's dash_fn" where
  "handleDashboard env r w s =
     (if rq_Path r \<noteq> ''/'' then done_with s (http_Error ''404 page not found'' 404 w)
      else
        (case de_template env of
           Inl e \<Rightarrow> done_with s (http_Error ''Internal Server Error'' 500 w)
         | Inr tmpl \<Rightarrow>
             done_with s (fold Write_Body (tmpl ''Spool Dashboard'')
               (Header_Set ''Content-Type'' ''text/html; charset=utf-8'' w))))"

definition handleMetrics :: "dash_env \<Rightarrow> 's dash_fn" where
  "handleMetrics env r w s =
     (if rq_Method r \<noteq> ''GET'' then done_with s (http_Error ''Method not allowed'' 405 w)
      else do {
        (update, s) \<leftarrow> collectMetrics env s;
        done_with s (Encode (Inr (MetricsUpdate_json (de_float env) update)) (json_header w))
      })"

text \<open>A frame of the event stream, in the three pieces of its format.\<close>

definition sse_frame :: "string \<Rightarrow> json \<Rightarrow> http_writer \<Rightarrow> http_writer" where
  "sse_frame kind j w =
     Write_Body (Text [CHR 0x0A, CHR 0x0A])
       (Write_Body (Doc j) (Write_Body (Text (''event: '' @ kind @ [CHR 0x0A] @ ''data: '')) w))"

definition sse_input :: "dash_env \<Rightarrow> MetricsUpdate + TaskEvent \<Rightarrow> http_writer \<Rightarrow> http_writer" where
  "sse_input env x w =
     (case x of
        Inl u \<Rightarrow> sse_frame ''metrics'' (MetricsUpdate_json (de_float env) u) w
      | Inr e \<Rightarrow> sse_frame ''task'' (TaskEvent_json e) w)"

definition handleWebSocket :: "dash_env \<Rightarrow> 's dash_fn" where
  "handleWebSocket env r w s =
     (let w = Header_Set ''Content-Type'' ''text/event-stream'' w;
          w = Header_Set ''Cache-Control'' ''no-cache'' w;
          w = Header_Set ''Connection'' ''keep-alive'' w
      in if \<not> de_flusher env then done_with s (http_Error ''Streaming unsupported'' 500 w)
         else
           (case ws_register s of
              Returns (i, s) \<Rightarrow> do {
                (initialMetrics, s) \<leftarrow> collectMetrics env s;
                let w = sse_frame ''metrics'' (MetricsUpdate_json (de_float env) initialMetrics) w;
                let w = fold (\<lambda>e. sse_frame ''task'' (TaskEvent_json e)) (getRecentEvents s) w;
                let w = fold (sse_input env) (de_feed env) w;
                (case ws_disconnect i s of
                   Returns s \<Rightarrow> done_with s w
                 | Panics \<Rightarrow> ret Panics
                 | Blocks \<Rightarrow> ret Blocks)
              }
            | Panics \<Rightarrow> ret Panics
            | Blocks \<Rightarrow> ret Blocks))"

text \<open>The conversions to \<open>TaskDetail\<close>; the three handlers differ in the metadata and the payload.\<close>

definition detail_of :: "task \<Rightarrow> TaskDetail" where
  "detail_of t =
     \<lparr>td_ID = t_ID t, td_Type = t_Type t, td_State = t_State t, td_Priority = t_Priority t,
      td_RetryCount = t_RetryCount t, td_MaxRetries = t_MaxRetries t, td_CreatedAt = rfc3339 (t_CreatedAt t),
      td_StartedAt = (case t_StartedAt t of None \<Rightarrow> [] | Some x \<Rightarrow> rfc3339 x),
      td_CompletedAt = (case t_CompletedAt t of None \<Rightarrow> [] | Some x \<Rightarrow> rfc3339 x),
      td_Error = t_Error t, td_Metadata = [], td_Payload = None\<rparr>"

definition listed_detail :: "task \<Rightarrow> TaskDetail" where
  "listed_detail t = (detail_of t)\<lparr>td_Metadata := t_Metadata t\<rparr>"

definition full_detail :: "task \<Rightarrow> TaskDetail" where
  "full_detail t = (listed_detail t)\<lparr>td_Payload := Some (t_Payload t)\<rparr>"

text \<open>The loops that sort in place: an element is exchanged with every later one that is larger.\<close>

definition exchange :: "('a \<Rightarrow> 'k::linorder) \<Rightarrow> nat \<Rightarrow> nat \<Rightarrow> 'a list \<Rightarrow> 'a list" where
  "exchange key i j xs = (if key (xs ! i) < key (xs ! j) then xs[i := xs ! j, j := xs ! i] else xs)"

definition sort_pass :: "('a \<Rightarrow> 'k::linorder) \<Rightarrow> nat \<Rightarrow> 'a list \<Rightarrow> 'a list" where
  "sort_pass key i xs = fold (exchange key i) [Suc i..<length xs] xs"

definition newest_first :: "TaskDetail list \<Rightarrow> TaskDetail list" where
  "newest_first ds = fold (sort_pass td_CreatedAt) [0..<length ds - 1] ds"

fun encode_list :: "(gerr + json) list \<Rightarrow> gerr + json list" where
  "encode_list [] = Inr []"
| "encode_list (x # xs) =
     (case x of Inl e \<Rightarrow> Inl e
      | Inr j \<Rightarrow> (case encode_list xs of Inl e \<Rightarrow> Inl e | Inr js \<Rightarrow> Inr (j # js)))"

definition details_reply :: "TaskDetail list \<Rightarrow> gerr + json" where
  "details_reply ds =
     (case encode_list (map TaskDetail_json ds) of Inl e \<Rightarrow> Inl e
      | Inr js \<Rightarrow> Inr (JObj [(''tasks'', JArr js), (''total'', JNum (int (length ds)))]))"

definition found :: "gerr + task list \<Rightarrow> task list" where
  "found x = (case x of Inl e \<Rightarrow> [] | Inr ts \<Rightarrow> ts)"

definition handleTasks :: "'s dash_fn" where
  "handleTasks r w s =
     (if rq_Method r \<noteq> ''GET'' then done_with s (http_Error ''Method not allowed'' 405 w)
      else
        (case sv_storage s of
           None \<Rightarrow> done_with s (Encode (details_reply []) (json_header w))
         | Some st \<Rightarrow> do {
             let limit = 50;
             completedTasks \<leftarrow> GetTasksByState st (rq_Context r) StateCompleted (limit div 3);
             failedTasks \<leftarrow> GetTasksByState st (rq_Context r) StateFailed (limit div 3);
             processingTasks \<leftarrow> GetTasksByState st (rq_Context r) StateProcessing (limit div 3);
             let allTasks = found completedTasks @ found failedTasks @ found processingTasks;
             let details = newest_first (map listed_detail allTasks);
             done_with s (Encode (details_reply details) (json_header w))
           }))"

definition handleTaskDetail :: "'s dash_fn" where
  "handleTaskDetail r w s =
     (if rq_Method r \<noteq> ''GET'' then done_with s (http_Error ''Method not allowed'' 405 w)
      else
        (let taskID = drop (length ''/api/tasks/'') (rq_Path r)
         in if taskID = [] then done_with s (http_Error ''Task ID required'' 400 w)
            else
              (case sv_storage s of
                 None \<Rightarrow> done_with s (http_Error ''Storage not configured'' 503 w)
               | Some st \<Rightarrow> do {
                   x \<leftarrow> GetTask st (rq_Context r) taskID;
                   (case x of
                      Inl e \<Rightarrow> done_with s (http_Error ''Task not found'' 404 w)
                    | Inr t \<Rightarrow>
                        (case TaskDetail_json (full_detail t) of
                           Inl e \<Rightarrow> done_with s (http_Error ''Failed to encode task detail'' 500 (json_header w))
                         | Inr j \<Rightarrow> done_with s (Encode (Inr j) (json_header w))))
                 })))"

definition handleDLQ :: "'s dash_fn" where
  "handleDLQ r w s =
     (if rq_Method r \<noteq> ''GET'' then done_with s (http_Error ''Method not allowed'' 405 w)
      else do {
        x \<leftarrow> GetDLQTasks (sv_queue s) (rq_Context r) 100;
        (case x of
           Inl e \<Rightarrow> done_with s (http_Error ''Failed to fetch DLQ tasks'' 500 w)
         | Inr tasks \<Rightarrow> done_with s (Encode (details_reply (map detail_of tasks)) (json_header w)))
      })"

definition handleWorkers :: "'s dash_fn" where
  "handleWorkers r w s =
     (let summaries = map summarize (GetAllWorkerDetails (sv_metrics s))
      in done_with s (Encode (Inr (JObj [(''total'', JNum (int (length summaries))),
             (''workers'', JArr (map WorkerSummary_json summaries))])) (json_header w)))"

definition average_time :: "int list \<Rightarrow> int" where
  "average_time ts = (if ts = [] then 0 else foldl (\<lambda>sum t. wrap64 (sum + t)) 0 ts sdiv int (length ts))"

definition handleWorkerDetail :: "'s dash_fn" where
  "handleWorkerDetail r w s =
     (let workerID = drop (length ''/api/workers/'') (rq_Path r)
      in if workerID = [] then done_with s (http_Error ''Worker ID required'' 400 w)
         else
           (case GetWorkerDetails workerID (sv_metrics s) of
              None \<Rightarrow> done_with s (http_Error ''Worker not found'' 404 w)
            | Some (stats, currentTask) \<Rightarrow> do {
                now \<leftarrow> time_Now;
                let response = \<lparr>wd_ID = ws_ID stats, wd_State = ws_State stats,
                      wd_TasksCompleted = ws_TasksCompleted stats, wd_TasksFailed = ws_TasksFailed stats,
                      wd_TotalIdleTime = round_string (ws_TotalIdleTime stats) Second,
                      wd_TotalBusyTime = round_string (ws_TotalBusyTime stats) Second,
                      wd_AvgProcessingTime = round_string (average_time (ws_ProcessingTimes stats)) Millisecond,
                      wd_StartTime = rfc3339 (ws_StartTime stats),
                      wd_Uptime = round_string (time_Sub now (ws_StartTime stats)) Second, wd_CurrentTask = None\<rparr>;
                response \<leftarrow> (case currentTask of
                   None \<Rightarrow> ret response
                 | Some t \<Rightarrow> do {
                     now' \<leftarrow> time_Now;
                     ret (response\<lparr>wd_CurrentTask := Some \<lparr>ct_ID = ti_ID t, ct_Type = ti_Type t,
                       ct_StartTime = rfc3339 (ti_StartTime t),
                       ct_ElapsedTime = round_string (time_Sub now' (ti_StartTime t)) Millisecond\<rparr>\<rparr>)
                   });
                done_with s (Encode (Inr (WorkerDetailResponse_json response)) (json_header w))
              }))"

definition handleHealth :: "'s dash_fn" where
  "handleHealth r w s = do {
     now \<leftarrow> time_Now;
     e \<leftarrow> Health (sv_queue s) (rq_Context r);
     (case e of
        Some err \<Rightarrow>
          done_with s (Encode (Inr (JObj [(''queue_error'', JStr (err_Error err)), (''status'', JStr ''unhealthy''),
              (''timestamp'', JStr (rfc3339 now))])) (json_header (WriteHeader 503 w)))
      | None \<Rightarrow>
          done_with s (Encode (Inr (JObj [(''status'', JStr ''healthy''), (''timestamp'', JStr (rfc3339 now))]))
            (json_header w)))
   }"

subsection \<open>Middleware and routes\<close>

definition dash_withCORS :: "'s dash_fn \<Rightarrow> 's dash_fn" where
  "dash_withCORS next r w s =
     (let w = Header_Set ''Access-Control-Allow-Origin'' ''*'' w;
          w = Header_Set ''Access-Control-Allow-Methods'' ''GET, POST, OPTIONS'' w;
          w = Header_Set ''Access-Control-Allow-Headers'' ''Content-Type'' w
      in if rq_Method r = ''OPTIONS'' then done_with s (WriteHeader 200 w) else next r w s)"

definition dash_withLogging :: "'s dash_fn \<Rightarrow> 's dash_fn" where
  "dash_withLogging next r w s = do { start \<leftarrow> time_Now; x \<leftarrow> next r w s; now \<leftarrow> time_Now; ret x }"

definition dash_routes :: "dash_env \<Rightarrow> (string \<times> 's dash_fn) list" where
  "dash_routes env =
     [(''/'', handleDashboard env), (''/api/metrics'', handleMetrics env), (''/api/ws'', handleWebSocket env),
      (''/api/tasks'', handleTasks), (''/api/tasks/'', handleTaskDetail), (''/api/dlq'', handleDLQ),
      (''/api/workers'', handleWorkers), (''/api/workers/'', handleWorkerDetail), (''/health'', handleHealth),
      (''/static/'', \<lambda>r w s. done_with s (de_static env r w))]"

definition dash_mux :: "dash_env \<Rightarrow> 's dash_fn" where
  "dash_mux env r w s =
     (case mux_route (dash_routes env) r w of Inl w' \<Rightarrow> done_with s w' | Inr h \<Rightarrow> h r w s)"

definition dash_handler :: "dash_env \<Rightarrow> 's dash_fn" where
  "dash_handler env = dash_withLogging (dash_withCORS (dash_mux env))"

subsection \<open>The goroutines\<close>

text \<open>
  Everything that happens to a server: calls of \<open>Start\<close>, \<open>BroadcastTaskEvent\<close> and \<open>Stop\<close>, the ticks of the
  two loops, and for each client its connection, its handler and its subscription, in any order.
\<close>

definition connected :: "'s Server \<Rightarrow> nat \<Rightarrow> bool" where
  "connected s i \<longleftrightarrow> i < length (sv_heap s) \<and> cn_serving (sv_heap s ! i)"

inductive hub_step :: "'s Server \<Rightarrow> 's Server \<Rightarrow> bool" where
  hs_start: "Server_Start s = Returns s' \<Longrightarrow> hub_step s s'"
| hs_task: "run_state (BroadcastTaskEvent i ty st d s) w = (s', w') \<Longrightarrow> hub_step s s'"
| hs_tick: "0 < sv_updaters s \<Longrightarrow> run_state (updateMetricsLoop env b s) w = (Returns s', w') \<Longrightarrow> hub_step s s'"
| hs_broadcast: "0 < sv_broadcasters s \<Longrightarrow> broadcastMetrics b s = Returns s' \<Longrightarrow> hub_step s s'"
| hs_connect: "ws_register s = Returns (i, s') \<Longrightarrow> hub_step s s'"
| hs_subscribe: "connected s i \<Longrightarrow> ws_subscribe i s = Returns s' \<Longrightarrow> hub_step s s'"
| hs_update: "connected s i \<Longrightarrow> ws_update i s = Returns (u, s') \<Longrightarrow> hub_step s s'"
| hs_event: "connected s i \<Longrightarrow> ws_event i s = Returns (e, s') \<Longrightarrow> hub_step s s'"
| hs_disconnect: "connected s i \<Longrightarrow> ws_disconnect i s = Returns s' \<Longrightarrow> hub_step s s'"
| hs_stop: "Stop_done s = Returns s' \<Longrightarrow> hub_step s s'"
| hs_close: "sv_stopping s \<Longrightarrow> Stop_connections s = Returns s' \<Longrightarrow> hub_step s s'"

definition hub_init :: "'s Server \<Rightarrow> bool" where
  "hub_init s \<longleftrightarrow> (\<exists>addr m q st. s = NewServer addr m q st)"

text \<open>
  The connections of the map are open; a connection whose handler runs is in the map, until \<open>Stop\<close>
  has emptied it and closed them all.
\<close>

definition conn_ok :: "'s Server \<Rightarrow> nat \<Rightarrow> bool" where
  "conn_ok s i \<longleftrightarrow>
     (i \<in> set (sv_connections s) \<longrightarrow> \<not> cn_closed (sv_heap s ! i) \<and> cn_serving (sv_heap s ! i)) \<and>
     (cn_serving (sv_heap s ! i) \<longrightarrow> i \<notin> set (sv_connections s) \<longrightarrow> cn_closed (sv_heap s ! i) \<and> sv_done s) \<and>
     length (cn_send (sv_heap s ! i)) \<le> 10 \<and> length (cn_taskEventCh (sv_heap s ! i)) \<le> 10"

definition hub_inv :: "'s Server \<Rightarrow> bool" where
  "hub_inv s \<longleftrightarrow>
     (\<forall>i < length (sv_heap s). conn_ok s i) \<and>
     distinct (sv_connections s) \<and> set (sv_connections s) \<subseteq> {..<length (sv_heap s)} \<and>
     (sv_locked s \<longrightarrow> sv_done s) \<and> (sv_stopping s \<longrightarrow> sv_done s) \<and>
     length (sv_broadcast s) \<le> 100 \<and> length (sv_taskEvents s) \<le> 100 \<and>
     length (sv_recentEvents s) \<le> 20 \<and> sv_maxRecentEvents s = 20"

section \<open>Lemmas\<close>

subsection \<open>Sorting by exchange\<close>

lemma exchange_facts:
  assumes "i < j" and "j < length xs"
  shows "length (exchange key i j xs) = length xs" and "mset (exchange key i j xs) = mset xs"
    and "k \<noteq> i \<Longrightarrow> k \<noteq> j \<Longrightarrow> exchange key i j xs ! k = xs ! k"
    and "key (exchange key i j xs ! j) \<le> key (exchange key i j xs ! i)"
    and "key (xs ! i) \<le> key (exchange key i j xs ! i)"
  using assms by (auto simp: exchange_def mset_swap)

lemma sort_pass_upto:
  assumes "Suc i \<le> m" and "m \<le> length xs"
  shows "length (fold (exchange key i) [Suc i..<m] xs) = length xs \<and>
    mset (fold (exchange key i) [Suc i..<m] xs) = mset xs \<and>
    (\<forall>k < i. fold (exchange key i) [Suc i..<m] xs ! k = xs ! k) \<and>
    (\<forall>k. i < k \<longrightarrow> k < m \<longrightarrow>
       key (fold (exchange key i) [Suc i..<m] xs ! k) \<le> key (fold (exchange key i) [Suc i..<m] xs ! i))"
  using assms
proof (induction m rule: nat_induct_at_least)
  case base
  then show ?case by simp
next
  case (Suc m)
  let ?ys = "fold (exchange key i) [Suc i..<m] xs"
  from Suc have IH: "length ?ys = length xs" "mset ?ys = mset xs" "\<forall>k < i. ?ys ! k = xs ! k"
    "\<forall>k. i < k \<longrightarrow> k < m \<longrightarrow> key (?ys ! k) \<le> key (?ys ! i)" by simp_all
  have im: "i < m" "m < length ?ys" using Suc IH(1) by simp_all
  note ex = exchange_facts [OF im, where key = key]
  have "key (exchange key i m ?ys ! k) \<le> key (exchange key i m ?ys ! i)" if "i < k" "k < Suc m" for k
    using ex(3) [of k] ex(4,5) IH(4) that by (cases "k = m") (auto intro: order_trans)
  then show ?case using Suc.hyps im ex(1,2,3) IH by (auto simp: less_Suc_eq_le)
qed

lemma sort_pass_facts:
  assumes "i < length xs"
  shows "length (sort_pass key i xs) = length xs" and "mset (sort_pass key i xs) = mset xs"
    and "k < i \<Longrightarrow> sort_pass key i xs ! k = xs ! k"
    and "i < k \<Longrightarrow> k < length xs \<Longrightarrow> key (sort_pass key i xs ! k) \<le> key (sort_pass key i xs ! i)"
  using sort_pass_upto [of i "length xs" xs key] assms by (simp_all add: sort_pass_def)

text \<open>What comes after a common prefix is the same up to order.\<close>

lemma mset_drop_eq:
  assumes "mset xs = mset ys" and "\<forall>k < n. xs ! k = ys ! k" and "n \<le> length ys"
  shows "set (drop n xs) = set (drop n ys)"
proof -
  have len: "length xs = length ys" using assms(1) by (metis size_mset)
  then have "take n xs = take n ys" using assms(2,3) by (simp add: list_eq_iff_nth_eq)
  moreover have "mset (take n xs) + mset (drop n xs) = mset (take n ys) + mset (drop n ys)"
    using assms(1) by (metis append_take_drop_id mset_append)
  ultimately show ?thesis by (metis add_left_imp_eq set_mset_mset)
qed

lemma sort_passes:
  assumes "m \<le> length xs"
  shows "length (fold (sort_pass key) [0..<m] xs) = length xs \<and> mset (fold (sort_pass key) [0..<m] xs) = mset xs \<and>
    (\<forall>k l. k < m \<longrightarrow> k < l \<longrightarrow> l < length xs \<longrightarrow>
       key (fold (sort_pass key) [0..<m] xs ! l) \<le> key (fold (sort_pass key) [0..<m] xs ! k))"
  using assms
proof (induction m)
  case 0
  then show ?case by simp
next
  case (Suc m)
  let ?ys = "fold (sort_pass key) [0..<m] xs"
  from Suc have IH: "length ?ys = length xs" "mset ?ys = mset xs"
    "\<And>k l. k < m \<Longrightarrow> k < l \<Longrightarrow> l < length xs \<Longrightarrow> key (?ys ! l) \<le> key (?ys ! k)" by simp_all
  have m: "m < length ?ys" using Suc.prems IH(1) by simp
  note sp = sort_pass_facts [OF m, where key = key]
  have tails: "set (drop m (sort_pass key m ?ys)) = set (drop m ?ys)"
    using mset_drop_eq [OF sp(2), of m] sp(3) m by simp
  have "key (sort_pass key m ?ys ! l) \<le> key (sort_pass key m ?ys ! k)" if "k < Suc m" "k < l" "l < length xs" for k l
  proof (cases "k = m")
    case True
    with sp(4) [of l] that IH(1) show ?thesis by simp
  next
    case False
    have "\<exists>l'. l' < length xs \<and> k < l' \<and> sort_pass key m ?ys ! l = ?ys ! l'"
    proof (cases "l < m")
      case True
      with sp(3) [of l] that show ?thesis by (intro exI [of _ l]) simp
    next
      case False
      with that sp(1) IH(1) have "sort_pass key m ?ys ! l \<in> set (drop m (sort_pass key m ?ys))"
        by (auto simp: in_set_conv_nth intro!: exI [of _ "l - m"])
      with tails obtain n where "n < length ?ys - m" "sort_pass key m ?ys ! l = ?ys ! (m + n)"
        by (auto simp: in_set_conv_nth)
      with \<open>k \<noteq> m\<close> that IH(1) show ?thesis by (intro exI [of _ "m + n"]) simp
    qed
    with IH(3) [of k] sp(3) [of k] False that show ?thesis by auto
  qed
  with sp(1,2) IH(1,2) show ?case by simp
qed

lemma newest_first_sorts:
  "mset (newest_first ds) = mset ds" "sorted_wrt (\<lambda>d d'. td_CreatedAt d' \<le> td_CreatedAt d) (newest_first ds)"
proof -
  note sp = sort_passes [of "length ds - 1" ds td_CreatedAt, folded newest_first_def]
  show "mset (newest_first ds) = mset ds" using sp by simp
  show "sorted_wrt (\<lambda>d d'. td_CreatedAt d' \<le> td_CreatedAt d) (newest_first ds)"
    using sp by (auto simp: sorted_wrt_iff_nth_less)
qed

subsection \<open>The goroutines\<close>

inductive_cases hub_stepE: "hub_step s s'"

lemma try_send_length: "length buf \<le> cap \<Longrightarrow> length (try_send cap buf x) \<le> cap"
  by (simp add: try_send_def)

lemma conn_update_frame [simp]:
  "length (sv_heap (conn_update i f s)) = length (sv_heap s)" "sv_connections (conn_update i f s) = sv_connections s"
  "sv_locked (conn_update i f s) = sv_locked s" "sv_done (conn_update i f s) = sv_done s"
  "sv_stopping (conn_update i f s) = sv_stopping s" "sv_broadcast (conn_update i f s) = sv_broadcast s"
  "sv_taskEvents (conn_update i f s) = sv_taskEvents s" "sv_recentEvents (conn_update i f s) = sv_recentEvents s"
  "sv_maxRecentEvents (conn_update i f s) = sv_maxRecentEvents s"
  by (simp_all add: conn_update_def)

lemma conn_update_nth:
  "j < length (sv_heap s) \<Longrightarrow> sv_heap (conn_update i f s) ! j = (if i = j then f (sv_heap s ! j) else sv_heap s ! j)"
  by (auto simp: conn_update_def)

text \<open>Broadcasting and closing go through the distinct connections of the map one by one.\<close>

lemma for_connections_open:
  assumes "distinct is" and "\<forall>i \<in> set is. i < length h \<and> \<not> cn_closed (h ! i)"
  shows "\<exists>h'. for_connections f is h = Some h' \<and> length h' = length h \<and>
    (\<forall>j < length h. h' ! j = (if j \<in> set is then f (h ! j) else h ! j))"
  using assms
proof (induction "is" arbitrary: h)
  case (Cons i "is")
  have "\<forall>j \<in> set is. j < length (h[i := f (h ! i)]) \<and> \<not> cn_closed (h[i := f (h ! i)] ! j)"
    using Cons.prems by (auto simp: nth_list_update)
  from Cons.IH [OF _ this] Cons.prems obtain h' where "for_connections f is (h[i := f (h ! i)]) = Some h'"
    "length h' = length h" "\<forall>j < length h. h' ! j = (if j \<in> set is then f (h[i := f (h ! i)] ! j) else h[i := f (h ! i)] ! j)"
    by auto
  with Cons.prems show ?case by (auto simp: nth_list_update)
qed simp

lemma hub_connections_open:
  assumes "hub_inv s"
  shows "\<forall>i \<in> set (sv_connections s). i < length (sv_heap s) \<and> \<not> cn_closed (sv_heap s ! i)"
  using assms by (auto simp: hub_inv_def conn_ok_def)

lemma for_connections_hub:
  assumes "hub_inv s"
  shows "\<exists>h. for_connections f (sv_connections s) (sv_heap s) = Some h \<and> length h = length (sv_heap s) \<and>
    (\<forall>j < length (sv_heap s). h ! j = (if j \<in> set (sv_connections s) then f (sv_heap s ! j) else sv_heap s ! j))"
  using for_connections_open [OF _ hub_connections_open [OF assms]] assms by (simp add: hub_inv_def)

lemma broadcastMetrics_inv:
  assumes "hub_inv s" and "broadcastMetrics b s = Returns s'"
  shows "hub_inv s'"
proof (cases b)
  case True
  with assms show ?thesis by (auto simp: broadcastMetrics_def hub_inv_def conn_ok_def split: if_splits)
next
  case False
  with assms(2) obtain u us h where s: "sv_broadcast s = u # us"
    "for_connections (offer u) (sv_connections s) (sv_heap s) = Some h" "s' = s\<lparr>sv_broadcast := us, sv_heap := h\<rparr>"
    by (auto simp: broadcastMetrics_def broadcast_once_def split: list.splits option.splits if_splits)
  with for_connections_hub [OF assms(1), of "offer u"] assms(1) show ?thesis
    by (auto simp: hub_inv_def conn_ok_def offer_def try_send_length)
qed

lemma Stop_connections_inv:
  assumes "hub_inv s" and "sv_stopping s" and "Stop_connections s = Returns s'"
  shows "hub_inv s'"
proof -
  obtain h where s: "for_connections close_send (sv_connections s) (sv_heap s) = Some h"
    "s' = s\<lparr>sv_heap := h, sv_connections := [], sv_stopping := False\<rparr>"
    using assms(3) by (auto simp: Stop_connections_def split: option.splits if_splits)
  with for_connections_hub [OF assms(1), of close_send] assms(1,2) show ?thesis
    by (auto simp: hub_inv_def conn_ok_def close_send_def)
qed

lemma update_tick_inv:
  assumes "hub_inv s" and "run_state (update_tick env s) w = (s', w')"
  shows "hub_inv s'"
proof -
  obtain u m where "s' = s\<lparr>sv_metrics := m, sv_broadcast := try_send 100 (sv_broadcast s) u\<rparr>"
    using assms(2) by (auto simp: update_tick_def collectMetrics_def run_simps split: prod.splits)
  with assms(1) show ?thesis by (simp add: hub_inv_def conn_ok_def try_send_length)
qed

lemma updateMetricsLoop_inv:
  assumes "hub_inv s" and "run_state (updateMetricsLoop env b s) w = (Returns s', w')"
  shows "hub_inv s'"
proof (cases b)
  case True
  with assms show ?thesis by (auto simp: updateMetricsLoop_def hub_inv_def conn_ok_def split: if_splits)
next
  case False
  with assms(2) have "run_state (update_tick env s) w = (s', w')"
    by (auto simp: updateMetricsLoop_def run_simps split: prod.splits)
  from update_tick_inv [OF assms(1) this] show ?thesis .
qed

lemma ws_register_inv: "hub_inv s \<Longrightarrow> ws_register s = Returns (i, s') \<Longrightarrow> hub_inv s'"
  by (auto simp: ws_register_def hub_inv_def conn_ok_def new_connection_def nth_append less_Suc_eq split: if_splits)

lemma ws_disconnect_inv:
  assumes "hub_inv s" and "connected s i" and "ws_disconnect i s = Returns s'"
  shows "hub_inv s'"
  using assms
  by (auto simp: ws_disconnect_def hub_inv_def conn_ok_def connected_def conn_update_nth Let_def split: if_splits)

text \<open>Steps that only fill or empty the buffers of one client.\<close>

lemma conn_update_inv:
  assumes "hub_inv s" and "connected s i" and "cn_closed (f (sv_heap s ! i)) = cn_closed (sv_heap s ! i)"
    and "cn_serving (f (sv_heap s ! i)) = cn_serving (sv_heap s ! i)"
    and "length (cn_send (f (sv_heap s ! i))) \<le> 10" and "length (cn_taskEventCh (f (sv_heap s ! i))) \<le> 10"
  shows "hub_inv (conn_update i f s)"
proof -
  have "conn_ok (conn_update i f s) j" if "j < length (sv_heap s)" for j
    using assms that by (auto simp: hub_inv_def conn_ok_def conn_update_nth)
  with assms(1) show ?thesis by (simp add: hub_inv_def)
qed

lemma buffers_bounded:
  assumes "hub_inv s" and "connected s i"
  shows "length (cn_send (sv_heap s ! i)) \<le> 10" and "length (cn_taskEventCh (sv_heap s ! i)) \<le> 10"
  using assms by (auto simp: hub_inv_def conn_ok_def connected_def)

lemma ws_subscribe_inv:
  assumes "hub_inv s" and "connected s i" and "ws_subscribe i s = Returns s'"
  shows "hub_inv s'"
proof -
  obtain e es where e: "sv_taskEvents s = e # es"
    "s' = conn_update i (\<lambda>c. c\<lparr>cn_taskEventCh := try_send 10 (cn_taskEventCh c) e\<rparr>) (s\<lparr>sv_taskEvents := es\<rparr>)"
    using assms(3) by (auto simp: ws_subscribe_def split: list.splits)
  from assms(1,2) e(1) have "hub_inv (s\<lparr>sv_taskEvents := es\<rparr>)" "connected (s\<lparr>sv_taskEvents := es\<rparr>) i"
    by (simp_all add: hub_inv_def conn_ok_def connected_def)
  from conn_update_inv [OF this] buffers_bounded [OF assms(1,2)] show ?thesis by (simp add: e(2) try_send_length)
qed

lemma ws_receive_inv:
  assumes "hub_inv s" and "connected s i"
  shows "ws_update i s = Returns (u, s') \<Longrightarrow> hub_inv s'" and "ws_event i s = Returns (e, s') \<Longrightarrow> hub_inv s'"
  using buffers_bounded [OF assms] conn_update_inv [OF assms] assms(1)
  by (auto simp: ws_update_def ws_event_def split: list.splits if_splits)

lemma hub_step_inv:
  assumes "hub_inv s" and "hub_step s s'"
  shows "hub_inv s'"
  using assms(2)
proof cases
  case hs_start
  with assms(1) show ?thesis by (auto simp: Server_Start_def Let_def hub_inv_def conn_ok_def split: if_splits)
next
  case hs_task
  with assms(1) show ?thesis
    by (auto simp: BroadcastTaskEvent_def run_simps Let_def hub_inv_def conn_ok_def try_send_length push_bounded_length)
next
  case hs_stop
  with assms(1) show ?thesis by (auto simp: Stop_done_def hub_inv_def conn_ok_def split: if_splits)
qed (use assms(1) broadcastMetrics_inv Stop_connections_inv updateMetricsLoop_inv ws_register_inv ws_disconnect_inv
    ws_subscribe_inv ws_receive_inv in metis)+

lemma NewServer_inv: "hub_init s \<Longrightarrow> hub_inv s"
  by (auto simp: hub_init_def NewServer_def hub_inv_def)

interpretation hub: inductive_invariant hub_init hub_step hub_inv
  by unfold_locales (erule NewServer_inv, erule (1) hub_step_inv)

subsection \<open>Requests only read the database\<close>

text \<open>A server all of whose parts use the client \<open>ex\<close>.\<close>

definition served_by :: "'s client \<Rightarrow> 's Server \<Rightarrow> bool" where
  "served_by ex s \<longleftrightarrow>
     m_queue (sv_metrics s) = RQ ex \<and> sv_queue s = RQ ex \<and> (sv_storage s = None \<or> sv_storage s = Some (RS ex))"

lemma only_reads_metrics [reads_intros]:
  "redis_server ex view pk \<Longrightarrow> m_queue m = RQ ex \<Longrightarrow> only_reads view (UpdateQueueDepth c m)"
  "only_reads view (Snapshot rnd m)" "only_reads view (GetQueueDepthTrend d m)" "only_reads view (GetThroughputTrend d m)"
  unfolding UpdateQueueDepth_def Snapshot_def GetQueueDepthTrend_def GetThroughputTrend_def GetOldestIdleTime_def
  by (auto intro!: reads_intros)

lemma only_reads_collect [reads_intros]:
  "redis_server ex view pk \<Longrightarrow> served_by ex s \<Longrightarrow> only_reads view (collectMetrics env s)"
  unfolding collectMetrics_def served_by_def by (auto intro!: reads_intros)

lemma only_reads_outcome [reads_intros]:
  "only_reads view m \<Longrightarrow> only_reads view n \<Longrightarrow> (\<And>x. only_reads view (g x)) \<Longrightarrow>
     only_reads view (case z of Blocks \<Rightarrow> m | Panics \<Rightarrow> n | Returns x \<Rightarrow> g x)"
  by (cases z) simp_all

lemma served_by_register: "served_by ex s \<Longrightarrow> ws_register s = Returns (i, s') \<Longrightarrow> served_by ex s'"
  by (auto simp: served_by_def ws_register_def split: if_splits)

lemma dash_routes_only_read:
  assumes "redis_server ex view pk" and "served_by ex s" and "h \<in> snd ` set (dash_routes env)"
  shows "only_reads view (h r w s)"
proof -
  have "only_reads view (handleWebSocket env r w s)"
  proof (cases "ws_register s")
    case (Returns x)
    with assms(1) served_by_register [OF assms(2)] show ?thesis
      unfolding handleWebSocket_def Let_def by (auto intro!: reads_intros split: prod.split)
  qed (auto simp: handleWebSocket_def Let_def intro!: reads_intros)
  moreover have "only_reads view (handleDashboard env r w s)" "only_reads view (handleWorkers r w s)"
    "only_reads view (handleWorkerDetail r w s)"
    unfolding handleDashboard_def handleWorkers_def handleWorkerDetail_def by (auto intro!: reads_intros)
  moreover have "only_reads view (handleMetrics env r w s)" "only_reads view (handleHealth r w s)"
    "only_reads view (handleDLQ r w s)"
    using assms(1,2) unfolding handleMetrics_def handleHealth_def handleDLQ_def served_by_def
    by (auto intro!: reads_intros simp: served_by_def)
  moreover have "only_reads view (handleTasks r w s)" "only_reads view (handleTaskDetail r w s)"
  proof -
    consider "sv_storage s = None" | "sv_storage s = Some (RS ex)" using assms(2) by (auto simp: served_by_def)
    then show "only_reads view (handleTasks r w s)" "only_reads view (handleTaskDetail r w s)"
      by (cases; auto simp: handleTasks_def handleTaskDetail_def Let_def intro!: reads_intros assms(1))+
  qed
  ultimately show ?thesis using assms(3) by (auto simp: dash_routes_def intro: only_reads_basic)
qed

lemma dash_mux_rule:
  fixes s :: "'s Server"
  assumes "\<And>p. P (done_with s (redirect_to p w))" and "P (done_with s (http_Error ''404 page not found'' 404 w))"
    and "\<And>h. h \<in> snd ` set (dash_routes env) \<Longrightarrow> P (h r w s)"
  shows "P (dash_mux env r w s)"
proof -
  let ?routes = "dash_routes env :: (string \<times> 's dash_fn) list"
  show ?thesis using mux_route_cases [of ?routes r w] assms by (force simp: dash_mux_def)
qed

lemma dash_only_reads:
  assumes "redis_server ex view pk" and "served_by ex s"
  shows "only_reads view (dash_handler env r w s)"
proof -
  have "only_reads view (dash_mux env r w s)" for w
    by (rule dash_mux_rule) (intro only_reads_basic dash_routes_only_read [OF assms]; assumption)+
  then show ?thesis
    unfolding dash_handler_def dash_withLogging_def dash_withCORS_def Let_def by (intro reads_intros)
qed

subsection \<open>The list of tasks\<close>

lemma encode_list_details: "\<forall>d \<in> set ds. td_Payload d = None \<Longrightarrow> \<exists>js. encode_list (map TaskDetail_json ds) = Inr js \<and> length js = length ds"
  by (induction ds) (auto simp: TaskDetail_json_def Let_def)

lemma fetch_tasks:
  assumes "redis_server ex view pk" and "picker_ok pk" and "store_ok (view (w_db w))" and "[] \<notin> state_index (view (w_db w)) st"
  shows "\<exists>ts w'. run_state (GetTasksByState (RS ex) Live st 16) w = (Inr ts, w') \<and> length ts \<le> 16 \<and>
    (\<forall>t \<in> set ts. saved_task (view (w_db w)) (t_ID t) = Some t) \<and> keyspace (view (w_db w')) = keyspace (view (w_db w))"
proof -
  from GetTasksByState_lists [OF assms, of 16] obtain ts w' where
    run: "run_state (GetTasksByState (RS ex) Live st 16) w = (Inr ts, w')" and ts: "length ts \<le> 16"
      "\<forall>t \<in> set ts. saved_task (view (w_db w)) (t_ID t) = Some t" by fastforce
  from only_reads_ops(4) [OF assms(1), of Live st 16] run have "keyspace (view (w_db w')) = keyspace (view (w_db w))"
    unfolding only_reads_def by (metis snd_conv)
  with run ts show ?thesis by blast
qed

lemma listed_payload: "\<forall>d \<in> set (newest_first (map listed_detail ts)). td_Payload d = None"
proof -
  have eq: "set (newest_first ds) = set ds" for ds using newest_first_sorts(1) [of ds] by (metis set_mset_mset)
  show ?thesis unfolding eq by (simp add: listed_detail_def detail_of_def)
qed

subsection \<open>The feed\<close>

text \<open>A sequence of events: identifier, type, status and duration of each.\<close>

fun broadcast_events :: "(string \<times> string \<times> string \<times> int) list \<Rightarrow> 's Server \<Rightarrow> ('s, 's Server) io" where
  "broadcast_events [] s = ret s"
| "broadcast_events ((i, ty, st, d) # es) s = do { s \<leftarrow> BroadcastTaskEvent i ty st d s; broadcast_events es s }"

text \<open>The page of a client that connects shows the last 20 events; as long as no client takes events
  from the channel, it keeps the first 100.\<close>

lemma broadcast_events_kept:
  assumes "run_state (broadcast_events es s) w = (s', w')" and "sv_maxRecentEvents s = 20"
    and "map te_ID (sv_recentEvents s) = drop (length old - 20) old" and "map te_ID (sv_taskEvents s) = take 100 old"
  shows "map te_ID (getRecentEvents s') = drop (length (old @ map fst es) - 20) (old @ map fst es) \<and>
    map te_ID (sv_taskEvents s') = take 100 (old @ map fst es)"
  using assms
proof (induction es arbitrary: s w old)
  case Nil
  then show ?case by (simp add: getRecentEvents_def)
next
  case (Cons x es)
  obtain i ty st d where x: "x = (i, ty, st, d)" by (cases x)
  from Cons.prems(1) obtain u v where u: "run_state (BroadcastTaskEvent i ty st d s) w = (u, v)"
    "run_state (broadcast_events es u) v = (s', w')" by (auto simp: x run_simps split: prod.splits)
  define e where "e = \<lparr>te_ID = i, te_Type = ty, te_Status = st, te_Duration = round_string d Millisecond,
    te_Timestamp = rfc3339 (w_clock w (w_tick w))\<rparr>"
  with u(1) have e: "te_ID e = i" "sv_maxRecentEvents u = sv_maxRecentEvents s"
      "sv_recentEvents u = push_bounded (sv_maxRecentEvents s) (sv_recentEvents s) e"
      "sv_taskEvents u = try_send 100 (sv_taskEvents s) e"
    by (auto simp: BroadcastTaskEvent_def run_simps Let_def)
  have "map te_ID (sv_recentEvents u) = push_bounded 20 (map te_ID (sv_recentEvents s)) i"
    using e Cons.prems(2) by (auto simp: push_bounded_def Let_def drop_map)
  with push_bounded_suffix [OF Cons.prems(3), of i]
  have "map te_ID (sv_recentEvents u) = drop (length (old @ [i]) - 20) (old @ [i])" by simp
  moreover have "length (sv_taskEvents s) = min 100 (length old)" using arg_cong [OF Cons.prems(4), of length] by simp
  then have "map te_ID (sv_taskEvents u) = take 100 (old @ [i])"
    using e Cons.prems(4) by (auto simp: try_send_def)
  ultimately show ?case using Cons.IH [OF u(2), of "old @ [i]"] e(2) Cons.prems(2) by (simp add: x)
qed

section \<open>Properties\<close>


text \<open>A server with one client, before and after the first half of \<open>Stop\<close>.\<close>

definition no_client :: "db Server" where
  "no_client = NewServer [] (fst (run_state (NewMetrics (RQ (redis_client first_pick))) (start_world empty_db)))
     (RQ (redis_client first_pick)) None"

definition one_client :: "db Server" where
  "one_client = no_client\<lparr>sv_heap := [new_connection], sv_connections := [0]\<rparr>"

lemma one_client_reach: "reach hub_init hub_step one_client"
proof -
  have "hub_init no_client" unfolding hub_init_def no_client_def by blast
  moreover have "ws_register no_client = Returns (0, one_client)"
    by (simp add: one_client_def no_client_def ws_register_def NewServer_def)
  ultimately show ?thesis by (blast intro: reach_init reach_step hs_connect)
qed

lemma one_client_simps [simp]:
  "sv_connections one_client = [0]" "sv_heap one_client = [new_connection]" "\<not> sv_locked one_client"
  by (simp_all add: one_client_def no_client_def NewServer_def)

lemma one_client_served: "served_by (redis_client first_pick) one_client"
  by (simp add: served_by_def one_client_def no_client_def NewServer_def NewMetrics_def run_simps)


text \<open>C38: Once \<open>Stop\<close> has closed the connections, a client that is still there is sent the zero update over and
  over, and when it disconnects its handler closes the channel a second time: the panic leaves the
  mutex locked, so that no client can connect or disconnect any more.\<close>

theorem client_leaving_after_Stop_locks:
  assumes "reach hub_init hub_step s" and "i \<in> set (sv_connections s)" and "Stop_connections s = Returns s'"
  shows "connected s' i \<and> (cn_send (sv_heap s' ! i) = [] \<longrightarrow> ws_update i s' = Returns (zero_update, s')) \<and>
    (\<exists>s''. ws_disconnect i s' = Returns s'' \<and> sv_locked s'' \<and> ws_register s'' = Blocks \<and> (\<forall>j. ws_disconnect j s'' = Blocks))"
proof -
  note inv = hub.reach_inv [OF assms(1)]
  from assms(3) obtain h where closed: "for_connections close_send (sv_connections s) (sv_heap s) = Some h" and
    s': "s' = s\<lparr>sv_heap := h, sv_connections := [], sv_stopping := False\<rparr>" "\<not> sv_locked s"
    by (auto simp: Stop_connections_def split: if_splits option.splits)
  from for_connections_hub [OF inv, of close_send] closed
  have h: "length h = length (sv_heap s)" "\<forall>j < length (sv_heap s). h ! j =
      (if j \<in> set (sv_connections s) then close_send (sv_heap s ! j) else sv_heap s ! j)" by auto
  have i: "i < length (sv_heap s)" "cn_serving (sv_heap s ! i)" using inv assms(2) by (auto simp: hub_inv_def conn_ok_def)
  with h assms(2) have "i < length h" "cn_closed (h ! i)" "cn_serving (h ! i)" by (simp_all add: close_send_def)
  with s' show ?thesis
    by (auto simp: connected_def ws_update_def ws_disconnect_def ws_register_def)
qed

theorem client_leaving_after_Stop_locks_witness:
  "\<exists>s' s''. Stop_connections one_client = Returns s' \<and> ws_disconnect 0 s' = Returns s'' \<and> ws_register s'' = Blocks"
proof -
  have "Stop_connections one_client = Returns (one_client\<lparr>sv_heap := [close_send new_connection], sv_connections := [],
      sv_stopping := False\<rparr>)"
    by (simp add: Stop_connections_def new_connection_def)
  moreover from client_leaving_after_Stop_locks [OF one_client_reach _ this, of 0]
  obtain s'' where "ws_disconnect 0 (one_client\<lparr>sv_heap := [close_send new_connection], sv_connections := [],
      sv_stopping := False\<rparr>) = Returns s''" "ws_register s'' = Blocks" by auto
  ultimately show ?thesis by blast
qed

text \<open>C26: Whatever the request, the dashboard leaves every key of the database as it is.\<close>

theorem dashboard_only_reads:
  assumes "redis_server ex view pk" and "served_by ex s" and "run_state (dash_handler env r hw s) w = (x, w')"
  shows "keyspace (view (w_db w')) = keyspace (view (w_db w))"
  using dash_only_reads [OF assms(1,2), of env r hw] assms(3) unfolding only_reads_def by (metis snd_conv)

definition plain_env :: dash_env where
  "plain_env = \<lparr>de_rounding = id, de_float = (\<lambda>x. JFrac []), de_timeout = (\<lambda>_. Live), de_template = Inl ErrNoTask,
     de_static = (\<lambda>r w. w), de_flusher = True, de_feed = []\<rparr>"

theorem dashboard_only_reads_witness:
  "keyspace (w_db (snd (run_state (dash_handler plain_env (get_request ''/api/metrics'') new_writer one_client)
     (start_world empty_db)))) = []"
proof -
  obtain x w' where run: "run_state (dash_handler plain_env (get_request ''/api/metrics'') new_writer one_client)
     (start_world empty_db) = (x, w')" by (rule prod.exhaust)
  from dashboard_only_reads [OF redis_server_refl one_client_served run] show ?thesis
    unfolding run by (simp add: empty_db_def)
qed



end
