(* ===== verification/Spool_System.thy ===== *)
theory Spool_System
  imports Spool_Worker Spool_Web
begin

text \<open>
  The parts together: a client submits tasks to the broker, a worker polls the queue that the
  broker filled, and broker and dashboard show what became of the tasks. All of them use the same
  Redis server through clients of their own; here the clients act on one server state.
\<close>

section \<open>Lemmas\<close>

lemma a_enqueue_all_Cons: "a_enqueue_all (t # ts) q = a_enqueue_all ts (a_enqueue t q)"
  by (simp add: a_enqueue_all_def)

lemma budget_enqueue_all:
  "list_all (\<lambda>t. t_Priority t \<in> set priorities) ts \<Longrightarrow>
     budget (a_enqueue_all ts q) = budget q + sum_list (map attempts_left ts)"
  by (induction ts arbitrary: q) (simp_all add: a_enqueue_all_Cons budget_enqueue a_enqueue_all_def)

lemma queued_ids_enqueue_all:
  "list_all (\<lambda>t. t_Priority t \<in> set priorities) ts \<Longrightarrow>
     mset (queued_ids (a_enqueue_all ts q)) = mset (queued_ids q) + mset (map t_ID ts)"
  by (induction ts arbitrary: q) (simp_all add: a_enqueue_all_Cons queued_ids_enqueue a_enqueue_all_def)

lemma set_a_enqueue_all: "set (a_enqueue_all ts q p) \<subseteq> set (q p) \<union> set ts"
proof (induction ts arbitrary: q)
  case (Cons t ts)
  have "set (a_enqueue t q p) \<subseteq> insert t (set (q p))" by (auto simp: a_enqueue_def)
  with Cons [of "a_enqueue t q"] show ?case unfolding a_enqueue_all_Cons by fastforce
qed (simp add: a_enqueue_all_def)

lemma mem_queued_ids: "p \<in> set priorities \<Longrightarrow> t \<in> set (q p) \<Longrightarrow> t_ID t \<in> set (queued_ids q)"
  by (auto simp: queued_ids_def a_order_def)

text \<open>Submitting a batch keeps the system sound.\<close>

lemma submission_sys_ok:
  assumes ok: "sys_ok w q dl" and d: "only_changes (batch_keys ts) (w_db w) d" "holds_queue d (a_enqueue_all ts q)"
    and ids: "\<forall>t \<in> set ts. t_ID t \<noteq> []"
  shows "sys_ok (w\<lparr>w_db := d, w_tick := n\<rparr>) (a_enqueue_all ts q) dl"
proof -
  have "storeKey i \<notin> batch_keys ts" "stateKey st \<notin> batch_keys ts" "dlqKey \<notin> batch_keys ts" for i st
    by (auto simp: batch_keys_def)
  with store_frame(1) [OF d(1)] only_changes_list_at [OF d(1)] ok have "store_ok d" "dlq_holds d dl"
    by (auto simp: sys_defs dlq_holds_def)
  moreover have "t_ID t \<noteq> []" if "p \<in> set priorities" "t \<in> set (a_enqueue_all ts q p)" for p t
    using that ok ids set_a_enqueue_all [of ts q p] by (auto simp: sys_defs)
  ultimately show ?thesis using ok d(2) by (simp add: sys_defs clock_ok_def)
qed

text \<open>The broker finds what a worker finished.\<close>

lemma finished_is_found:
  assumes "store_ok (w_db w)" and "finished (w_db w) j" and "j \<noteq> []" "j \<noteq> ''batch''"
    and "clean_path (''/api/tasks/'' @ j) = ''/api/tasks/'' @ j"
  shows "\<exists>resp w' t. run_state (serve (broker_handler (BR (redis_client pk))) (get_request (''/api/tasks/'' @ j))) w = (resp, w') \<and>
    rp_Status resp = 200 \<and> rp_Body resp = [Doc (task_json t)] \<and> t_ID t = j \<and> t_State t = StateCompleted"
proof -
  from assms(2) obtain t where t: "saved_task (w_db w) j = Some t" "t_State t = StateCompleted" by (auto simp: finished_def)
  then have "key_get (storeKey j) (w_db w) \<noteq> None" by (auto simp: saved_task_def split: option.splits)
  from store_ok_saved [OF assms(1) this] t have "task_ok t" "t_ID t = j" by auto
  with serve_lookup_saved [OF assms(3-5) t(1), of pk] t(2) show ?thesis by blast
qed

text \<open>The dashboard lists the oldest hundred dead letters.\<close>

lemma decoded_dead_letters: "list_all task_ok ts \<Longrightarrow> decoded_tasks (map (\<lambda>t. Doc (task_json t)) ts) = ts"
  by (induction ts) (simp_all add: decoded_tasks_def task_json_roundtrip)

lemma dead_letters_are_listed:
  assumes "redis_server ex view pk" and "dlq_holds (view (w_db w)) dl" and "sv_queue s = RQ ex"
    and "rq_Method r = ''GET''" and "rq_Context r = Live"
  shows "\<exists>js w'. run_state (handleDLQ r hw s) w =
      (Returns (Encode (Inr (JObj [(''tasks'', JArr js), (''total'', JNum (int (min (length dl) 100)))])) (json_header hw), s), w') \<and>
    encode_list (map TaskDetail_json (map detail_of (take 100 dl))) = Inr js"
proof -
  have take: "lrange 0 99 xs = take 100 xs" for xs :: "blob list" using lrange_take [of 100 xs] by simp
  have "list_all task_ok (take 100 dl)" using assms(2) by (auto simp: dlq_holds_def list_all_iff dest: in_set_takeD)
  from decoded_dead_letters [OF this] assms(2)
  have "run_state (GetDLQTasks (RQ (redis_client pk)) Live 100) (world_map view w) = (Inr (take 100 dl), world_map view w)"
    by (simp add: GetDLQTasks_def run_simps dlq_holds_def take take_map)
  from simulates_run [OF sim_queue_ops(7) [OF assms(1)] this] obtain w' where
    run: "run_state (GetDLQTasks (RQ ex) Live 100) w = (Inr (take 100 dl), w')" by blast
  have "\<forall>d \<in> set (map detail_of (take 100 dl)). td_Payload d = None" by (simp add: detail_of_def)
  from encode_list_details [OF this] obtain js where "encode_list (map TaskDetail_json (map detail_of (take 100 dl))) = Inr js" by blast
  with run show ?thesis by (simp add: handleDLQ_def assms(3-5) run_simps details_reply_def)
qed

section \<open>Properties\<close>

text \<open>C5: From submission to the answer: a batch that is posted to the broker of a sound system is accepted, and
  as many polls of a worker as the queued and the submitted tasks have attempts empty the queue. Then
  each task, whatever the handlers did, is a dead letter or finished, and the broker shows a
  finished one as completed.\<close>

theorem batch_is_settled_and_visible:
  assumes "redis_server ex view pk" and "sys_ok (world_map view w) q dl" and "unmarshal_slice unmarshal_task bd = Inr ts"
    and "submittable ts" and "\<forall>t \<in> set ts. t_ID t \<noteq> [] \<and> t_ID t \<notin> set (queued_ids q)"
    and "budget q + sum_list (map attempts_left ts) \<le> n"
  shows "\<exists>resp w1 s' w2 dl' fin.
    run_state (serve (broker_handler (BR ex)) (post_request ''/api/tasks/batch'' bd)) w = (resp, w1) \<and> rp_Status resp = 201 \<and>
    run_state (poll_n n (WK ex i reg freq) Live s) w1 = (s', w2) \<and>
    (\<forall>p \<in> set priorities. list_at (qkey p) (view (w_db w2)) = Some []) \<and> dlq_holds (view (w_db w2)) dl' \<and>
    work q dl + mset (map t_ID ts) = mset (map t_ID dl') + mset fin \<and>
    (\<forall>j \<in> set fin. j \<noteq> [] \<and> j \<noteq> ''batch'' \<and> clean_path (''/api/tasks/'' @ j) = ''/api/tasks/'' @ j \<longrightarrow>
      (\<exists>resp w3 t. run_state (serve (broker_handler (BR ex)) (get_request (''/api/tasks/'' @ j))) w2 = (resp, w3) \<and>
        rp_Status resp = 200 \<and> rp_Body resp = [Doc (task_json t)] \<and> t_ID t = j \<and> t_State t = StateCompleted))"
proof -
  let ?q = "a_enqueue_all ts q"
  have prios: "list_all (\<lambda>t. t_Priority t \<in> set priorities) ts" using assms(4) by (auto simp: submittable_def list_all_iff)
  have "holds_queue (view (w_db w)) q" using assms(2) by (simp add: sys_defs)
  moreover have "\<forall>p \<in> set priorities. \<forall>u \<in> set (q p). t_ID u \<notin> t_ID ` set ts"
    using assms(5) mem_queued_ids [of _ _ q] by (metis imageE)
  ultimately obtain resp d m where
    post: "run_state (serve (broker_handler (BR (redis_client pk))) (post_request ''/api/tasks/batch'' bd)) (world_map view w) =
      (resp, (world_map view w)\<lparr>w_db := d, w_tick := m\<rparr>)" "rp_Status resp = 201"
    and d: "holds_queue d ?q" "only_changes (batch_keys ts) (view (w_db w)) d"
    using serve_batch [of "world_map view w" q bd ts pk] assms(3,4) by auto
  let ?v = "(world_map view w)\<lparr>w_db := d, w_tick := m\<rparr>"
  from simulates_run [OF sim_broker [OF assms(1)] post(1)] obtain w1 where
    w1: "run_state (serve (broker_handler (BR ex)) (post_request ''/api/tasks/batch'' bd)) w = (resp, w1)" "world_map view w1 = ?v" by blast
  have ok: "sys_ok ?v ?q dl" using submission_sys_ok [OF assms(2) _ d(1), of m] d(2) assms(5) by simp
  have "budget ?q \<le> n" using budget_enqueue_all [OF prios] assms(6) by simp
  from poll_n_settles [OF ok this, where pk = pk and i = i and reg = reg and freq = freq and s = s]
  obtain s' v' q' dl' fin where
    poll: "run_state (poll_n n (WK (redis_client pk) i reg freq) Live s) (world_map view w1) = (s', v')" "sys_ok v' q' dl'"
    and v': "\<forall>p \<in> set priorities. list_at (qkey p) (w_db v') = Some []" "work ?q dl = mset (map t_ID dl') + mset fin"
      "\<forall>j \<in> set fin. finished (w_db v') j" unfolding w1(2) by blast
  from simulates_run [OF sim_poll_n [OF assms(1)] poll(1)] obtain w2 where
    w2: "run_state (poll_n n (WK ex i reg freq) Live s) w1 = (s', w2)" "world_map view w2 = v'" by blast
  then have db: "w_db v' = view (w_db w2)" by auto
  have work: "work q dl + mset (map t_ID ts) = mset (map t_ID dl') + mset fin"
    using v'(2) queued_ids_enqueue_all [OF prios, of q] by (simp add: work_def ac_simps)
  have store: "store_ok (w_db v')" "dlq_holds (view (w_db w2)) dl'" using poll(2) db by (simp_all add: sys_defs)
  have found: "\<exists>resp w3 t. run_state (serve (broker_handler (BR ex)) (get_request (''/api/tasks/'' @ j))) w2 = (resp, w3) \<and>
        rp_Status resp = 200 \<and> rp_Body resp = [Doc (task_json t)] \<and> t_ID t = j \<and> t_State t = StateCompleted"
    if "j \<in> set fin" "j \<noteq> [] \<and> j \<noteq> ''batch'' \<and> clean_path (''/api/tasks/'' @ j) = ''/api/tasks/'' @ j" for j
    using finished_is_found [OF store(1), of j pk] v'(3) that simulates_run [OF sim_broker [OF assms(1)]] w2(2) by metis
  show ?thesis
    using found by (intro exI conjI) (rule w1(1) post(2) w2(1) v'(1) [unfolded db] store(2) work | blast)+
qed

theorem batch_is_settled_and_visible_witness:
  "let bd = Doc (JArr [task_json (sample_task ''a'' 2 3)]); w = (start_world empty_db)\<lparr>w_clock := \<lambda>_. 0\<rparr>;
       st = \<lparr>tasksProcessed = 0, tasksFailed = 0, tasksRetried = 0\<rparr>
   in \<exists>resp w1 s' w2 dl' fin.
     run_state (serve (broker_handler (BR (redis_client first_pick))) (post_request ''/api/tasks/batch'' bd)) w = (resp, w1) \<and>
     rp_Status resp = 201 \<and> run_state (poll_n 4 (WK (redis_client first_pick) ''w'' working_registry 1) Live st) w1 = (s', w2) \<and>
     {#''a''#} = mset (map t_ID (dl' :: task list)) + mset fin"
proof -
  let ?t = "sample_task ''a'' 2 3" and ?w = "(start_world empty_db)\<lparr>w_clock := \<lambda>_. 0\<rparr>"
  have ts: "submittable [?t]" by (simp add: submittable_def sample_task_ok in64_def set_priorities)
  then have bd: "unmarshal_slice unmarshal_task (Doc (JArr [task_json ?t])) = Inr [?t]"
    by (simp add: submittable_def task_json_roundtrip)
  have ok: "sys_ok (world_map id ?w) (\<lambda>_. []) []"
    by (simp add: sys_defs clock_ok_def time_marshalable_def dlq_holds_def holds_queue_def)
  have fresh: "\<forall>t \<in> set [?t]. t_ID t \<noteq> [] \<and> t_ID t \<notin> set (queued_ids (\<lambda>_. []))"
    and polls: "budget (\<lambda>_. []) + sum_list (map attempts_left [?t]) \<le> 4"
    and work: "work (\<lambda>_. []) [] + mset (map t_ID [?t]) = {#''a''#}"
    by (simp_all add: queued_ids_def a_order_def budget_def attempts_left_def work_def sample_task_def zero_task_def)
  from batch_is_settled_and_visible [OF redis_server_refl ok bd ts fresh polls, where i = "''w''" and reg = working_registry
      and freq = 1 and s = "\<lparr>tasksProcessed = 0, tasksFailed = 0, tasksRetried = 0\<rparr>" and pk = first_pick]
  show ?thesis unfolding Let_def work by (elim exE conjE, intro exI conjI) assumption+
qed

end
