(* ===== verification/Spool_Concurrent.thy ===== *)
theory Spool_Concurrent
  imports Spool_Worker
begin

text \<open>
  The queue shared by workers and brokers that run at the same time. \<open>Enqueue\<close>, \<open>Dequeue\<close>
  and \<open>Ack\<close> of \<open>internal/queue/redis.go\<close> are sequences of Redis commands; each command is
  atomic, but between two commands of one process any command of another may be carried
  out. Each operation is a machine that performs one command per step; run alone, the
  machine is the operation. A system is a list of processes over one server, of which one
  moves at a time.
\<close>

section \<open>Definitions\<close>

subsection \<open>One command at a time\<close>

text \<open>
  \<open>Dequeue\<close>: before \<open>LPOP\<close> on the first of the remaining priorities, before \<open>GET\<close> of the
  data of the identifier that came from a list, before one of the two repairs, before the two
  writes that follow a success, and the result.
\<close>

datatype deq =
    DPop "priority list"
  | DGet priority string "priority list"
  | DBack priority string gerr
  | DDrop string gerr
  | DMark string task
  | DStamp task
  | DDone "gerr + task option"

fun deq_step :: "'s RedisQueue \<Rightarrow> ctx \<Rightarrow> deq \<Rightarrow> ('s, deq) io" where
  "deq_step rq c (DPop []) = ret (DDone (Inr None))"
| "deq_step rq c (DPop (p # ps)) = do {
     r \<leftarrow> redis_do (rq_client rq) c (LPOP (queueKey rq p));
     ret (case str_result r of
        Inl e \<Rightarrow> DDone (Inl (Wrap ''failed to dequeue task'' e))
      | Inr None \<Rightarrow> DPop ps
      | Inr (Some b) \<Rightarrow>
        (case blob_text b of
           None \<Rightarrow> DDone (Inl (Wrap ''failed to dequeue task'' bad_reply))
         | Some taskID \<Rightarrow> DGet p taskID ps))
   }"
| "deq_step rq c (DGet p taskID ps) = do {
     r \<leftarrow> redis_do (rq_client rq) c (GET (taskKey taskID));
     ret (case str_result r of
        Inr None \<Rightarrow> DPop ps
      | Inl e \<Rightarrow> DBack p taskID e
      | Inr (Some taskData) \<Rightarrow>
        (case unmarshal_task taskData of Inl e \<Rightarrow> DDrop taskID e | Inr t \<Rightarrow> DMark taskID t))
   }"
| "deq_step rq c (DBack p taskID e) = do {
     _ \<leftarrow> redis_do (rq_client rq) c (LPUSH (queueKey rq p) (Text taskID));
     ret (DDone (Inl (Wrap ''failed to retrieve task data'' e)))
   }"
| "deq_step rq c (DDrop taskID e) = do {
     _ \<leftarrow> redis_do (rq_client rq) c (DEL (taskKey taskID));
     ret (DDone (Inl (Wrap ''failed to unmarshal task'' e)))
   }"
| "deq_step rq c (DMark taskID t) = do {
     now \<leftarrow> time_Now;
     _ \<leftarrow> redis_do (rq_client rq) c (SET (processingKey taskID) (Doc (JNum (time_Unix now))) (1 * Hour));
     ret (DStamp t)
   }"
| "deq_step rq c (DStamp t) = do {
     now \<leftarrow> time_Now;
     _ \<leftarrow> redis_do (rq_client rq) c (SET (statsKey ''last_dequeue'') (Doc (JNum (time_Unix now))) 0);
     ret (DDone (Inr (Some t)))
   }"
| "deq_step rq c (DDone r) = ret (DDone r)"

text \<open>\<open>Enqueue\<close> of a task that is not nil.\<close>

datatype enq =
    ESet task
  | EPush task
  | EUndo task gerr
  | ECount
  | EStamp
  | EDone "gerr option"

fun enq_step :: "'s RedisQueue \<Rightarrow> ctx \<Rightarrow> enq \<Rightarrow> ('s, enq) io" where
  "enq_step rq c (ESet t) =
     (case marshal_task t of
        Inl e \<Rightarrow> ret (EDone (Some (Wrap ''failed to marshal task'' e)))
      | Inr taskData \<Rightarrow> do {
          r \<leftarrow> redis_do (rq_client rq) c (SET (taskKey (t_ID t)) (Doc taskData) 0);
          ret (case cmd_err r of
             Some e \<Rightarrow> EDone (Some (Wrap ''failed to store task'' e))
           | None \<Rightarrow> EPush t)
        })"
| "enq_step rq c (EPush t) = do {
     r \<leftarrow> redis_do (rq_client rq) c (RPUSH (queueKey rq (t_Priority t)) (Text (t_ID t)));
     ret (case cmd_err r of Some e \<Rightarrow> EUndo t e | None \<Rightarrow> ECount)
   }"
| "enq_step rq c (EUndo t e) = do {
     _ \<leftarrow> redis_do (rq_client rq) c (DEL (taskKey (t_ID t)));
     ret (EDone (Some (Wrap ''failed to enqueue task'' e)))
   }"
| "enq_step rq c ECount = do {
     _ \<leftarrow> redis_do (rq_client rq) c (INCR (statsKey ''total''));
     ret EStamp
   }"
| "enq_step rq c EStamp = do {
     now \<leftarrow> time_Now;
     _ \<leftarrow> redis_do (rq_client rq) c (SET (statsKey ''last_enqueue'') (Doc (JNum (time_Unix now))) 0);
     ret (EDone None)
   }"
| "enq_step rq c (EDone e) = ret (EDone e)"

text \<open>
  \<open>Ack\<close> of an identifier that is not empty, and \<open>Nack\<close> of it without requeueing: the two
  differ in the counter they raise.
\<close>

datatype rel =
    RProc string string
  | RTask string string
  | RCount string
  | RDone

fun rel_step :: "'s RedisQueue \<Rightarrow> ctx \<Rightarrow> rel \<Rightarrow> ('s, rel) io" where
  "rel_step rq c (RProc taskID stat) = do {
     _ \<leftarrow> redis_do (rq_client rq) c (DEL (processingKey taskID));
     ret (RTask taskID stat)
   }"
| "rel_step rq c (RTask taskID stat) = do {
     _ \<leftarrow> redis_do (rq_client rq) c (DEL (taskKey taskID));
     ret (RCount stat)
   }"
| "rel_step rq c (RCount stat) = do {
     _ \<leftarrow> redis_do (rq_client rq) c (INCR (statsKey stat));
     ret RDone
   }"
| "rel_step rq c RDone = ret RDone"

text \<open>A machine run alone for \<open>n\<close> steps.\<close>

primrec run_steps :: "nat \<Rightarrow> ('a \<Rightarrow> ('s, 'a) io) \<Rightarrow> 'a \<Rightarrow> ('s, 'a) io" where
  "run_steps 0 f a = ret a"
| "run_steps (Suc n) f a = do { b \<leftarrow> f a; run_steps n f b }"

subsection \<open>Processes over one server\<close>

text \<open>
  What a process does with the queue: a worker that waits, is inside \<open>Dequeue\<close>, runs the handler
  of the task it was given, or acknowledges it (or drops it after its last failure); a process
  that is inside \<open>Enqueue\<close>, a broker with a new task or a worker with a task to be tried again.
\<close>

datatype proc =
    Waiting
  | Taking deq
  | Handling task
  | Releasing rel
  | Sending enq

text \<open>
  The system: the shared world, the processes, the identifiers of all tasks that were
  submitted and of those whose data were deleted at the end of their life.
\<close>

record 's csys =
  cs_world :: "'s world"
  cs_procs :: "proc list"
  cs_born :: "string list"
  cs_gone :: "string list"

definition set_proc :: "nat \<Rightarrow> proc \<Rightarrow> 's csys \<Rightarrow> 's csys" where
  "set_proc i m s = s\<lparr>cs_procs := (cs_procs s)[i := m]\<rparr>"

text \<open>The task that \<open>Enqueue\<close> is given again after a failure is the one \<open>Dequeue\<close> returned.\<close>

definition same_entry :: "task \<Rightarrow> task \<Rightarrow> bool" where
  "same_entry u t \<longleftrightarrow> task_ok u \<and> t_ID u = t_ID t \<and> t_Priority u = t_Priority t"

text \<open>
  One step. \<open>spawn\<close> starts a process: a worker that the pool adds, or one that replaces a process
  that has crashed, which is a process that makes no further step. \<open>other\<close> stands for everything else that uses the server, the clock or the handlers: the
  result storage, the dead letter queue, the statistics, the dashboard. It changes neither the
  lists of the queue nor the task data.
\<close>

definition queue_keys :: "string set" where
  "queue_keys = qkey ` set priorities \<union> range taskKey"

inductive cstep :: "'s client \<Rightarrow> ('s \<Rightarrow> db) \<Rightarrow> 's csys \<Rightarrow> 's csys \<Rightarrow> bool"
  for ex :: "'s client" and view :: "'s \<Rightarrow> db" where
  poll: "i < length (cs_procs s) \<Longrightarrow> cs_procs s ! i = Waiting \<Longrightarrow>
    cstep ex view s (set_proc i (Taking (DPop priorities)) s)"
| take: "i < length (cs_procs s) \<Longrightarrow> cs_procs s ! i = Taking m \<Longrightarrow>
    run_state (deq_step (RQ ex) Live m) (cs_world s) = (m', w') \<Longrightarrow>
    cstep ex view s (set_proc i (Taking m') (s\<lparr>cs_world := w'\<rparr>))"
| taken: "i < length (cs_procs s) \<Longrightarrow> cs_procs s ! i = Taking (DDone (Inr (Some t))) \<Longrightarrow>
    cstep ex view s (set_proc i (Handling t) s)"
| none: "i < length (cs_procs s) \<Longrightarrow> cs_procs s ! i = Taking (DDone r) \<Longrightarrow> (\<forall>t. r \<noteq> Inr (Some t)) \<Longrightarrow>
    cstep ex view s (set_proc i Waiting s)"
| finish: "i < length (cs_procs s) \<Longrightarrow> cs_procs s ! i = Handling t \<Longrightarrow>
    cstep ex view s (set_proc i (Releasing (RProc (t_ID t) stat)) s)"
| release: "i < length (cs_procs s) \<Longrightarrow> cs_procs s ! i = Releasing m \<Longrightarrow>
    run_state (rel_step (RQ ex) Live m) (cs_world s) = (m', w') \<Longrightarrow>
    gone = (case m of RTask j stat \<Rightarrow> [j] | _ \<Rightarrow> []) \<Longrightarrow>
    cstep ex view s (set_proc i (Releasing m') (s\<lparr>cs_world := w', cs_gone := cs_gone s @ gone\<rparr>))"
| released: "i < length (cs_procs s) \<Longrightarrow> cs_procs s ! i = Releasing RDone \<Longrightarrow>
    cstep ex view s (set_proc i Waiting s)"
| retry: "i < length (cs_procs s) \<Longrightarrow> cs_procs s ! i = Handling t \<Longrightarrow> same_entry u t \<Longrightarrow>
    cstep ex view s (set_proc i (Sending (ESet u)) s)"
| submit: "i < length (cs_procs s) \<Longrightarrow> cs_procs s ! i = Waiting \<Longrightarrow> task_ok t \<Longrightarrow>
    t_Priority t \<in> set priorities \<Longrightarrow> t_ID t \<notin> set (cs_born s) \<Longrightarrow>
    cstep ex view s (set_proc i (Sending (ESet t)) (s\<lparr>cs_born := cs_born s @ [t_ID t]\<rparr>))"
| send: "i < length (cs_procs s) \<Longrightarrow> cs_procs s ! i = Sending m \<Longrightarrow>
    run_state (enq_step (RQ ex) Live m) (cs_world s) = (m', w') \<Longrightarrow>
    cstep ex view s (set_proc i (Sending m') (s\<lparr>cs_world := w'\<rparr>))"
| sent: "i < length (cs_procs s) \<Longrightarrow> cs_procs s ! i = Sending (EDone e) \<Longrightarrow>
    cstep ex view s (set_proc i Waiting s)"
| spawn: "cstep ex view s (s\<lparr>cs_procs := cs_procs s @ [Waiting]\<rparr>)"
| other: "(\<forall>k \<in> queue_keys. key_get k (view (w_db w')) = key_get k (view (w_db (cs_world s)))) \<Longrightarrow>
    cstep ex view s (s\<lparr>cs_world := w'\<rparr>)"

text \<open>At first the queue is empty and every process waits; the server is as documented.\<close>

definition cinit :: "'s client \<Rightarrow> ('s \<Rightarrow> db) \<Rightarrow> picker \<Rightarrow> 's csys \<Rightarrow> bool" where
  "cinit ex view pk s \<longleftrightarrow> redis_server ex view pk \<and>
     holds_queue (view (w_db (cs_world s))) (\<lambda>_. []) \<and> list_all (\<lambda>m. m = Waiting) (cs_procs s) \<and>
     cs_born s = [] \<and> cs_gone s = []"

text \<open>The tasks that a process alone is responsible for, by identifier.\<close>

fun holds_id :: "proc \<Rightarrow> string list" where
  "holds_id (Taking (DGet p i ps)) = [i]"
| "holds_id (Taking (DMark i t)) = [i]"
| "holds_id (Taking (DStamp t)) = [t_ID t]"
| "holds_id (Taking (DDone (Inr (Some t)))) = [t_ID t]"
| "holds_id (Handling t) = [t_ID t]"
| "holds_id (Releasing (RProc i stat)) = [i]"
| "holds_id (Releasing (RTask i stat)) = [i]"
| "holds_id (Sending (ESet t)) = [t_ID t]"
| "holds_id (Sending (EPush t)) = [t_ID t]"
| "holds_id _ = []"

text \<open>What a process knows of the database while it holds a task; the error phases do not occur.\<close>

definition entry_ok :: "db \<Rightarrow> task \<Rightarrow> bool" where
  "entry_ok d t \<longleftrightarrow> task_stored d t \<and> task_ok t \<and> t_Priority t \<in> set priorities"

fun proc_ok :: "db \<Rightarrow> proc \<Rightarrow> bool" where
  "proc_ok d (Taking (DPop ps)) \<longleftrightarrow> set ps \<subseteq> set priorities"
| "proc_ok d (Taking (DGet p i ps)) \<longleftrightarrow>
     set ps \<subseteq> set priorities \<and> (\<exists>t. entry_ok d t \<and> t_ID t = i \<and> t_Priority t = p)"
| "proc_ok d (Taking (DBack p i e)) \<longleftrightarrow> False"
| "proc_ok d (Taking (DDrop i e)) \<longleftrightarrow> False"
| "proc_ok d (Taking (DMark i t)) \<longleftrightarrow> entry_ok d t \<and> t_ID t = i"
| "proc_ok d (Taking (DStamp t)) \<longleftrightarrow> entry_ok d t"
| "proc_ok d (Taking (DDone r)) \<longleftrightarrow> (\<exists>tp. r = Inr tp \<and> (\<forall>t. tp = Some t \<longrightarrow> entry_ok d t))"
| "proc_ok d (Handling t) \<longleftrightarrow> entry_ok d t"
| "proc_ok d (Sending (ESet t)) \<longleftrightarrow> task_ok t \<and> t_Priority t \<in> set priorities"
| "proc_ok d (Sending (EPush t)) \<longleftrightarrow> entry_ok d t"
| "proc_ok d (Sending (EUndo t e)) \<longleftrightarrow> False"
| "proc_ok d (Sending (EDone e)) \<longleftrightarrow> e = None"
| "proc_ok d _ \<longleftrightarrow> True"

definition held_ids :: "proc list \<Rightarrow> string list" where
  "held_ids ps = concat (map holds_id ps)"

definition cinv :: "('s \<Rightarrow> db) \<Rightarrow> 's csys \<Rightarrow> bool" where
  "cinv view s \<longleftrightarrow> distinct (cs_born s) \<and> list_all (proc_ok (view (w_db (cs_world s)))) (cs_procs s) \<and>
     (\<exists>q. holds_queue (view (w_db (cs_world s))) q \<and>
        mset (cs_born s) = mset (queued_ids q) + mset (held_ids (cs_procs s)) + mset (cs_gone s))"

section \<open>Lemmas\<close>

subsection \<open>A machine run alone is the operation\<close>

lemma run_steps_final: "f a = ret a \<Longrightarrow> run_state (run_steps n f a) w = (a, w)"
  by (induction n) simp_all

lemma run_steps_Suc: "n = Suc m \<Longrightarrow> run_state (run_steps n f a) w =
    (case run_state (f a) w of (b, w') \<Rightarrow> run_state (run_steps m f b) w')"
  by (simp split: prod.split)

lemma run_deq_phase:
  "run_state (run_steps (Suc n) (deq_step rq c) (DGet p i ps)) w =
    (case run_state (deq_step rq c (DGet p i ps)) w of (b, w') \<Rightarrow> run_state (run_steps n (deq_step rq c) b) w')"
  "run_state (run_steps (Suc n) (deq_step rq c) (DPop (p # ps))) w =
    (case run_state (deq_step rq c (DPop (p # ps))) w of (b, w') \<Rightarrow> run_state (run_steps n (deq_step rq c) b) w')"
  "run_state (run_steps (Suc n) (deq_step rq c) (DMark i t)) w =
    (case run_state (deq_step rq c (DMark i t)) w of (b, w') \<Rightarrow> run_state (run_steps n (deq_step rq c) b) w')"
  "run_state (run_steps (Suc n) (deq_step rq c) (DStamp t)) w =
    (case run_state (deq_step rq c (DStamp t)) w of (b, w') \<Rightarrow> run_state (run_steps n (deq_step rq c) b) w')"
  "run_state (run_steps (Suc n) (deq_step rq c) (DBack p i e)) w =
    (case run_state (deq_step rq c (DBack p i e)) w of (b, w') \<Rightarrow> run_state (run_steps n (deq_step rq c) b) w')"
  "run_state (run_steps (Suc n) (deq_step rq c) (DDrop i e)) w =
    (case run_state (deq_step rq c (DDrop i e)) w of (b, w') \<Rightarrow> run_state (run_steps n (deq_step rq c) b) w')"
  by (rule run_steps_Suc [OF refl])+

lemma run_deq_steps:
  "2 * length ps + 2 \<le> n \<Longrightarrow>
    run_state (run_steps n (deq_step rq c) (DPop ps)) w =
      apfst DDone (run_state (dequeue_loop rq c ps) w)"
proof (induction ps arbitrary: n w)
  case Nil
  then show ?case by (cases n) (simp_all add: run_steps_final)
next
  case (Cons p ps)
  from Cons.prems obtain k where "n = 2 * length (p # ps) + 2 + k" using le_Suc_ex by blast
  then have n: "n = Suc (Suc (Suc (Suc (2 * length ps + k))))" by simp
  note IH = Cons.IH [of "Suc (Suc (Suc (2 * length ps + k)))"] Cons.IH [of "Suc (Suc (2 * length ps + k))"]
  let ?pop = "rq_client rq c (LPOP (queueKey rq p)) (w_db w)"
  let ?v = "w\<lparr>w_db := snd ?pop\<rparr>"
  let ?rest = "\<lambda>i w'. apfst DDone (run_state (do {
       r \<leftarrow> redis_do (rq_client rq) c (GET (taskKey i));
       (case str_result r of
          Inr None \<Rightarrow> dequeue_loop rq c ps
        | Inl e \<Rightarrow> do {
            _ \<leftarrow> redis_do (rq_client rq) c (LPUSH (queueKey rq p) (Text i));
            ret (Inl (Wrap ''failed to retrieve task data'' e))
          }
        | Inr (Some taskData) \<Rightarrow>
          (case unmarshal_task taskData of
             Inl e \<Rightarrow> do {
               _ \<leftarrow> redis_do (rq_client rq) c (DEL (taskKey i));
               ret (Inl (Wrap ''failed to unmarshal task'' e))
             }
           | Inr t \<Rightarrow> do {
               now \<leftarrow> time_Now;
               _ \<leftarrow> redis_do (rq_client rq) c (SET (processingKey i) (Doc (JNum (time_Unix now))) (1 * Hour));
               now' \<leftarrow> time_Now;
               _ \<leftarrow> redis_do (rq_client rq) c (SET (statsKey ''last_dequeue'') (Doc (JNum (time_Unix now'))) 0);
               ret (Inr (Some t))
             }))
     }) w')"
  have get: "run_state (run_steps (Suc (Suc (Suc (2 * length ps + k)))) (deq_step rq c) (DGet p i ps)) w' = ?rest i w'" for i w'
    by (cases "str_result (fst (rq_client rq c (GET (taskKey i)) (w_db w')))")
       (auto simp: run_deq_phase run_simps run_steps_final IH simp del: run_steps.simps split: option.split sum.split)
  show ?case
    unfolding n
    by (cases "str_result (fst ?pop)")
       (auto simp: run_deq_phase(2) run_simps run_steps_final IH get simp del: run_steps.simps split: option.split)
qed

lemma Dequeue_steps:
  "run_state (run_steps 10 (deq_step rq (usable_ctx c)) (DPop priorities)) w =
     apfst DDone (run_state (Dequeue rq c) w)"
  unfolding Dequeue_def by (rule run_deq_steps) (simp add: priorities_def)

lemma Enqueue_steps:
  "run_state (run_steps 4 (enq_step rq (usable_ctx c)) (ESet t)) w =
     apfst EDone (run_state (Enqueue rq c (Some t)) w)"
  by (auto simp: Enqueue_def eval_nat_numeral run_simps Let_def split: sum.split option.split)

lemma release_steps:
  assumes "i \<noteq> []"
  shows "run_state (run_steps 3 (rel_step rq c) (RProc i ''completed'')) w =
      (RDone, snd (run_state (Ack rq c i) w))" and "fst (run_state (Ack rq c i) w) = None"
    and "run_state (run_steps 3 (rel_step rq c) (RProc i ''failed'')) w =
      (RDone, snd (run_state (Nack rq c i False) w))" and "fst (run_state (Nack rq c i False) w) = None"
  using assms by (simp_all add: Ack_def Nack_def eval_nat_numeral run_simps)

subsection \<open>What a move of one process keeps\<close>

lemma server_step:
  assumes "redis_server ex view pk"
  shows "fst (ex Live x s) = fst (redis_step pk x (view s))"
    and "view (snd (ex Live x s)) = snd (redis_step pk x (view s))"
proof -
  have "redis_client pk Live x (view s) = (fst (ex Live x s), view (snd (ex Live x s)))"
    using assms unfolding redis_server_def by blast
  then show "fst (ex Live x s) = fst (redis_step pk x (view s))"
    "view (snd (ex Live x s)) = snd (redis_step pk x (view s))" by simp_all
qed

text \<open>The task data of all identifiers but those of a list are the same.\<close>

definition keeps_data :: "string list \<Rightarrow> db \<Rightarrow> db \<Rightarrow> bool" where
  "keeps_data is d d' \<longleftrightarrow> (\<forall>j. j \<notin> set is \<longrightarrow> key_get (taskKey j) d' = key_get (taskKey j) d)"

lemma entry_ok_frame:
  "entry_ok d t \<Longrightarrow> key_get (taskKey (t_ID t)) d' = key_get (taskKey (t_ID t)) d \<Longrightarrow> entry_ok d' t"
  by (simp add: entry_ok_def task_stored_def)

lemma proc_ok_frame:
  assumes "proc_ok d m" and "\<And>j. j \<in> set (holds_id m) \<Longrightarrow> key_get (taskKey j) d' = key_get (taskKey j) d"
  shows "proc_ok d' m"
proof (cases m)
  case (Taking x)
  with assms show ?thesis by (cases x) (auto intro: entry_ok_frame, rule entry_ok_frame)
next
  case (Releasing x)
  then show ?thesis by (cases x) simp_all
next
  case (Sending x)
  with assms show ?thesis by (cases x) (auto intro: entry_ok_frame)
qed (use assms in \<open>auto intro: entry_ok_frame\<close>)

lemma proc_ok_keeps:
  "proc_ok d m \<Longrightarrow> keeps_data is d d' \<Longrightarrow> set is \<inter> set (holds_id m) = {} \<Longrightarrow> proc_ok d' m"
  by (erule proc_ok_frame) (auto simp: keeps_data_def)

lemma held_ids_update:
  assumes "i < length ps"
  shows "mset (held_ids (ps[i := m])) + mset (holds_id (ps ! i)) = mset (held_ids ps) + mset (holds_id m)"
proof -
  have "ps = take i ps @ ps ! i # drop (Suc i) ps" using assms by (simp add: id_take_nth_drop)
  moreover have "ps[i := m] = take i ps @ m # drop (Suc i) ps" using assms by (simp add: upd_conv_take_nth_drop)
  ultimately have "mset (held_ids ps) =
      mset (concat (map holds_id (take i ps))) + mset (holds_id (ps ! i)) + mset (concat (map holds_id (drop (Suc i) ps)))"
    and "mset (held_ids (ps[i := m])) =
      mset (concat (map holds_id (take i ps))) + mset (holds_id m) + mset (concat (map holds_id (drop (Suc i) ps)))"
    unfolding held_ids_def by (metis concat.simps(2) concat_append map_append mset_append list.simps(9) add.assoc)+
  then show ?thesis by simp
qed

lemma held_by_two:
  assumes "distinct (held_ids ps)" and "i < length ps" and "j < length ps" and "i \<noteq> j"
  shows "set (holds_id (ps ! i)) \<inter> set (holds_id (ps ! j)) = {}"
proof -
  have "mset (held_ids (ps[i := Waiting])) + mset (holds_id (ps ! i)) = mset (held_ids ps)"
    using held_ids_update [OF assms(2), of Waiting] by simp
  then have "distinct (held_ids (ps[i := Waiting]) @ holds_id (ps ! i))"
    by (metis assms(1) mset_append mset_eq_imp_distinct_iff)
  moreover have "ps ! j \<in> set (ps[i := Waiting])"
    using assms(3,4) by (metis length_list_update nth_list_update_neq nth_mem)
  then have "set (holds_id (ps ! j)) \<subseteq> set (held_ids (ps[i := Waiting]))"
    by (auto simp: held_ids_def)
  ultimately show ?thesis by auto
qed

text \<open>A move of process \<open>i\<close> from \<open>m\<close> to \<open>m'\<close>, with the identifiers \<open>nb\<close> newly submitted and \<open>gone\<close> gone.\<close>

lemma cinv_distinct:
  assumes "distinct (cs_born s)"
    and "mset (cs_born s) = mset (queued_ids q) + mset (held_ids (cs_procs s)) + mset (cs_gone s)"
  shows "distinct (queued_ids q @ held_ids (cs_procs s) @ cs_gone s)"
  by (rule mset_eq_imp_distinct_iff [THEN iffD1, OF _ assms(1)]) (simp add: assms(2))

lemma balance:
  fixes B :: "'a multiset"
  assumes "B = Q + H + G" and "Q' + M' + N = Q + M + NB" and "H' + M = H + M'"
  shows "B + NB = Q' + H' + (G + N)"
proof -
  have "B + NB + M = (Q + M + NB) + (H + G)" by (simp add: assms(1) ac_simps)
  also have "\<dots> = (Q' + M' + N) + (H + G)" by (simp only: assms(2))
  also have "\<dots> = (H + M') + (Q' + N + G)" by (simp add: ac_simps)
  also have "\<dots> = (H' + M) + (Q' + N + G)" by (simp only: assms(3))
  also have "\<dots> = Q' + H' + (G + N) + M" by (simp add: ac_simps)
  finally show ?thesis by simp
qed

lemma cinv_move:
  assumes inv: "cinv view s" and i: "i < length (cs_procs s)" and m: "cs_procs s ! i = m"
    and move: "\<And>q. holds_queue (view (w_db (cs_world s))) q \<Longrightarrow> set (queued_ids q) \<inter> set (holds_id m) = {} \<Longrightarrow>
      proc_ok (view (w_db (cs_world s))) m \<Longrightarrow>
      keeps_data (holds_id m) (view (w_db (cs_world s))) (view (w_db w')) \<and> proc_ok (view (w_db w')) m' \<and>
      (\<exists>q'. holds_queue (view (w_db w')) q' \<and>
        mset (queued_ids q') + mset (holds_id m') + mset gone = mset (queued_ids q) + mset (holds_id m) + mset nb)"
    and nb: "distinct (cs_born s @ nb)"
  shows "cinv view (set_proc i m' (s\<lparr>cs_world := w', cs_gone := cs_gone s @ gone, cs_born := cs_born s @ nb\<rparr>))"
proof -
  let ?d = "view (w_db (cs_world s))"
  from inv obtain q where q: "holds_queue ?d q" "list_all (proc_ok ?d) (cs_procs s)"
      and born: "mset (cs_born s) = mset (queued_ids q) + mset (held_ids (cs_procs s)) + mset (cs_gone s)"
      and dist: "distinct (cs_born s)"
    by (auto simp: cinv_def)
  have all: "distinct (queued_ids q @ held_ids (cs_procs s) @ cs_gone s)" by (rule cinv_distinct [OF dist born])
  have mem: "m \<in> set (cs_procs s)" using i m nth_mem by blast
  then have sub: "set (holds_id m) \<subseteq> set (held_ids (cs_procs s))" by (auto simp: held_ids_def)
  with all have disj: "set (queued_ids q) \<inter> set (holds_id m) = {}" by auto
  from q(2) mem have ok: "proc_ok ?d m" by (simp add: list_all_iff)
  from move [OF q(1) disj ok] obtain q' where q': "holds_queue (view (w_db w')) q'"
      "mset (queued_ids q') + mset (holds_id m') + mset gone = mset (queued_ids q) + mset (holds_id m) + mset nb"
    and keep: "keeps_data (holds_id m) ?d (view (w_db w'))" and new: "proc_ok (view (w_db w')) m'" by auto
  have "proc_ok (view (w_db w')) ((cs_procs s)[i := m'] ! j)" if j: "j < length (cs_procs s)" for j
  proof (cases "i = j")
    case True
    with j new show ?thesis by simp
  next
    case False
    from q(2) j have "proc_ok ?d (cs_procs s ! j)" by (simp add: list_all_length)
    moreover have "set (holds_id m) \<inter> set (holds_id (cs_procs s ! j)) = {}"
      using held_by_two [OF _ i j False] all m by simp
    ultimately show ?thesis using False proc_ok_keeps [OF _ keep] by simp
  qed
  moreover have "mset (cs_born s @ nb) = mset (queued_ids q') + mset (held_ids ((cs_procs s)[i := m'])) + mset (cs_gone s @ gone)"
    using balance [OF born q'(2), of "mset (held_ids ((cs_procs s)[i := m']))"] held_ids_update [OF i, of m'] m by simp
  ultimately show ?thesis
    using q'(1) nb by (auto simp: cinv_def set_proc_def list_all_length)
qed

lemma queued_ids_pop:
  assumes "p \<in> set priorities" and "q p = t # ts"
  shows "mset (queued_ids q) = add_mset (t_ID t) (mset (queued_ids (q(p := ts))))"
  using assms by (auto simp: queued_ids_def a_order_def set_priorities) (simp_all add: priorities_def)

lemma queued_id_iff: "i \<in> set (queued_ids q) \<longleftrightarrow> (\<exists>p \<in> set priorities. \<exists>t \<in> set (q p). t_ID t = i)"
  by (auto simp: queued_ids_def a_order_def)

lemma holds_queue_push:
  assumes q: "holds_queue d q" and t: "entry_ok d t" and fresh: "t_ID t \<notin> set (queued_ids q)"
  shows "holds_queue (put_list (qkey (t_Priority t)) (map (\<lambda>t. Text (t_ID t)) (q (t_Priority t)) @ [Text (t_ID t)]) d)
           (a_enqueue t q)" (is "holds_queue ?d _")
proof -
  have stored: "task_stored ?d u = task_stored d u" for u
    by (rule task_stored_cong) simp
  have "task_stored ?d u \<and> task_ok u \<and> t_Priority u = p"
    if "p \<in> set priorities" "u \<in> set (a_enqueue t q p)" for p u
    using that q t by (auto simp: stored holds_queue_def entry_ok_def a_enqueue_def split: if_splits)
  moreover have "distinct (map t_ID (a_enqueue t q p))" if "p \<in> set priorities" for p
    using that q fresh by (force simp: a_enqueue_def holds_queue_def queued_id_iff)
  moreover have "list_at (qkey p) ?d = Some (map (\<lambda>t. Text (t_ID t)) (a_enqueue t q p))" if "p \<in> set priorities" for p
    using that q t by (auto simp: a_enqueue_def holds_queue_def entry_ok_def)
  ultimately show ?thesis by (simp add: holds_queue_def)
qed

lemma holds_queue_data:
  assumes q: "holds_queue d q" and fresh: "i \<notin> set (queued_ids q)"
    and d': "\<And>k. k \<noteq> taskKey i \<Longrightarrow> k \<in> queue_keys \<Longrightarrow> key_get k d' = key_get k d"
  shows "holds_queue d' q"
proof (rule holds_queue_frame [OF q])
  show "only_changes (insert (taskKey i) (- queue_keys)) d d'"
    using d' by (auto simp: only_changes_def)
  show "taskKey (t_ID t) \<notin> insert (taskKey i) (- queue_keys)" if "p \<in> set priorities" "t \<in> set (q p)" for p t
    using that fresh by (auto simp: queue_keys_def queued_id_iff)
qed (auto simp: queue_keys_def)

lemma holds_queue_other:
  assumes "holds_queue d q" and "\<And>k. k \<in> queue_keys \<Longrightarrow> key_get k d' = key_get k d"
  shows "holds_queue d' q"
proof (rule holds_queue_frame [OF assms(1)])
  show "only_changes (- queue_keys) d d'" using assms(2) by (auto simp: only_changes_def)
qed (auto simp: queue_keys_def)

lemma not_queue_keys [simp]: "processingKey i \<notin> queue_keys" "statsKey i \<notin> queue_keys"
  by (auto simp: queue_keys_def)

text \<open>The claim of a move on the database, for a process that goes from \<open>m\<close> to \<open>m'\<close>.\<close>

definition moves :: "db \<Rightarrow> pqueue \<Rightarrow> proc \<Rightarrow> db \<Rightarrow> proc \<Rightarrow> string list \<Rightarrow> bool" where
  "moves d q m d' m' gone \<longleftrightarrow> keeps_data (holds_id m) d d' \<and> proc_ok d' m' \<and>
     (\<exists>q'. holds_queue d' q' \<and>
        mset (queued_ids q') + mset (holds_id m') + mset gone = mset (queued_ids q) + mset (holds_id m))"

lemma moves_quiet:
  assumes "holds_queue d q" and "\<And>k. k \<in> queue_keys \<Longrightarrow> key_get k d' = key_get k d"
    and "proc_ok d' m'" and "holds_id m' = holds_id m"
  shows "moves d q m d' m' []"
proof -
  have "keeps_data (holds_id m) d d'" using assms(2) by (simp add: keeps_data_def queue_keys_def)
  with holds_queue_other [OF assms(1,2)] assms(3,4) show ?thesis by (auto simp: moves_def)
qed

lemma deq_moves_pop:
  assumes q: "holds_queue d q" and ps: "set (p # ps) \<subseteq> set priorities"
    and r: "redis_step pk (LPOP (qkey p)) d = (r, d')"
  shows "moves d q (Taking (DPop (p # ps))) d'
     (Taking (case str_result r of
        Inl e \<Rightarrow> DDone (Inl (Wrap ''failed to dequeue task'' e))
      | Inr None \<Rightarrow> DPop ps
      | Inr (Some b) \<Rightarrow>
        (case blob_text b of
           None \<Rightarrow> DDone (Inl (Wrap ''failed to dequeue task'' bad_reply))
         | Some taskID \<Rightarrow> DGet p taskID ps))) []"
proof (cases "q p")
  case Nil
  with q ps have "list_at (qkey p) d = Some []" by (simp add: holds_queue_def)
  with r have "r = RNil" "d' = d" by simp_all
  with q ps show ?thesis by (simp add: moves_quiet)
next
  case (Cons t ts)
  from ps have p: "p \<in> set priorities" by simp
  with q Cons have "list_at (qkey p) d = Some (Text (t_ID t) # map (\<lambda>t. Text (t_ID t)) ts)"
    by (simp add: holds_queue_def)
  with r have r': "r = RBulk (Text (t_ID t))" and d': "d' = put_list (qkey p) (map (\<lambda>t. Text (t_ID t)) ts) d"
    by simp_all
  have "holds_queue d' (q(p := ts))"
    by (rule holds_queue_pop [OF q p Cons, where i = "t_ID t"]) (simp_all add: d' only_changes_def)
  moreover have "entry_ok d' t" "t_Priority t = p"
    using q p Cons by (auto simp: entry_ok_def holds_queue_def d' task_stored_def)
  ultimately show ?thesis
    using ps queued_ids_pop [of p q t ts, OF p Cons]
    by (auto simp: moves_def keeps_data_def r' d' intro!: exI [of _ "q(p := ts)"] exI [of _ t])
qed

lemma get_finds:
  assumes srv: "redis_server ex view pk" and t: "entry_ok (view (w_db w)) t"
  shows "\<exists>w'. run_state (deq_step (RQ ex) Live (DGet p (t_ID t) ps)) w = (DMark (t_ID t) t, w') \<and>
    view (w_db w') = view (w_db w)"
proof -
  from t obtain ttl where "key_get (taskKey (t_ID t)) (view (w_db w)) = Some (VStr (Doc (task_json t)) ttl)"
    using task_stored_key by (fastforce simp: entry_ok_def)
  with t show ?thesis
    by (auto simp: run_simps server_step [OF srv] entry_ok_def task_json_roundtrip)
qed

lemma deq_moves:
  assumes srv: "redis_server ex view pk" and q: "holds_queue (view (w_db w)) q"
    and ok: "proc_ok (view (w_db w)) (Taking m)"
    and run: "run_state (deq_step (RQ ex) Live m) w = (m', w')"
  shows "moves (view (w_db w)) q (Taking m) (view (w_db w')) (Taking m') []"
proof (cases m)
  case (DPop ps)
  show ?thesis
  proof (cases ps)
    case Nil
    with DPop run q show ?thesis by (auto intro!: moves_quiet)
  next
    case (Cons p qs)
    obtain r d' where rd: "redis_step pk (LPOP (qkey p)) (view (w_db w)) = (r, d')" by fastforce
    from ok DPop Cons have ps: "set (p # qs) \<subseteq> set priorities" by simp
    then have "queueKey (RQ ex) p = qkey p" by simp
    with run rd DPop Cons have "view (w_db w') = d'" and "m' = (case str_result r of
        Inl e \<Rightarrow> DDone (Inl (Wrap ''failed to dequeue task'' e))
      | Inr None \<Rightarrow> DPop qs
      | Inr (Some b) \<Rightarrow>
        (case blob_text b of
           None \<Rightarrow> DDone (Inl (Wrap ''failed to dequeue task'' bad_reply))
         | Some taskID \<Rightarrow> DGet p taskID qs))"
      by (auto simp: run_simps server_step [OF srv] simp del: redis_step.simps)
    with deq_moves_pop [OF q ps rd] DPop Cons show ?thesis by simp
  qed
next
  case (DGet p i ps)
  from ok DGet obtain t where t: "entry_ok (view (w_db w)) t" "t_ID t = i" "set ps \<subseteq> set priorities" by auto
  with get_finds [OF srv t(1), of p ps] run DGet have "m' = DMark i t" "view (w_db w') = view (w_db w)" by auto
  with q t DGet show ?thesis by (auto intro!: moves_quiet)
next
  case (DMark i t)
  with run have "m' = DStamp t"
    and d': "view (w_db w') = key_put (processingKey i) (VStr (Doc (JNum (time_Unix (w_clock w (w_tick w))))) (1 * Hour)) (view (w_db w))"
    by (auto simp: run_simps server_step [OF srv])
  moreover have "entry_ok (view (w_db w')) t"
    using ok DMark by (auto simp: d' intro: entry_ok_frame)
  moreover have "key_get k (view (w_db w')) = key_get k (view (w_db w))" if "k \<in> queue_keys" for k
    using that not_queue_keys by (auto simp: d')
  ultimately show ?thesis using q ok DMark by (auto intro!: moves_quiet)
next
  case (DStamp t)
  with run have "m' = DDone (Inr (Some t))"
    and d': "view (w_db w') = key_put (statsKey ''last_dequeue'') (VStr (Doc (JNum (time_Unix (w_clock w (w_tick w))))) 0) (view (w_db w))"
    by (auto simp: run_simps server_step [OF srv])
  moreover have "entry_ok (view (w_db w')) t"
    using ok DStamp by (auto simp: d' intro: entry_ok_frame)
  moreover have "key_get k (view (w_db w')) = key_get k (view (w_db w))" if "k \<in> queue_keys" for k
    using that not_queue_keys by (auto simp: d')
  ultimately show ?thesis using q ok DStamp by (auto intro!: moves_quiet)
qed (use ok q run in \<open>auto intro!: moves_quiet\<close>)

lemma rel_moves:
  assumes srv: "redis_server ex view pk" and q: "holds_queue (view (w_db w)) q"
    and fresh: "set (queued_ids q) \<inter> set (holds_id (Releasing m)) = {}"
    and run: "run_state (rel_step (RQ ex) Live m) w = (m', w')"
  shows "moves (view (w_db w)) q (Releasing m) (view (w_db w')) (Releasing m')
     (case m of RTask j stat \<Rightarrow> [j] | _ \<Rightarrow> [])"
proof (cases m)
  case (RProc i stat)
  with run have "m' = RTask i stat" and d': "view (w_db w') = key_del (processingKey i) (view (w_db w))"
    by (auto simp: run_simps server_step [OF srv])
  moreover have "key_get k (view (w_db w')) = key_get k (view (w_db w))" if "k \<in> queue_keys" for k
    using that not_queue_keys by (auto simp: d')
  ultimately show ?thesis using q RProc by (auto intro!: moves_quiet)
next
  case (RTask i stat)
  with run have m': "m' = RCount stat" and d': "view (w_db w') = key_del (taskKey i) (view (w_db w))"
    by (auto simp: run_simps server_step [OF srv])
  have "holds_queue (view (w_db w')) q"
    by (rule holds_queue_data [OF q, where i = i]) (use fresh RTask in \<open>auto simp: d'\<close>)
  with m' RTask show ?thesis by (auto simp: moves_def keeps_data_def d')
next
  case (RCount stat)
  with run have "m' = RDone" and d': "view (w_db w') = snd (redis_step pk (INCR (statsKey stat)) (view (w_db w)))"
    by (auto simp: run_simps server_step [OF srv] simp del: redis_step.simps)
  moreover have "key_get k (view (w_db w')) = key_get k (view (w_db w))" if "k \<in> queue_keys" for k
    unfolding d' by (rule key_get_INCR) (use that not_queue_keys in auto)
  ultimately show ?thesis using q RCount by (auto intro!: moves_quiet)
qed (use q run in \<open>auto intro!: moves_quiet\<close>)

lemma enq_moves:
  assumes srv: "redis_server ex view pk" and q: "holds_queue (view (w_db w)) q"
    and ok: "proc_ok (view (w_db w)) (Sending m)"
    and fresh: "set (queued_ids q) \<inter> set (holds_id (Sending m)) = {}"
    and run: "run_state (enq_step (RQ ex) Live m) w = (m', w')"
  shows "moves (view (w_db w)) q (Sending m) (view (w_db w')) (Sending m') []"
proof (cases m)
  case (ESet t)
  with run ok have m': "m' = EPush t"
    and d': "view (w_db w') = key_put (taskKey (t_ID t)) (VStr (Doc (task_json t)) 0) (view (w_db w))"
    by (auto simp: run_simps server_step [OF srv] task_ok_marshal)
  have "holds_queue (view (w_db w')) q"
    by (rule holds_queue_data [OF q, where i = "t_ID t"]) (use fresh ESet in \<open>auto simp: d'\<close>)
  with m' ESet ok show ?thesis
    by (auto simp: moves_def keeps_data_def d' entry_ok_def task_stored_def)
next
  case (EPush t)
  with ok have t: "entry_ok (view (w_db w)) t" by simp
  let ?xs = "map (\<lambda>t. Text (t_ID t)) (q (t_Priority t))"
  from t q have "list_at (qkey (t_Priority t)) (view (w_db w)) = Some ?xs"
    by (simp add: entry_ok_def holds_queue_def)
  with run t EPush have m': "m' = ECount"
    and d': "view (w_db w') = put_list (qkey (t_Priority t)) (?xs @ [Text (t_ID t)]) (view (w_db w))"
    by (auto simp: run_simps server_step [OF srv] entry_ok_def)
  have "holds_queue (view (w_db w')) (a_enqueue t q)"
    unfolding d' by (rule holds_queue_push [OF q t]) (use fresh EPush in auto)
  with m' EPush t show ?thesis
    by (auto simp: moves_def keeps_data_def d' entry_ok_def queued_ids_enqueue intro!: exI [of _ "a_enqueue t q"])
next
  case ECount
  with run have "m' = EStamp" and d': "view (w_db w') = snd (redis_step pk (INCR (statsKey ''total'')) (view (w_db w)))"
    by (auto simp: run_simps server_step [OF srv] simp del: redis_step.simps)
  moreover have "key_get k (view (w_db w')) = key_get k (view (w_db w))" if "k \<in> queue_keys" for k
    unfolding d' by (rule key_get_INCR) (use that not_queue_keys in auto)
  ultimately show ?thesis using q ECount by (auto intro!: moves_quiet)
next
  case EStamp
  with run have "m' = EDone None"
    and d': "view (w_db w') = key_put (statsKey ''last_enqueue'') (VStr (Doc (JNum (time_Unix (w_clock w (w_tick w))))) 0) (view (w_db w))"
    by (auto simp: run_simps server_step [OF srv])
  moreover have "key_get k (view (w_db w')) = key_get k (view (w_db w))" if "k \<in> queue_keys" for k
    using that not_queue_keys by (auto simp: d')
  ultimately show ?thesis using q EStamp by (auto intro!: moves_quiet)
qed (use ok q run in \<open>auto intro!: moves_quiet\<close>)

subsection \<open>The invariant of the shared queue\<close>

lemma cinv_moves:
  assumes inv: "cinv view s" and i: "i < length (cs_procs s)" and m: "cs_procs s ! i = m"
    and move: "\<And>q. holds_queue (view (w_db (cs_world s))) q \<Longrightarrow> set (queued_ids q) \<inter> set (holds_id m) = {} \<Longrightarrow>
      proc_ok (view (w_db (cs_world s))) m \<Longrightarrow>
      moves (view (w_db (cs_world s))) q m (view (w_db w')) m' gone"
  shows "cinv view (set_proc i m' (s\<lparr>cs_world := w', cs_gone := cs_gone s @ gone\<rparr>))"
proof -
  have "distinct (cs_born s)" using inv by (simp add: cinv_def)
  then show ?thesis
    using cinv_move [OF inv i m, where w' = w' and m' = m' and gone = gone and nb = "[]"] move
    by (simp add: moves_def)
qed

lemma cinv_local:
  assumes inv: "cinv view s" and i: "i < length (cs_procs s)" and m: "cs_procs s ! i = m"
    and new: "\<And>d. proc_ok d m \<Longrightarrow> proc_ok d m'" "holds_id m' = holds_id m"
  shows "cinv view (set_proc i m' s)"
proof -
  have "cinv view (set_proc i m' (s\<lparr>cs_world := cs_world s, cs_gone := cs_gone s @ []\<rparr>))"
    by (rule cinv_moves [OF inv i m]) (use new in \<open>auto intro!: moves_quiet\<close>)
  then show ?thesis by simp
qed

lemma cinv_submit:
  assumes inv: "cinv view s" and i: "i < length (cs_procs s)" and m: "cs_procs s ! i = Waiting"
    and t: "task_ok t" "t_Priority t \<in> set priorities" "t_ID t \<notin> set (cs_born s)"
  shows "cinv view (set_proc i (Sending (ESet t)) (s\<lparr>cs_born := cs_born s @ [t_ID t]\<rparr>))"
proof -
  have "distinct (cs_born s)" using inv by (simp add: cinv_def)
  with t have "cinv view (set_proc i (Sending (ESet t))
      (s\<lparr>cs_world := cs_world s, cs_gone := cs_gone s @ [], cs_born := cs_born s @ [t_ID t]\<rparr>))"
    by (intro cinv_move [OF inv i m]) (auto simp: keeps_data_def)
  then show ?thesis by simp
qed

lemma cinv_other:
  assumes inv: "cinv view s"
    and w': "\<forall>k \<in> queue_keys. key_get k (view (w_db w')) = key_get k (view (w_db (cs_world s)))"
  shows "cinv view (s\<lparr>cs_world := w'\<rparr>)"
proof -
  have "proc_ok (view (w_db w')) m" if "proc_ok (view (w_db (cs_world s))) m" for m
    by (rule proc_ok_frame [OF that]) (use w' in \<open>simp add: queue_keys_def\<close>)
  moreover have "holds_queue (view (w_db w')) q" if "holds_queue (view (w_db (cs_world s))) q" for q
    by (rule holds_queue_other [OF that]) (use w' in simp)
  ultimately show ?thesis using inv by (auto simp: cinv_def list_all_iff)
qed

lemma cinv_step:
  assumes srv: "redis_server ex view pk" and inv: "cinv view s" and step: "cstep ex view s s'"
  shows "cinv view s'"
  using step
proof cases
  case (poll i)
  then show ?thesis by (auto intro!: cinv_local [OF inv])
next
  case (take i m m' w')
  have "cinv view (set_proc i (Taking m') (s\<lparr>cs_world := w', cs_gone := cs_gone s @ []\<rparr>))"
    by (rule cinv_moves [OF inv take(2,3)]) (rule deq_moves [OF srv _ _ take(4)])
  then show ?thesis by (simp add: take(1))
next
  case (taken i t)
  then show ?thesis by (auto intro!: cinv_local [OF inv])
next
  case (none i r)
  then have "holds_id (Taking (DDone r)) = []"
    by (cases "Taking (DDone r)" rule: holds_id.cases) auto
  with none show ?thesis by (auto intro!: cinv_local [OF inv])
next
  case (finish i t stat)
  then show ?thesis by (auto intro!: cinv_local [OF inv])
next
  case (release i m m' w' gone)
  have "cinv view (set_proc i (Releasing m') (s\<lparr>cs_world := w', cs_gone := cs_gone s @ gone\<rparr>))"
    unfolding release(5) by (rule cinv_moves [OF inv release(2,3)]) (rule rel_moves [OF srv _ _ release(4)])
  then show ?thesis by (simp add: release(1))
next
  case (released i)
  then show ?thesis by (auto intro!: cinv_local [OF inv])
next
  case (retry i t u)
  then show ?thesis by (auto simp: same_entry_def entry_ok_def intro!: cinv_local [OF inv])
next
  case (submit i t)
  then show ?thesis by (auto intro!: cinv_submit [OF inv])
next
  case (send i m m' w')
  have "cinv view (set_proc i (Sending m') (s\<lparr>cs_world := w', cs_gone := cs_gone s @ []\<rparr>))"
    by (rule cinv_moves [OF inv send(2,3)]) (rule enq_moves [OF srv _ _ _ send(4)])
  then show ?thesis by (simp add: send(1))
next
  case (sent i e)
  then show ?thesis by (auto intro!: cinv_local [OF inv])
next
  case spawn
  then show ?thesis using inv by (simp add: cinv_def held_ids_def)
next
  case (other w')
  then show ?thesis by (auto intro!: cinv_other [OF inv])
qed

lemma cinv_init:
  assumes s: "cinit ex view pk s"
  shows "cinv view s"
proof -
  from s have "held_ids (cs_procs s) = []"
    by (auto simp: held_ids_def cinit_def list_all_iff)
  moreover have "queued_ids (\<lambda>_. []) = []" by (simp add: queued_ids_def a_order_def)
  moreover have "list_all (proc_ok d) (cs_procs s)" for d
    using s by (auto simp: cinit_def list_all_iff)
  ultimately show "cinv view s" using s by (auto simp: cinv_def cinit_def intro!: exI [of _ "\<lambda>_. []"])
qed

interpretation csh: inductive_invariant "cinit ex view pk" "cstep ex view" "\<lambda>s. redis_server ex view pk \<and> cinv view s"
  for ex view pk
  by unfold_locales (auto simp: cinit_def intro: cinv_init cinv_step)

subsection \<open>A schedule for the instances\<close>

text \<open>The next step of process \<open>i\<close>, when the handlers succeed and nothing new is submitted.\<close>

definition next_move :: "'s client \<Rightarrow> nat \<Rightarrow> 's csys \<Rightarrow> 's csys" where
  "next_move ex i s =
     (case cs_procs s ! i of
        Waiting \<Rightarrow> set_proc i (Taking (DPop priorities)) s
      | Taking (DDone (Inr (Some t))) \<Rightarrow> set_proc i (Handling t) s
      | Taking (DDone _) \<Rightarrow> set_proc i Waiting s
      | Taking m \<Rightarrow> (case run_state (deq_step (RQ ex) Live m) (cs_world s) of
          (m', w') \<Rightarrow> set_proc i (Taking m') (s\<lparr>cs_world := w'\<rparr>))
      | Handling t \<Rightarrow> set_proc i (Releasing (RProc (t_ID t) ''completed'')) s
      | Releasing RDone \<Rightarrow> set_proc i Waiting s
      | Releasing m \<Rightarrow> (case run_state (rel_step (RQ ex) Live m) (cs_world s) of
          (m', w') \<Rightarrow> set_proc i (Releasing m')
             (s\<lparr>cs_world := w', cs_gone := cs_gone s @ (case m of RTask j _ \<Rightarrow> [j] | _ \<Rightarrow> [])\<rparr>))
      | Sending (EDone _) \<Rightarrow> set_proc i Waiting s
      | Sending m \<Rightarrow> (case run_state (enq_step (RQ ex) Live m) (cs_world s) of
          (m', w') \<Rightarrow> set_proc i (Sending m') (s\<lparr>cs_world := w'\<rparr>)))"

lemma cstep_next_move:
  assumes "i < length (cs_procs s)"
  shows "cstep ex view s (next_move ex i s)"
proof (cases "cs_procs s ! i")
  case Waiting
  with assms show ?thesis by (simp add: next_move_def cstep.poll)
next
  case (Taking m)
  with assms show ?thesis
    by (auto simp: next_move_def split: deq.split sum.split option.split prod.split
        intro: cstep.take cstep.taken cstep.none)
next
  case (Handling t)
  with assms show ?thesis by (simp add: next_move_def cstep.finish)
next
  case (Releasing m)
  show ?thesis
  proof (cases "m = RDone")
    case True
    with assms Releasing show ?thesis by (simp add: next_move_def cstep.released)
  next
    case False
    obtain m' w' where "run_state (rel_step (RQ ex) Live m) (cs_world s) = (m', w')" by fastforce
    moreover from this False Releasing have "next_move ex i s = set_proc i (Releasing m')
        (s\<lparr>cs_world := w', cs_gone := cs_gone s @ (case m of RTask j _ \<Rightarrow> [j] | _ \<Rightarrow> [])\<rparr>)"
      by (cases m) (auto simp: next_move_def)
    ultimately show ?thesis using cstep.release [OF assms Releasing] by simp
  qed
next
  case (Sending m)
  with assms show ?thesis
    by (auto simp: next_move_def split: enq.split prod.split intro: cstep.sent intro!: cstep.send)
qed

lemma next_move_length [simp]: "length (cs_procs (next_move ex i s)) = length (cs_procs s)"
  by (auto simp: next_move_def set_proc_def split: proc.split deq.split sum.split option.split prod.split rel.split enq.split)

lemma reach_schedule:
  assumes "reach init (cstep ex view) s" and "list_all (\<lambda>i. i < length (cs_procs s)) is"
  shows "reach init (cstep ex view) (fold (next_move ex) is s)"
  using assms
proof (induction "is" arbitrary: s)
  case (Cons i "is")
  then have "cstep ex view s (next_move ex i s)" by (auto intro: cstep_next_move)
  with Cons.prems(1) have "reach init (cstep ex view) (next_move ex i s)" by (rule reach_step)
  with Cons show ?case by simp
qed simp

text \<open>
  Two processes submit a task each, interleaved command by command, and then both ask for
  work, until each of them has a task.
\<close>

definition two_start :: "db csys" where
  "two_start = \<lparr>cs_world = start_world empty_db, cs_procs = [Waiting, Waiting], cs_born = [], cs_gone = []\<rparr>"

definition two_submit :: "db csys" where
  "two_submit =
     set_proc 1 (Sending (ESet (sample_task ''b'' 2 3)))
       ((set_proc 0 (Sending (ESet (sample_task ''a'' 1 3))) (two_start\<lparr>cs_born := [''a'']\<rparr>))\<lparr>cs_born := [''a'', ''b'']\<rparr>)"

definition two_busy :: "db csys" where
  "two_busy = fold (next_move (redis_client first_pick))
     (concat (replicate 5 [0, 1]) @ concat (replicate 7 [1, 0]) @ [0]) two_submit"

lemma reach_two_submit: "reach (cinit (redis_client first_pick) id first_pick) (cstep (redis_client first_pick) id) two_submit"
proof -
  let ?init = "cinit (redis_client first_pick) id first_pick"
  let ?step = "cstep (redis_client first_pick) id"
  let ?a = "sample_task ''a'' 1 3" and ?b = "sample_task ''b'' 2 3"
  let ?s = "set_proc 0 (Sending (ESet ?a)) (two_start\<lparr>cs_born := cs_born two_start @ [t_ID ?a]\<rparr>)"
  have "?init two_start"
    using redis_server_refl by (simp add: cinit_def two_start_def)
  then have "reach ?init ?step two_start" by (rule reach_init)
  moreover have "?step two_start ?s"
    by (rule cstep.submit) (simp_all add: two_start_def sample_task_ok in64_def set_priorities)
  ultimately have "reach ?init ?step ?s" by (rule reach_step)
  moreover have "?step ?s (set_proc 1 (Sending (ESet ?b)) (?s\<lparr>cs_born := cs_born ?s @ [t_ID ?b]\<rparr>))"
    by (rule cstep.submit) (simp_all add: two_start_def set_proc_def sample_task_ok in64_def set_priorities)
  ultimately have "reach ?init ?step (set_proc 1 (Sending (ESet ?b)) (?s\<lparr>cs_born := cs_born ?s @ [t_ID ?b]\<rparr>))"
    by (rule reach_step)
  then show ?thesis by (simp add: two_submit_def two_start_def set_proc_def)
qed

lemma reach_two_busy: "reach (cinit (redis_client first_pick) id first_pick) (cstep (redis_client first_pick) id) two_busy"
  unfolding two_busy_def
  by (rule reach_schedule [OF reach_two_submit])
     (simp add: two_submit_def two_start_def set_proc_def eval_nat_numeral)

lemma two_busy_procs: "cs_procs two_busy = [Handling (sample_task ''a'' 1 3), Handling (sample_task ''b'' 2 3)]"
  by code_simp

text \<open>The same system when the first process has popped an identifier and not yet fetched its data.\<close>

definition two_popped :: "db csys" where
  "two_popped = fold (next_move (redis_client first_pick))
     (concat (replicate 5 [0, 1]) @ [1, 1, 1, 0, 0, 0, 0]) two_submit"

lemma reach_two_popped: "reach (cinit (redis_client first_pick) id first_pick) (cstep (redis_client first_pick) id) two_popped"
  unfolding two_popped_def
  by (rule reach_schedule [OF reach_two_submit])
     (simp add: two_submit_def two_start_def set_proc_def eval_nat_numeral)

lemma two_popped_procs: "cs_procs two_popped ! 0 = Taking (DGet 1 ''a'' [0])" "0 < length (cs_procs two_popped)"
  by code_simp+

section \<open>Properties\<close>


text \<open>C2: 
  However many workers and brokers use one queue, more of them starting at any time and some of
  them stopping for ever in the middle of an operation, and however their Redis commands are
  interleaved with each other and with everything else the program does to other keys: at
  every moment the queue is well formed, and each task that was ever submitted is in exactly
  one place: in one of the lists, in the hands of exactly one process, or gone after \<open>Ack\<close> or the
  final \<open>Nack\<close>. No task is lost and none is duplicated.
\<close>

theorem every_task_in_one_place:
  assumes "reach (cinit ex view pk) (cstep ex view) s"
  shows "\<exists>q. holds_queue (view (w_db (cs_world s))) q \<and>
     mset (cs_born s) = mset (queued_ids q) + mset (held_ids (cs_procs s)) + mset (cs_gone s) \<and>
     distinct (queued_ids q @ held_ids (cs_procs s) @ cs_gone s)"
proof -
  have "cinv view s" using csh.reach_inv [OF assms] by simp
  then show ?thesis unfolding cinv_def using cinv_distinct by blast
qed

theorem every_task_in_one_place_witness:
  "\<exists>q. holds_queue (id (w_db (cs_world two_busy))) q \<and>
     mset (cs_born two_busy) = mset (queued_ids q) + mset (held_ids (cs_procs two_busy)) + mset (cs_gone two_busy) \<and>
     distinct (queued_ids q @ held_ids (cs_procs two_busy) @ cs_gone two_busy)"
  by (rule every_task_in_one_place [OF reach_two_busy])

text \<open>C6: 
  Two workers never run the same task at the same time, whatever the interleaving of the
  commands by which they took their tasks; a task that a worker runs is in none of the lists,
  so that no other worker can take it, its data are in the database until the worker itself
  acknowledges it, and it was not acknowledged before. So the task of a worker that has crashed is
  kept and never run by another one.
\<close>

theorem handled_by_one_worker:
  assumes "reach (cinit ex view pk) (cstep ex view) s"
    and "i < length (cs_procs s)" and "cs_procs s ! i = Handling t"
  shows "(\<forall>j u. j < length (cs_procs s) \<and> cs_procs s ! j = Handling u \<and> t_ID u = t_ID t \<longrightarrow> j = i) \<and>
     task_stored (view (w_db (cs_world s))) t \<and> t_ID t \<notin> set (cs_gone s) \<and>
     (\<exists>q. holds_queue (view (w_db (cs_world s))) q \<and> t_ID t \<notin> set (queued_ids q))"
proof -
  have inv: "cinv view s" using csh.reach_inv [OF assms(1)] by simp
  then obtain q where q: "holds_queue (view (w_db (cs_world s))) q"
      "distinct (queued_ids q @ held_ids (cs_procs s) @ cs_gone s)"
    unfolding cinv_def using cinv_distinct by blast
  have t: "Handling t \<in> set (cs_procs s)" using assms(2,3) nth_mem by metis
  then have "t_ID t \<in> set (held_ids (cs_procs s))" by (force simp: held_ids_def)
  moreover have "task_stored (view (w_db (cs_world s))) t"
    using inv t by (auto simp: cinv_def list_all_iff entry_ok_def)
  moreover have "j = i" if "j < length (cs_procs s)" "cs_procs s ! j = Handling u" "t_ID u = t_ID t" for j u
    using held_by_two [of "cs_procs s" i j] q(2) assms(2,3) that by (cases "i = j") auto
  ultimately show ?thesis using q by auto
qed

theorem handled_by_one_worker_witness:
  "cs_procs two_busy ! 1 = Handling (sample_task ''b'' 2 3) \<and>
   task_stored (id (w_db (cs_world two_busy))) (sample_task ''b'' 2 3) \<and> ''b'' \<notin> set (cs_gone two_busy)"
  using handled_by_one_worker [OF reach_two_busy, of 1 "sample_task ''b'' 2 3"] by (simp add: two_busy_procs)



end
