(* ===== verification/Spool_Logger.thy ===== *)
theory Spool_Logger
  imports Spool_Redis
begin

text \<open>
  \<open>internal/logger/logger.go\<close>: structured logging. Strings are their bytes in UTF-8. An
  operation returns the text it writes to standard output. The order in which a \<open>range\<close> loop
  meets the fields and what \<open>runtime.Caller\<close> reports are arguments; timestamps are in UTC.
\<close>

section \<open>Definitions\<close>

subsection \<open>Levels\<close>

type_synonym Level = int

definition DEBUG :: Level where "DEBUG = 0"
definition INFO :: Level where "INFO = 1"
definition WARN :: Level where "WARN = 2"
definition ERROR :: Level where "ERROR = 3"
definition FATAL :: Level where "FATAL = 4"

text \<open>A level that is not in the map gives the empty string.\<close>

definition levelNames :: "Level \<Rightarrow> string" where
  "levelNames l =
     (case map_of [(DEBUG, ''DEBUG''), (INFO, ''INFO''), (WARN, ''WARN''), (ERROR, ''ERROR''), (FATAL, ''FATAL'')] l of
        None \<Rightarrow> [] | Some s \<Rightarrow> s)"

definition levelColors :: "Level \<Rightarrow> string" where
  "levelColors l =
     (case map_of [(DEBUG, ''[36m''), (INFO, ''[32m''), (WARN, ''[33m''), (ERROR, ''[31m''), (FATAL, ''[35m'')] l of
        None \<Rightarrow> [] | Some s \<Rightarrow> CHR 0x1B # s)"

definition colorReset :: string where
  "colorReset = CHR 0x1B # ''[0m''"

text \<open>
  \<open>strings.ToUpper\<close>, as far as a comparison with the names of the levels can tell: besides the
  ASCII letters, the dotless i and the long s become ASCII capitals.
\<close>

definition upper_char :: "char \<Rightarrow> char" where
  "upper_char c =
     (case map_of (zip ''abcdefghijklmnopqrstuvwxyz'' ''ABCDEFGHIJKLMNOPQRSTUVWXYZ'') c of
        None \<Rightarrow> c | Some d \<Rightarrow> d)"

fun to_upper :: "string \<Rightarrow> string" where
  "to_upper [] = []"
| "to_upper [c] = [upper_char c]"
| "to_upper (c # d # s) =
     (if c = CHR 0xC4 \<and> d = CHR 0xB1 then CHR ''I'' # to_upper s
      else if c = CHR 0xC5 \<and> d = CHR 0xBF then CHR ''S'' # to_upper s
      else upper_char c # to_upper (d # s))"

definition parseLevel :: "string \<Rightarrow> Level" where
  "parseLevel levelStr =
     (let s = to_upper levelStr
      in if s = ''DEBUG'' then DEBUG
         else if s = ''INFO'' then INFO
         else if s = ''WARN'' \<or> s = ''WARNING'' then WARN
         else if s = ''ERROR'' then ERROR
         else if s = ''FATAL'' then FATAL
         else INFO)"

subsection \<open>Fields\<close>

text \<open>A field value: a string, a number or boolean, an error, or anything else as \<open>%v\<close> prints it.\<close>

datatype field = FString string | FInt int | FFloat string | FBool bool | FError gerr | FOther string

type_synonym Fields = "(string \<times> field) list"
type_synonym field_order = "Fields \<Rightarrow> Fields"

fun show_field :: "field \<Rightarrow> string" where
  "show_field (FString s) = s"
| "show_field (FInt n) = show_int n"
| "show_field (FFloat s) = s"
| "show_field (FBool b) = (if b then ''true'' else ''false'')"
| "show_field (FError e) = err_Error e"
| "show_field (FOther s) = s"

definition mergeFields :: "Fields list \<Rightarrow> Fields" where
  "mergeFields fs =
     (if fs = [] then []
      else foldl (\<lambda>result f. foldl (\<lambda>result (k, v). AList.update k v result) result f) [] fs)"

subsection \<open>JSON strings\<close>

definition ReplaceAll :: "string \<Rightarrow> char \<Rightarrow> string \<Rightarrow> string" where
  "ReplaceAll s old new = concat (map (\<lambda>c. if c = old then new else [c]) s)"

abbreviation (input) backslash :: char where "backslash \<equiv> CHR 0x5C"
abbreviation (input) quote :: char where "quote \<equiv> CHR 0x22"

definition escapeJSON :: "string \<Rightarrow> string" where
  "escapeJSON s =
     (let s = ReplaceAll s backslash [backslash, backslash];
          s = ReplaceAll s quote [backslash, quote];
          s = ReplaceAll s (CHR 0x0A) [backslash, CHR ''n''];
          s = ReplaceAll s (CHR 0x0D) [backslash, CHR ''r''];
          s = ReplaceAll s (CHR 0x09) [backslash, CHR ''t'']
      in s)"

subsection \<open>Loggers\<close>

record Logger =
  lg_level :: Level
  lg_component :: string
  lg_format :: string
  lg_colorOutput :: bool

text \<open>The output is standard output, so \<open>isTerminal\<close> holds.\<close>

definition New :: "string \<Rightarrow> string \<Rightarrow> string \<Rightarrow> Logger" where
  "New levelStr format component =
     \<lparr>lg_level = parseLevel levelStr, lg_component = component, lg_format = format, lg_colorOutput = (format = ''text'')\<rparr>"

definition WithComponent :: "Logger \<Rightarrow> string \<Rightarrow> Logger" where
  "WithComponent l component = l\<lparr>lg_component := component\<rparr>"

text \<open>\<open>Format("2006-01-02 15:04:05.000")\<close>.\<close>

definition log_stamp :: "int \<Rightarrow> string" where
  "log_stamp t =
     map (\<lambda>c. if c = CHR ''T'' then CHR '' '' else c) (clock_string t) @ ''.'' @ pad0 3 (t mod Second div Millisecond)"

definition logText :: "field_order \<Rightarrow> Logger \<Rightarrow> string \<Rightarrow> Level \<Rightarrow> string \<Rightarrow> Fields \<Rightarrow> string" where
  "logText ord l timestamp level msg fs =
     (if lg_colorOutput l then levelColors level else []) @
     ''['' @ timestamp @ ''] '' @ levelNames level @ replicate (5 - length (levelNames level)) CHR '' '' @
     (if lg_colorOutput l then colorReset else []) @
     (if lg_component l \<noteq> [] then '' ['' @ lg_component l @ '']'' else []) @
     '' '' @ msg @
     concat (map (\<lambda>(k, v). '' '' @ k @ ''='' @ show_field v) (ord fs)) @ [CHR 0x0A]"

definition quoted :: "string \<Rightarrow> string" where
  "quoted s = quote # s @ [quote]"

fun json_field :: "string \<times> field \<Rightarrow> string" where
  "json_field (k, FInt n) = '','' @ quoted k @ '':'' @ show_int n"
| "json_field (k, FFloat s) = '','' @ quoted k @ '':'' @ s"
| "json_field (k, FBool b) = '','' @ quoted k @ '':'' @ (if b then ''true'' else ''false'')"
| "json_field (k, v) = '','' @ quoted k @ '':'' @ quoted (escapeJSON (show_field v))"

definition logJSON ::
  "field_order \<Rightarrow> (string \<times> int) option \<Rightarrow> Logger \<Rightarrow> string \<Rightarrow> Level \<Rightarrow> string \<Rightarrow> Fields \<Rightarrow> string" where
  "logJSON ord caller l timestamp level msg fs =
     ''{'' @ quoted ''timestamp'' @ '':'' @ quoted timestamp @
     '','' @ quoted ''level'' @ '':'' @ quoted (levelNames level) @
     (if lg_component l \<noteq> [] then '','' @ quoted ''component'' @ '':'' @ quoted (lg_component l) else []) @
     '','' @ quoted ''message'' @ '':'' @ quoted (escapeJSON msg) @
     concat (map json_field (ord fs)) @
     (if level \<ge> ERROR then
        (case caller of None \<Rightarrow> []
         | Some (file, line) \<Rightarrow> '','' @ quoted ''caller'' @ '':'' @ quoted (file @ '':'' @ show_int line))
      else []) @
     ''}'' @ [CHR 0x0A]"

definition log_msg ::
  "field_order \<Rightarrow> (string \<times> int) option \<Rightarrow> Logger \<Rightarrow> Level \<Rightarrow> string \<Rightarrow> Fields \<Rightarrow> ('s, string) io" where
  "log_msg ord caller l level msg fs =
     (if level < lg_level l then ret []
      else do {
        now \<leftarrow> time_Now;
        ret (if lg_format l = ''json'' then logJSON ord caller l (log_stamp now) level msg fs
             else logText ord l (log_stamp now) level msg fs)
      })"

text \<open>The methods of a logger; \<open>Fatal\<close> then ends the process.\<close>

definition Logger_Debug :: "field_order \<Rightarrow> Logger \<Rightarrow> string \<Rightarrow> Fields list \<Rightarrow> ('s, string) io" where
  "Logger_Debug ord l msg fs = log_msg ord None l DEBUG msg (mergeFields fs)"

definition Logger_Info :: "field_order \<Rightarrow> Logger \<Rightarrow> string \<Rightarrow> Fields list \<Rightarrow> ('s, string) io" where
  "Logger_Info ord l msg fs = log_msg ord None l INFO msg (mergeFields fs)"

definition Logger_Warn :: "field_order \<Rightarrow> Logger \<Rightarrow> string \<Rightarrow> Fields list \<Rightarrow> ('s, string) io" where
  "Logger_Warn ord l msg fs = log_msg ord None l WARN msg (mergeFields fs)"

definition Logger_Error :: "field_order \<Rightarrow> (string \<times> int) option \<Rightarrow> Logger \<Rightarrow> string \<Rightarrow> Fields list \<Rightarrow> ('s, string) io" where
  "Logger_Error ord caller l msg fs = log_msg ord caller l ERROR msg (mergeFields fs)"

definition Logger_Fatal :: "field_order \<Rightarrow> (string \<times> int) option \<Rightarrow> Logger \<Rightarrow> string \<Rightarrow> Fields list \<Rightarrow> ('s, string) io" where
  "Logger_Fatal ord caller l msg fs = log_msg ord caller l FATAL msg (mergeFields fs)"

subsection \<open>The default logger\<close>

text \<open>\<open>Init\<close> takes effect once. Without it the convenience functions print through package \<open>log\<close>.\<close>

record default_logger =
  dl_logger :: "Logger option"
  dl_once :: bool

definition Init :: "string \<Rightarrow> string \<Rightarrow> string \<Rightarrow> default_logger \<Rightarrow> default_logger" where
  "Init level format component d =
     (if dl_once d then d else d\<lparr>dl_logger := Some (New level format component), dl_once := True\<rparr>)"

definition GetDefault :: "default_logger \<Rightarrow> Logger option" where
  "GetDefault d = dl_logger d"

datatype log_output = ToLogger string | ToStdLog string

definition default_log ::
  "(Logger \<Rightarrow> ('s, string) io) \<Rightarrow> string \<Rightarrow> string \<Rightarrow> default_logger \<Rightarrow> ('s, log_output) io" where
  "default_log f tag msg d =
     (case dl_logger d of
        Some l \<Rightarrow> do { s \<leftarrow> f l; ret (ToLogger s) }
      | None \<Rightarrow> ret (ToStdLog (''['' @ tag @ ''] '' @ msg)))"

definition Debug :: "field_order \<Rightarrow> string \<Rightarrow> Fields list \<Rightarrow> default_logger \<Rightarrow> ('s, log_output) io" where
  "Debug ord msg fs = default_log (\<lambda>l. Logger_Debug ord l msg fs) ''DEBUG'' msg"

definition Info :: "field_order \<Rightarrow> string \<Rightarrow> Fields list \<Rightarrow> default_logger \<Rightarrow> ('s, log_output) io" where
  "Info ord msg fs = default_log (\<lambda>l. Logger_Info ord l msg fs) ''INFO'' msg"

definition Warn :: "field_order \<Rightarrow> string \<Rightarrow> Fields list \<Rightarrow> default_logger \<Rightarrow> ('s, log_output) io" where
  "Warn ord msg fs = default_log (\<lambda>l. Logger_Warn ord l msg fs) ''WARN'' msg"

definition Error :: "field_order \<Rightarrow> (string \<times> int) option \<Rightarrow> string \<Rightarrow> Fields list \<Rightarrow> default_logger \<Rightarrow> ('s, log_output) io" where
  "Error ord caller msg fs = default_log (\<lambda>l. Logger_Error ord caller l msg fs) ''ERROR'' msg"

definition Fatal :: "field_order \<Rightarrow> (string \<times> int) option \<Rightarrow> string \<Rightarrow> Fields list \<Rightarrow> default_logger \<Rightarrow> ('s, log_output) io" where
  "Fatal ord caller msg fs = default_log (\<lambda>l. Logger_Fatal ord caller l msg fs) ''FATAL'' msg"

subsection \<open>Reading JSON strings\<close>

text \<open>
  A JSON reader on the text after an opening quote: the string and the text behind its
  closing quote. Control characters are not allowed; escapes by code point do not occur here.
\<close>

definition unescape :: "char \<Rightarrow> char option" where
  "unescape c =
     map_of [(quote, quote), (backslash, backslash), (CHR ''/'', CHR ''/''), (CHR ''b'', CHR 0x08), (CHR ''f'', CHR 0x0C),
       (CHR ''n'', CHR 0x0A), (CHR ''r'', CHR 0x0D), (CHR ''t'', CHR 0x09)] c"

fun json_scan :: "string \<Rightarrow> (string \<times> string) option" where
  "json_scan [] = None"
| "json_scan (c # cs) =
     (if c = quote then Some ([], cs)
      else if c = backslash then
        (case cs of [] \<Rightarrow> None
         | d # ds \<Rightarrow>
           (case unescape d of None \<Rightarrow> None
            | Some x \<Rightarrow> map_option (\<lambda>(s, r). (x # s, r)) (json_scan ds)))
      else if of_char c < (32 :: int) then None
      else map_option (\<lambda>(s, r). (c # s, r)) (json_scan cs))"

text \<open>The characters that \<open>escapeJSON\<close> leaves readable.\<close>

definition loggable :: "char \<Rightarrow> bool" where
  "loggable c \<longleftrightarrow> c \<in> {CHR 0x0A, CHR 0x0D, CHR 0x09} \<or> \<not> of_char c < (32 :: int)"

definition escape_char :: "char \<Rightarrow> string" where
  "escape_char c =
     (if c = backslash then [backslash, backslash]
      else if c = quote then [backslash, quote]
      else if c = CHR 0x0A then [backslash, CHR ''n'']
      else if c = CHR 0x0D then [backslash, CHR ''r'']
      else if c = CHR 0x09 then [backslash, CHR ''t'']
      else [c])"

section \<open>Lemmas\<close>

lemma ReplaceAll_Cons: "ReplaceAll (c # s) old new = (if c = old then new else [c]) @ ReplaceAll s old new"
  by (simp add: ReplaceAll_def)

lemma ReplaceAll_append: "ReplaceAll (s @ t) old new = ReplaceAll s old new @ ReplaceAll t old new"
  by (simp add: ReplaceAll_def)

lemma ReplaceAll_Nil [simp]: "ReplaceAll [] old new = []"
  by (simp add: ReplaceAll_def)

text \<open>The five passes over the string are one pass that escapes character by character.\<close>

lemma escapeJSON_charwise: "escapeJSON s = concat (map escape_char s)"
  by (induction s) (simp_all add: escapeJSON_def Let_def ReplaceAll_Cons ReplaceAll_append escape_char_def)

lemma json_scan_escaped:
  assumes "loggable c"
  shows "json_scan (escape_char c @ r) = map_option (\<lambda>(s, r). (c # s, r)) (json_scan r)"
  using assms by (auto simp: escape_char_def unescape_def loggable_def)

lemma json_scan_control: "\<not> loggable c \<Longrightarrow> json_scan (escape_char c @ r) = None"
  by (auto simp: escape_char_def loggable_def)

lemma mergeFields_lookup:
  "map_of (mergeFields fs) = foldl (\<lambda>m f. foldl (\<lambda>m (k, v). m(k \<mapsto> v)) m f) Map.empty fs"
proof -
  have inner: "map_of (foldl (\<lambda>res (k, v). AList.update k v res) res f) = foldl (\<lambda>m (k, v). m(k \<mapsto> v)) (map_of res) f" for res f
    by (induction f arbitrary: res) (auto simp: update_conv')
  have "map_of (foldl (\<lambda>res f. foldl (\<lambda>res (k, v). AList.update k v res) res f) res fs) =
      foldl (\<lambda>m f. foldl (\<lambda>m (k, v). m(k \<mapsto> v)) m f) (map_of res) fs" for res
    by (induction fs arbitrary: res) (simp_all add: inner)
  from this [of "[]"] show ?thesis by (simp add: mergeFields_def)
qed

section \<open>Properties\<close>

text \<open>C32: A JSON reader reads the quoted form of a message back as the message, and stops at its closing
  quote, exactly when the message has no control characters other than newline, carriage return
  and tab; otherwise the log record is not JSON.\<close>

theorem escaped_text_is_read_back:
  "json_scan (escapeJSON s @ quote # rest) = (if list_all loggable s then Some (s, rest) else None)"
  unfolding escapeJSON_charwise
proof (induction s)
  case Nil
  then show ?case by simp
next
  case (Cons c s)
  then show ?case
    by (cases "loggable c") (auto simp: json_scan_escaped json_scan_control simp del: json_scan.simps)
qed

end
