(* ===== verification/Spool_Lifecycle.thy ===== *)
theory Spool_Lifecycle
  imports Spool_Worker
begin

text \<open>
  The start and stop protocol of \<open>internal/worker/worker.go\<close>: \<open>Start\<close>, the goroutine \<open>run\<close>,
  \<open>Stop\<close>, \<open>Shutdown\<close> and \<open>IsRunning\<close>. They share the flag \<open>running\<close>, which a lock guards, the
  channel \<open>shutdownChan\<close> and the wait group, and any number of goroutines may call them, so each
  is cut into the parts between which another goroutine can run. Goroutines are counted by the
  place they have reached.
\<close>

section \<open>Definitions\<close>

text \<open>
  \<open>lf_starting\<close>: calls of \<open>Start\<close> that have set \<open>running\<close> and not yet started the loop;
  \<open>lf_polling\<close>, \<open>lf_leaving\<close>, \<open>lf_finishing\<close>: goroutines in the loop of \<open>run\<close>, about to clear
  \<open>running\<close>, about to call \<open>wg.Done\<close>; \<open>lf_closing\<close>, \<open>lf_waiting\<close>: calls of \<open>Stop\<close> or
  \<open>Shutdown\<close> about to close the channel, waiting for the loop. \<open>lf_starts\<close> counts the calls of
  \<open>Start\<close> that succeeded; it is not in the code.
\<close>

record life =
  lf_id :: string
  lf_running :: bool
  lf_closed :: bool
  lf_wg :: int
  lf_starting :: nat
  lf_polling :: nat
  lf_leaving :: nat
  lf_finishing :: nat
  lf_closing :: nat
  lf_waiting :: nat
  lf_panicked :: bool
  lf_starts :: nat

definition new_life :: "string \<Rightarrow> life" where
  "new_life i = \<lparr>lf_id = i, lf_running = False, lf_closed = False, lf_wg = 0, lf_starting = 0, lf_polling = 0,
     lf_leaving = 0, lf_finishing = 0, lf_closing = 0, lf_waiting = 0, lf_panicked = False, lf_starts = 0\<rparr>"

subsection \<open>Start\<close>

definition Start_lock :: "life \<Rightarrow> gerr option \<times> life" where
  "Start_lock l =
     (if lf_running l then (Some (Err (''worker '' @ lf_id l @ '' is already running'')), l)
      else (None, l\<lparr>lf_running := True, lf_starting := lf_starting l + 1, lf_starts := lf_starts l + 1\<rparr>))"

definition Start_spawn :: "life \<Rightarrow> life" where
  "Start_spawn l = l\<lparr>lf_starting := lf_starting l - 1, lf_wg := lf_wg l + 1, lf_polling := lf_polling l + 1\<rparr>"

text \<open>The whole call, when no other goroutine runs in between.\<close>

definition Worker_Start :: "life \<Rightarrow> gerr option \<times> life" where
  "Worker_Start l = (case Start_lock l of (Some e, l) \<Rightarrow> (Some e, l) | (None, l) \<Rightarrow> (None, Start_spawn l))"

subsection \<open>The loop\<close>

text \<open>
  The cases of the \<open>select\<close> statement. Which of the ready cases is taken is not determined, so
  the loop runs on a list of choices; a choice other than \<open>Tick\<close> ends it. The boolean tells
  whether it has ended.
\<close>

datatype select_case = CtxDone | ShutdownSignal | Tick

fun run_loop :: "select_case list \<Rightarrow> 's Worker \<Rightarrow> ctx \<Rightarrow> worker_stats \<Rightarrow> ('s, worker_stats \<times> bool) io" where
  "run_loop [] wk c s = ret (s, False)"
| "run_loop (CtxDone # cs) wk c s = ret (s, True)"
| "run_loop (ShutdownSignal # cs) wk c s = ret (s, True)"
| "run_loop (Tick # cs) wk c s = do { x \<leftarrow> pollAndExecute wk c s; run_loop cs wk c (fst x) }"

definition case_ready :: "bool \<Rightarrow> life \<Rightarrow> select_case \<Rightarrow> bool" where
  "case_ready cancelled l ch = (case ch of CtxDone \<Rightarrow> cancelled | ShutdownSignal \<Rightarrow> lf_closed l | Tick \<Rightarrow> True)"

text \<open>Taking a case; the deferred functions of \<open>run\<close>: clear the flag, then \<open>wg.Done\<close>.\<close>

definition run_select :: "select_case \<Rightarrow> life \<Rightarrow> life" where
  "run_select ch l = (if ch = Tick then l else l\<lparr>lf_polling := lf_polling l - 1, lf_leaving := lf_leaving l + 1\<rparr>)"

definition run_clear :: "life \<Rightarrow> life" where
  "run_clear l = l\<lparr>lf_running := False, lf_leaving := lf_leaving l - 1, lf_finishing := lf_finishing l + 1\<rparr>"

definition run_done :: "life \<Rightarrow> life" where
  "run_done l = l\<lparr>lf_wg := lf_wg l - 1, lf_finishing := lf_finishing l - 1\<rparr>"

subsection \<open>Stop and Shutdown\<close>

text \<open>Both begin the same way; closing a closed channel panics.\<close>

definition Stop_lock :: "life \<Rightarrow> gerr option \<times> life" where
  "Stop_lock l =
     (if \<not> lf_running l then (Some (Err (''worker '' @ lf_id l @ '' is not running'')), l)
      else (None, l\<lparr>lf_running := False, lf_closing := lf_closing l + 1\<rparr>))"

definition Stop_close :: "life \<Rightarrow> life" where
  "Stop_close l =
     (let l = l\<lparr>lf_closing := lf_closing l - 1\<rparr>
      in if lf_closed l then l\<lparr>lf_panicked := True\<rparr> else l\<lparr>lf_closed := True, lf_waiting := lf_waiting l + 1\<rparr>)"

text \<open>\<open>wg.Wait\<close> returns when the counter is zero; \<open>Shutdown\<close> also returns when its context ends.\<close>

definition Stop_wait :: "life \<Rightarrow> (gerr option \<times> life) option" where
  "Stop_wait l = (if lf_wg l = 0 then Some (None, l\<lparr>lf_waiting := lf_waiting l - 1\<rparr>) else None)"

definition Shutdown_wait :: "ctx \<Rightarrow> life \<Rightarrow> (gerr option \<times> life) option" where
  "Shutdown_wait c l =
     (if ctx_Err c \<noteq> None then Some (ctx_Err c, l\<lparr>lf_waiting := lf_waiting l - 1\<rparr>) else Stop_wait l)"

definition IsRunning :: "life \<Rightarrow> bool" where
  "IsRunning l = lf_running l"

text \<open>All calls, interleaved in any order; \<open>run\<close> may be cancelled at any time.\<close>

inductive wlife_step :: "life \<Rightarrow> life \<Rightarrow> bool" where
  ls_start: "Start_lock l = (e, l') \<Longrightarrow> wlife_step l l'"
| ls_spawn: "0 < lf_starting l \<Longrightarrow> wlife_step l (Start_spawn l)"
| ls_select: "0 < lf_polling l \<Longrightarrow> case_ready cancelled l ch \<Longrightarrow> wlife_step l (run_select ch l)"
| ls_clear: "0 < lf_leaving l \<Longrightarrow> wlife_step l (run_clear l)"
| ls_done: "0 < lf_finishing l \<Longrightarrow> wlife_step l (run_done l)"
| ls_stop: "Stop_lock l = (e, l') \<Longrightarrow> wlife_step l l'"
| ls_close: "0 < lf_closing l \<Longrightarrow> wlife_step l (Stop_close l)"
| ls_wait: "0 < lf_waiting l \<Longrightarrow> Stop_wait l = Some (e, l') \<Longrightarrow> wlife_step l l'"
| ls_timeout: "0 < lf_waiting l \<Longrightarrow> Shutdown_wait c l = Some (e, l') \<Longrightarrow> wlife_step l l'"

definition wlife_init :: "life \<Rightarrow> bool" where
  "wlife_init l \<longleftrightarrow> (\<exists>i. l = new_life i)"

text \<open>
  The wait group counts the goroutines of \<open>run\<close>, every loop and every call that clears the flag
  goes back to a \<open>Start\<close> of its own, and so does closing the channel.
\<close>

definition wlife_inv :: "life \<Rightarrow> bool" where
  "wlife_inv l \<longleftrightarrow>
     lf_wg l = int (lf_polling l + lf_leaving l + lf_finishing l) \<and>
     lf_starting l + lf_polling l + lf_leaving l + lf_finishing l \<le> lf_starts l \<and>
     lf_closing l + of_bool (lf_closed l) + of_bool (lf_running l) + of_bool (lf_panicked l) \<le> lf_starts l \<and>
     lf_waiting l \<le> of_bool (lf_closed l) \<and> (lf_panicked l \<longrightarrow> lf_closed l)"

text \<open>One goroutine runs the loop to its end: what is left of it after the channel was closed.\<close>

definition drain_one :: "life \<Rightarrow> life" where
  "drain_one l =
     (if 0 < lf_finishing l then run_done l
      else if 0 < lf_leaving l then run_clear l
      else if 0 < lf_polling l then run_select ShutdownSignal l
      else l)"

definition drain_left :: "life \<Rightarrow> nat" where
  "drain_left l = 3 * lf_polling l + 2 * lf_leaving l + lf_finishing l"

section \<open>Lemmas\<close>

inductive_cases wlife_stepE: "wlife_step l l'"

lemma new_wlife_inv: "wlife_init l \<Longrightarrow> wlife_inv l"
  by (auto simp: wlife_init_def new_life_def wlife_inv_def)

lemmas life_ops = Start_lock_def Start_spawn_def run_select_def run_clear_def run_done_def Stop_lock_def Stop_close_def
  Stop_wait_def Shutdown_wait_def Let_def

lemma wlife_step_inv: "wlife_inv l \<Longrightarrow> wlife_step l l' \<Longrightarrow> wlife_inv l'"
  by (erule wlife_stepE) (auto simp: wlife_inv_def life_ops split: if_splits)

interpretation wl: inductive_invariant wlife_init wlife_step wlife_inv
  by unfold_locales (erule new_wlife_inv, erule (1) wlife_step_inv)

lemma drain_one_step: "0 < drain_left l \<Longrightarrow> lf_closed l \<Longrightarrow> wlife_step l (drain_one l)"
  using ls_select [of l False ShutdownSignal]
  by (auto simp: drain_one_def drain_left_def case_ready_def intro: ls_clear ls_done)

lemma drain_one_less: "drain_left l = Suc n \<Longrightarrow> drain_left (drain_one l) = n"
  by (auto simp: drain_one_def drain_left_def life_ops)

lemma drain_one_keeps:
  "lf_closed (drain_one l) = lf_closed l" "lf_waiting (drain_one l) = lf_waiting l"
  by (auto simp: drain_one_def life_ops)

lemma drain_steps:
  assumes "drain_left l = n" and "lf_closed l"
  shows "wlife_step\<^sup>*\<^sup>* l ((drain_one ^^ n) l) \<and> drain_left ((drain_one ^^ n) l) = 0 \<and>
    lf_waiting ((drain_one ^^ n) l) = lf_waiting l"
  using assms
proof (induction n arbitrary: l)
  case 0
  then show ?case by simp
next
  case (Suc n)
  from Suc.prems have "wlife_step l (drain_one l)" by (intro drain_one_step) simp_all
  moreover note Suc.IH [OF drain_one_less [OF Suc.prems(1)]]
  ultimately show ?case
    using Suc.prems(2) by (auto simp: drain_one_keeps funpow_swap1 intro: converse_rtranclp_into_rtranclp)
qed

lemma run_loop_ticks:
  "run_loop (replicate n Tick) wk c s = State_Monad.bind (poll_n n wk c s) (\<lambda>s. ret (s, False))"
proof (induction n arbitrary: s)
  case 0
  then show ?case by (simp add: State_Monad.bind_def State_Monad.return_def)
next
  case (Suc n)
  then show ?case by simp
qed

text \<open>A worker that was started and stopped, with no other goroutine in between.\<close>

definition started :: "string \<Rightarrow> life" where
  "started i = snd (Worker_Start (new_life i))"

definition stopped :: "string \<Rightarrow> life" where
  "stopped i = snd (the (Stop_wait (run_done (run_clear (run_select ShutdownSignal
     (Stop_close (snd (Stop_lock (started i)))))))))"

lemma Worker_Start_steps:
  assumes "reach wlife_init wlife_step l"
  shows "reach wlife_init wlife_step (snd (Worker_Start l))"
proof (cases "lf_running l")
  case True
  with assms show ?thesis by (simp add: Worker_Start_def Start_lock_def)
next
  case False
  then have lock: "Start_lock l = (None, snd (Start_lock l))" "0 < lf_starting (snd (Start_lock l))"
    by (simp_all add: Start_lock_def)
  from assms ls_start [OF lock(1)] ls_spawn [OF lock(2)] have "reach wlife_init wlife_step (Start_spawn (snd (Start_lock l)))"
    by (blast intro: reach_step)
  with False show ?thesis by (simp add: Worker_Start_def Start_lock_def)
qed

lemmas life_runs = started_def Worker_Start_def new_life_def life_ops

lemma Stop_lock_steps: "reach wlife_init wlife_step l \<Longrightarrow> reach wlife_init wlife_step (snd (Stop_lock l))"
  by (erule reach_step, rule ls_stop, rule surjective_pairing)

lemma started_reachable: "reach wlife_init wlife_step (started i)"
proof -
  have "wlife_init (new_life i)" by (auto simp: wlife_init_def)
  then show ?thesis unfolding started_def by (intro Worker_Start_steps reach_init)
qed

lemma stopped_reachable: "reach wlife_init wlife_step (stopped i)"
proof -
  have "reach wlife_init wlife_step (snd (Stop_lock (started i)))" by (intro Stop_lock_steps started_reachable)
  then have "reach wlife_init wlife_step (Stop_close (snd (Stop_lock (started i))))"
    by (rule reach_step) (rule ls_close, simp add: life_runs)
  then have "reach wlife_init wlife_step (run_select ShutdownSignal (Stop_close (snd (Stop_lock (started i)))))"
    by (rule reach_step)
      (rule ls_select [where cancelled = False], simp_all add: life_runs case_ready_def)
  then have "reach wlife_init wlife_step (run_clear (run_select ShutdownSignal (Stop_close (snd (Stop_lock (started i))))))"
    by (rule reach_step) (rule ls_clear, simp add: life_runs)
  then have "reach wlife_init wlife_step (run_done (run_clear (run_select ShutdownSignal (Stop_close (snd (Stop_lock (started i)))))))"
    by (rule reach_step) (rule ls_done, simp add: life_runs)
  then show ?thesis
    by (rule reach_step)
      (rule ls_wait [where e = None], simp_all add: stopped_def life_runs)
qed

lemma wg_zero: "wlife_inv l \<Longrightarrow> lf_wg l = 0 \<longleftrightarrow> drain_left l = 0"
  by (auto simp: wlife_inv_def drain_left_def)

lemma no_goroutine: "drain_left l = 0 \<longleftrightarrow> lf_polling l + lf_leaving l + lf_finishing l = 0"
  by (simp add: drain_left_def)

section \<open>Properties\<close>

text \<open>C17: However the calls of \<open>Start\<close>, \<open>Stop\<close> and \<open>Shutdown\<close> on a worker interleave with its loop, as
  long as one call of \<open>Start\<close> succeeded at most, there is at most one loop, no call closes the
  shutdown channel a second time, and at most one call of \<open>Stop\<close> or \<open>Shutdown\<close> passes its check.\<close>

theorem single_loop_and_no_panic:
  assumes "reach wlife_init wlife_step l" and "lf_starts l \<le> 1"
  shows "lf_starting l + lf_polling l + lf_leaving l + lf_finishing l \<le> 1 \<and> \<not> lf_panicked l \<and>
    lf_closing l + lf_waiting l \<le> 1 \<and> (IsRunning l \<longrightarrow> \<not> lf_closed l)"
  using wl.reach_inv [OF assms(1)] assms(2) by (auto simp: wlife_inv_def IsRunning_def of_bool_def split: if_splits)

theorem single_loop_and_no_panic_witness:
  "reach wlife_init wlife_step (stopped ''a'') \<and> lf_starts (stopped ''a'') \<le> 1 \<and> \<not> lf_panicked (stopped ''a'')"
proof -
  have "lf_starts (stopped ''a'') \<le> 1"
    by (simp add: stopped_def life_runs)
  with stopped_reachable single_loop_and_no_panic [OF stopped_reachable] show ?thesis by blast
qed




end
