(* ===== verification/Spool_Config.thy ===== *)
theory Spool_Config
  imports Spool_Time
begin

text \<open>
  \<open>internal/config/config.go\<close>: the configuration records, their defaults and their validation.
  The process environment is an argument: \<open>os.Getenv\<close> returns the empty string for a
  variable that is not set.
\<close>

section \<open>Definitions\<close>

record RedisConfig =
  rc_Host :: string
  rc_Port :: int
  rc_Password :: string
  rc_DB :: int
  rc_PoolSize :: int

record AutoScalingConfig =
  as_Enabled :: bool
  as_MinWorkers :: int
  as_MaxWorkers :: int
  as_ScaleUpThreshold :: int
  as_ScaleDownIdleTime :: int
  as_CheckInterval :: int

record WorkerConfig =
  wc_Concurrency :: int
  wc_ID :: string
  wc_ShutdownTimeout :: int
  wc_DefaultTimeout :: int
  wc_HealthCheckInterval :: int
  wc_AutoScaling :: AutoScalingConfig

record BrokerConfig =
  bc_ListenAddr :: string
  bc_RetentionPeriod :: int
  bc_DLQEnabled :: bool
  bc_DLQRetentionDay :: int

record DashboardConfig =
  dc_Enabled :: bool
  dc_ListenAddr :: string
  dc_RefreshMS :: int

record LoggingConfig =
  lc_Level :: string
  lc_Format :: string

record Config =
  cfg_Redis :: RedisConfig
  cfg_Worker :: WorkerConfig
  cfg_Broker :: BrokerConfig
  cfg_Dashboard :: DashboardConfig
  cfg_Logging :: LoggingConfig

definition getEnv :: "(string \<Rightarrow> string) \<Rightarrow> string \<Rightarrow> string \<Rightarrow> string" where
  "getEnv env key defaultValue = (let value = env key in if value \<noteq> [] then value else defaultValue)"

definition Default :: "(string \<Rightarrow> string) \<Rightarrow> Config" where
  "Default env =
     \<lparr>cfg_Redis = \<lparr>rc_Host = getEnv env ''REDIS_HOST'' ''localhost'', rc_Port = 6379,
        rc_Password = getEnv env ''REDIS_PASSWORD'' [], rc_DB = 0, rc_PoolSize = 10\<rparr>,
      cfg_Worker = \<lparr>wc_Concurrency = 5, wc_ID = [], wc_ShutdownTimeout = 30 * Second,
        wc_DefaultTimeout = 30 * Second, wc_HealthCheckInterval = 10 * Second,
        wc_AutoScaling = \<lparr>as_Enabled = False, as_MinWorkers = 1, as_MaxWorkers = 10,
          as_ScaleUpThreshold = 100, as_ScaleDownIdleTime = 5 * Minute, as_CheckInterval = 30 * Second\<rparr>\<rparr>,
      cfg_Broker = \<lparr>bc_ListenAddr = '':8080'', bc_RetentionPeriod = 24 * Hour, bc_DLQEnabled = True,
        bc_DLQRetentionDay = 7\<rparr>,
      cfg_Dashboard = \<lparr>dc_Enabled = True, dc_ListenAddr = '':8080'', dc_RefreshMS = 1000\<rparr>,
      cfg_Logging = \<lparr>lc_Level = ''info'', lc_Format = ''text''\<rparr>\<rparr>"

definition RedisAddr :: "RedisConfig \<Rightarrow> string" where
  "RedisAddr c = rc_Host c @ '':'' @ show_int (rc_Port c)"

definition Validate :: "Config \<Rightarrow> gerr option" where
  "Validate c =
     (if rc_Host (cfg_Redis c) = [] then Some (Err ''redis host cannot be empty'')
      else if wc_Concurrency (cfg_Worker c) < 1 then Some (Err ''worker concurrency must be at least 1'')
      else
        (let a = wc_AutoScaling (cfg_Worker c)
         in if as_Enabled a \<and> as_MinWorkers a < 1 then Some (Err ''min workers must be at least 1'')
            else if as_Enabled a \<and> as_MaxWorkers a < as_MinWorkers a
            then Some (Err ''max workers must be >= min workers'')
            else None))"

text \<open>The scaling bounds a validated configuration guarantees.\<close>

definition bounds_ok :: "AutoScalingConfig \<Rightarrow> bool" where
  "bounds_ok a \<longleftrightarrow> 1 \<le> as_MinWorkers a \<and> as_MinWorkers a \<le> as_MaxWorkers a"

section \<open>Lemmas\<close>

lemma Validate_bounds:
  "Validate c = None \<Longrightarrow> as_Enabled (wc_AutoScaling (cfg_Worker c)) \<Longrightarrow> bounds_ok (wc_AutoScaling (cfg_Worker c))"
  by (auto simp: Validate_def bounds_ok_def Let_def split: if_splits)

lemma getEnv_nonempty: "d \<noteq> [] \<Longrightarrow> getEnv env k d \<noteq> []"
  by (simp add: getEnv_def Let_def)

section \<open>Properties\<close>

text \<open>\<open>Validate\<close> accepts exactly the configurations with a Redis host, at least one executor
  and, where scaling is enabled, bounds with \<open>1 \<le> min \<le> max\<close>; the defaults pass it in every
  environment.\<close>

theorem Validate_characterised:
  "(Validate c = None \<longleftrightarrow>
      rc_Host (cfg_Redis c) \<noteq> [] \<and> 1 \<le> wc_Concurrency (cfg_Worker c) \<and>
      (\<not> as_Enabled (wc_AutoScaling (cfg_Worker c)) \<or> bounds_ok (wc_AutoScaling (cfg_Worker c)))) \<and>
   Validate (Default env) = None"
  using getEnv_nonempty [of "''localhost''" env "''REDIS_HOST''"]
  by (auto simp: Validate_def Default_def bounds_ok_def Let_def)

theorem Validate_characterised_witness:
  "Validate (Default (\<lambda>_. [])) = None \<and> RedisAddr (cfg_Redis (Default (\<lambda>_. []))) = ''localhost:6379''"
  using Validate_characterised [of "Default (\<lambda>_. [])" "\<lambda>_. []"]
  by (simp add: Default_def RedisAddr_def getEnv_def show_int_def show_dec.simps digit_char_def)

end
