(* ===== verification/Spool_Scaler.thy ===== *)
theory Spool_Scaler
  imports Spool_Metrics Spool_Config
begin

text \<open>
  \<open>internal/monitoring/scaler.go\<close>: the auto-scaler. The interface \<open>WorkerController\<close> is a
  record of operations on a state of any type \<open>'c\<close>, and its contract is the locale
  \<open>worker_controller\<close>; the metrics object is shared with the controller and is threaded
  through its operations. Fields of type \<open>int32\<close> and \<open>int64\<close> wrap around.
\<close>

section \<open>Definitions\<close>

datatype ScalingAction = ScaleUp | ScaleDown | NoAction

record ScalingDecision =
  sd_Action :: ScalingAction
  sd_CurrentCount :: int
  sd_DesiredCount :: int
  sd_Reason :: string
  sd_QueueDepth :: int
  sd_IdleTime :: int
  sd_Throughput :: float64
  sd_DecisionTime :: int

text \<open>\<open>GetIdleWorker\<close> may choose; the number it is given distinguishes the calls.\<close>

record ('c, 's) WorkerController =
  ctl_GetWorkerCount :: "'c \<Rightarrow> int"
  ctl_AddWorker :: "ctx \<Rightarrow> 'c \<Rightarrow> 's Metrics \<Rightarrow> ('s, (gerr + string) \<times> 'c \<times> 's Metrics) io"
  ctl_RemoveWorker :: "ctx \<Rightarrow> string \<Rightarrow> 'c \<Rightarrow> 's Metrics \<Rightarrow> ('s, gerr option \<times> 'c \<times> 's Metrics) io"
  ctl_GetIdleWorker :: "nat \<Rightarrow> 'c \<Rightarrow> string"

record AutoScaler =
  s_config :: AutoScalingConfig
  s_running :: bool
  s_stopped :: bool \<comment> \<open>the channel \<open>stopChan\<close> is closed\<close>
  s_decisions :: "ScalingDecision list"
  s_lastScaleUp :: int
  s_lastScaleDown :: int
  s_consecutiveIdle :: int
  s_scaleUpCount :: int
  s_scaleDownCount :: int
  s_scaleUpCooldown :: int
  s_scaleDownCooldown :: int

definition NewAutoScaler :: "AutoScalingConfig \<Rightarrow> AutoScaler" where
  "NewAutoScaler cfg =
     \<lparr>s_config = cfg, s_running = False, s_stopped = False, s_decisions = [], s_lastScaleUp = zero_time,
      s_lastScaleDown = zero_time, s_consecutiveIdle = 0, s_scaleUpCount = 0, s_scaleDownCount = 0,
      s_scaleUpCooldown = 30 * Second, s_scaleDownCooldown = 2 * Minute\<rparr>"

definition Scaler_Start :: "AutoScaler \<Rightarrow> gerr option \<times> AutoScaler" where
  "Scaler_Start s =
     (if s_running s then (Some (Err ''auto-scaler is already running''), s) else (None, s\<lparr>s_running := True\<rparr>))"

text \<open>\<open>None\<close>: the call panics, since the channel is closed already.\<close>

definition Scaler_Stop :: "AutoScaler \<Rightarrow> AutoScaler option" where
  "Scaler_Stop s =
     (if \<not> s_running s then Some s
      else if s_stopped s then None
      else Some (s\<lparr>s_stopped := True, s_running := False\<rparr>))"

subsection \<open>Decisions\<close>

definition time_Since :: "int \<Rightarrow> ('s, int) io" where
  "time_Since t = do { now \<leftarrow> time_Now; ret (time_Sub now t) }"

definition shouldScaleUp :: "AutoScaler \<Rightarrow> MetricsSnapshot \<Rightarrow> int \<Rightarrow> ('s, bool) io" where
  "shouldScaleUp s snapshot currentWorkers =
     (if currentWorkers \<ge> wrap32 (as_MaxWorkers (s_config s)) then ret False
      else do {
        since \<leftarrow> time_Since (s_lastScaleUp s);
        ret (if since < s_scaleUpCooldown s then False
             else if ms_QueueDepth snapshot > as_ScaleUpThreshold (s_config s) then True
             else if ms_IdleWorkers snapshot = 0 \<and> ms_QueueDepth snapshot > 0 then True
             else if ms_QueueDepth snapshot > wrap32 (currentWorkers * 10) then True
             else False)
      })"

definition shouldScaleDown :: "AutoScaler \<Rightarrow> MetricsSnapshot \<Rightarrow> int \<Rightarrow> ('s, bool \<times> AutoScaler) io" where
  "shouldScaleDown s snapshot currentWorkers =
     (if currentWorkers \<le> wrap32 (as_MinWorkers (s_config s)) then ret (False, s)
      else if ms_IdleWorkers snapshot = 0 then ret (False, s\<lparr>s_consecutiveIdle := 0\<rparr>)
      else do {
        since \<leftarrow> time_Since (s_lastScaleDown s);
        (if since < s_scaleDownCooldown s then ret (False, s)
         else if ms_OldestIdleTime snapshot > as_ScaleDownIdleTime (s_config s)
         then (let s = s\<lparr>s_consecutiveIdle := wrap64 (s_consecutiveIdle s + 1)\<rparr> in ret (s_consecutiveIdle s \<ge> 2, s))
         else if ms_QueueDepth snapshot = 0 \<and> ms_IdleWorkers snapshot \<ge> currentWorkers sdiv 2 then ret (True, s)
         else ret (False, s\<lparr>s_consecutiveIdle := 0\<rparr>))
      })"

definition calculateScaleUpTarget :: "AutoScaler \<Rightarrow> MetricsSnapshot \<Rightarrow> int \<Rightarrow> int" where
  "calculateScaleUpTarget s snapshot current =
     (let desired = wrap32 (current + wrap32 (ms_QueueDepth snapshot sdiv 50));
          desired = (if desired \<le> current then wrap32 (current + 1) else desired);
          desired = (if desired > wrap32 (as_MaxWorkers (s_config s)) then wrap32 (as_MaxWorkers (s_config s)) else desired);
          maxIncrease = wrap32 (current sdiv 2 + 1)
      in if desired > wrap32 (current + maxIncrease) then wrap32 (current + maxIncrease) else desired)"

definition calculateScaleDownTarget :: "AutoScaler \<Rightarrow> MetricsSnapshot \<Rightarrow> int \<Rightarrow> int" where
  "calculateScaleDownTarget s snapshot current =
     (let desired = wrap32 (current - ms_IdleWorkers snapshot);
          desired = (if desired < wrap32 (as_MinWorkers (s_config s)) then wrap32 (as_MinWorkers (s_config s)) else desired);
          maxDecrease = current sdiv 4;
          maxDecrease = (if maxDecrease < 1 then 1 else maxDecrease)
      in if wrap32 (current - desired) > maxDecrease then wrap32 (current - maxDecrease) else desired)"

definition decide :: "AutoScaler \<Rightarrow> MetricsSnapshot \<Rightarrow> int \<Rightarrow> ('s, ScalingDecision \<times> AutoScaler) io" where
  "decide s snapshot currentWorkers = do {
     now \<leftarrow> time_Now;
     let decision = \<lparr>sd_Action = NoAction, sd_CurrentCount = currentWorkers, sd_DesiredCount = currentWorkers,
       sd_Reason = [], sd_QueueDepth = ms_QueueDepth snapshot, sd_IdleTime = ms_OldestIdleTime snapshot,
       sd_Throughput = ms_CurrentThroughput snapshot, sd_DecisionTime = now\<rparr>;
     up \<leftarrow> shouldScaleUp s snapshot currentWorkers;
     (if up then
        ret (decision\<lparr>sd_Action := ScaleUp, sd_DesiredCount := calculateScaleUpTarget s snapshot currentWorkers,
          sd_Reason := ''Queue depth '' @ show_int (ms_QueueDepth snapshot) @ '' exceeds threshold '' @
            show_int (as_ScaleUpThreshold (s_config s))\<rparr>, s)
      else do {
        down \<leftarrow> shouldScaleDown s snapshot currentWorkers;
        (if fst down then
           ret (decision\<lparr>sd_Action := ScaleDown,
             sd_DesiredCount := calculateScaleDownTarget (snd down) snapshot currentWorkers,
             sd_Reason := ''Workers idle for '' @ duration_String (ms_OldestIdleTime snapshot) @ '' (threshold: '' @
               duration_String (as_ScaleDownIdleTime (s_config s)) @ ''), idle workers: '' @
               show_int (ms_IdleWorkers snapshot) @ ''/'' @ show_int currentWorkers\<rparr>, snd down)
         else ret (decision, snd down))
      })
   }"

definition recordDecision :: "ScalingDecision \<Rightarrow> AutoScaler \<Rightarrow> AutoScaler" where
  "recordDecision decision s = s\<lparr>s_decisions := push_bounded 100 (s_decisions s) decision\<rparr>"

subsection \<open>Execution\<close>

text \<open>The loops of \<open>scaleUp\<close> and \<open>scaleDown\<close>; the first component counts the errors.\<close>

fun add_workers ::
  "('c, 's) WorkerController \<Rightarrow> ctx \<Rightarrow> nat \<Rightarrow> 'c \<Rightarrow> 's Metrics \<Rightarrow> ('s, nat \<times> 'c \<times> 's Metrics) io" where
  "add_workers ctl c 0 k m = ret (0, k, m)"
| "add_workers ctl c (Suc n) k m = do {
     x \<leftarrow> ctl_AddWorker ctl c k m;
     y \<leftarrow> add_workers ctl c n (fst (snd x)) (snd (snd x));
     ret ((case fst x of Inl _ \<Rightarrow> 1 | Inr _ \<Rightarrow> 0) + fst y, snd y)
   }"

fun remove_workers ::
  "('c, 's) WorkerController \<Rightarrow> ctx \<Rightarrow> nat \<Rightarrow> nat \<Rightarrow> 'c \<Rightarrow> 's Metrics \<Rightarrow> ('s, nat \<times> 'c \<times> 's Metrics) io" where
  "remove_workers ctl c i 0 k m = ret (0, k, m)"
| "remove_workers ctl c i (Suc n) k m =
     (let workerID = ctl_GetIdleWorker ctl i k
      in if workerID = [] then ret (0, k, m)
         else do {
           x \<leftarrow> ctl_RemoveWorker ctl c workerID k m;
           y \<leftarrow> remove_workers ctl c (Suc i) n (fst (snd x)) (snd (snd x));
           ret ((case fst x of Some _ \<Rightarrow> 1 | None \<Rightarrow> 0) + fst y, snd y)
         })"

definition scaleUp ::
  "('c, 's) WorkerController \<Rightarrow> ctx \<Rightarrow> ScalingDecision \<Rightarrow> AutoScaler \<Rightarrow> 'c \<Rightarrow> 's Metrics \<Rightarrow>
     ('s, gerr option \<times> AutoScaler \<times> 'c \<times> 's Metrics) io" where
  "scaleUp ctl c decision s k m = do {
     let workersToAdd = wrap32 (sd_DesiredCount decision - sd_CurrentCount decision);
     x \<leftarrow> add_workers ctl c (nat workersToAdd) k m;
     now \<leftarrow> time_Now;
     let s = s\<lparr>s_lastScaleUp := now, s_scaleUpCount := wrap64 (s_scaleUpCount s + 1)\<rparr>;
     ret (if fst x > 0 then Some (Err (''encountered '' @ show_int (int (fst x)) @ '' errors while scaling up'')) else None,
          s, snd x)
   }"

definition scaleDown ::
  "('c, 's) WorkerController \<Rightarrow> ctx \<Rightarrow> ScalingDecision \<Rightarrow> AutoScaler \<Rightarrow> 'c \<Rightarrow> 's Metrics \<Rightarrow>
     ('s, gerr option \<times> AutoScaler \<times> 'c \<times> 's Metrics) io" where
  "scaleDown ctl c decision s k m = do {
     let workersToRemove = wrap32 (sd_CurrentCount decision - sd_DesiredCount decision);
     x \<leftarrow> remove_workers ctl c 0 (nat workersToRemove) k m;
     now \<leftarrow> time_Now;
     let s = s\<lparr>s_lastScaleDown := now, s_scaleDownCount := wrap64 (s_scaleDownCount s + 1), s_consecutiveIdle := 0\<rparr>;
     ret (if fst x > 0 then Some (Err (''encountered '' @ show_int (int (fst x)) @ '' errors while scaling down'')) else None,
          s, snd x)
   }"

definition execute ::
  "('c, 's) WorkerController \<Rightarrow> ctx \<Rightarrow> ScalingDecision \<Rightarrow> AutoScaler \<Rightarrow> 'c \<Rightarrow> 's Metrics \<Rightarrow>
     ('s, gerr option \<times> AutoScaler \<times> 'c \<times> 's Metrics) io" where
  "execute ctl c decision s k m =
     (case sd_Action decision of
        ScaleUp \<Rightarrow> scaleUp ctl c decision s k m
      | ScaleDown \<Rightarrow> scaleDown ctl c decision s k m
      | NoAction \<Rightarrow> ret (None, s, k, m))"

definition evaluate ::
  "rounding \<Rightarrow> ('c, 's) WorkerController \<Rightarrow> ctx \<Rightarrow> AutoScaler \<Rightarrow> 'c \<Rightarrow> 's Metrics \<Rightarrow>
     ('s, gerr option \<times> AutoScaler \<times> 'c \<times> 's Metrics) io" where
  "evaluate rnd ctl c s k m = do {
     u \<leftarrow> UpdateQueueDepth c m;
     (case u of
        (Some e, m) \<Rightarrow> ret (Some (Wrap ''failed to update queue depth'' e), s, k, m)
      | (None, m) \<Rightarrow> do {
          snapshot \<leftarrow> Snapshot rnd m;
          let currentWorkers = ctl_GetWorkerCount ctl k;
          x \<leftarrow> decide s snapshot currentWorkers;
          let s = recordDecision (fst x) (snd x);
          (if sd_Action (fst x) \<noteq> NoAction then execute ctl c (fst x) s k m else ret (None, s, k, m))
        })
   }"

text \<open>The loop \<open>run\<close>: \<open>n\<close> ticks; errors are logged.\<close>

primrec evaluate_n ::
  "nat \<Rightarrow> rounding \<Rightarrow> ('c, 's) WorkerController \<Rightarrow> ctx \<Rightarrow> AutoScaler \<Rightarrow> 'c \<Rightarrow> 's Metrics \<Rightarrow>
     ('s, AutoScaler \<times> 'c \<times> 's Metrics) io" where
  "evaluate_n 0 rnd ctl c s k m = ret (s, k, m)"
| "evaluate_n (Suc n) rnd ctl c s k m = do {
     x \<leftarrow> evaluate rnd ctl c s k m;
     evaluate_n n rnd ctl c (fst (snd x)) (fst (snd (snd x))) (snd (snd (snd x)))
   }"

subsection \<open>Reports\<close>

definition GetDecisionHistory :: "int \<Rightarrow> AutoScaler \<Rightarrow> ScalingDecision list" where
  "GetDecisionHistory limit s =
     (let n = int (length (s_decisions s));
          limit = (if limit \<le> 0 \<or> limit > n then n else limit)
      in drop (nat (n - limit)) (s_decisions s))"

record scaler_stats =
  st_running :: bool
  st_scale_up_count :: int
  st_scale_down_count :: int
  st_last_scale_up :: int
  st_last_scale_down :: int
  st_decisions_count :: int
  st_consecutive_idle :: int

definition Scaler_GetStats :: "AutoScaler \<Rightarrow> scaler_stats" where
  "Scaler_GetStats s =
     \<lparr>st_running = s_running s, st_scale_up_count = s_scaleUpCount s, st_scale_down_count = s_scaleDownCount s,
      st_last_scale_up = s_lastScaleUp s, st_last_scale_down = s_lastScaleDown s,
      st_decisions_count = int (length (s_decisions s)), st_consecutive_idle = s_consecutiveIdle s\<rparr>"

section \<open>Lemmas\<close>

subsection \<open>Targets\<close>

lemma sdiv_nonneg: "0 \<le> (a::int) \<Longrightarrow> 0 < b \<Longrightarrow> a sdiv b = a div b"
  by (simp add: signed_divide_int_def sgn_if)

lemma wrap32_exact: "- 2147483648 \<le> x \<Longrightarrow> x < 2147483648 \<Longrightarrow> wrap32 x = x"
  by (rule wrap32_id) (simp add: in32_def)

lemma scale_up_target:
  assumes "0 \<le> current" and "current < as_MaxWorkers (s_config s)" and "as_MaxWorkers (s_config s) < 2 ^ 30"
  shows "current < calculateScaleUpTarget s snapshot current \<and>
    calculateScaleUpTarget s snapshot current \<le> as_MaxWorkers (s_config s) \<and>
    calculateScaleUpTarget s snapshot current \<le> current + current div 2 + 1"
proof -
  have "wrap32 (current + 1) = current + 1" "wrap32 (as_MaxWorkers (s_config s)) = as_MaxWorkers (s_config s)"
    "wrap32 (current sdiv 2 + 1) = current div 2 + 1" "wrap32 (current + (current div 2 + 1)) = current + current div 2 + 1"
    using assms by (simp_all add: sdiv_nonneg wrap32_exact)
  then show ?thesis
    using assms by (auto simp: calculateScaleUpTarget_def Let_def)
qed

lemma scale_down_target:
  assumes "as_MinWorkers (s_config s) < current" and "0 \<le> as_MinWorkers (s_config s)" and "current < 2 ^ 31"
    and "0 < ms_IdleWorkers snapshot" and "ms_IdleWorkers snapshot < 2 ^ 31"
  shows "as_MinWorkers (s_config s) \<le> calculateScaleDownTarget s snapshot current \<and>
    calculateScaleDownTarget s snapshot current < current \<and>
    current - calculateScaleDownTarget s snapshot current \<le> max 1 (current div 4)"
proof -
  have c: "wrap32 (current - ms_IdleWorkers snapshot) = current - ms_IdleWorkers snapshot"
    "wrap32 (as_MinWorkers (s_config s)) = as_MinWorkers (s_config s)" "current sdiv 4 = current div 4"
    using assms by (simp_all add: sdiv_nonneg wrap32_exact)
  have d: "wrap32 (current - x) = current - x" if "0 \<le> x" "x \<le> current" for x
    using assms that by (simp add: wrap32_exact)
  show ?thesis using assms unfolding calculateScaleDownTarget_def Let_def c by (auto simp: d)
qed

subsection \<open>Effects on the clock\<close>

definition later :: "'s world \<Rightarrow> 's world \<Rightarrow> bool" where
  "later w w' \<longleftrightarrow> w_clock w' = w_clock w \<and> w_tick w \<le> w_tick w'"

lemma later_refl [simp]: "later w w"
  by (simp add: later_def)

lemma later_trans: "later u v \<Longrightarrow> later v w \<Longrightarrow> later u w"
  by (simp add: later_def)

lemma size_loop_later: "run_state (size_loop q c pks n) w = (r, w') \<Longrightarrow> later w w'"
proof (induction pks arbitrary: n w)
  case Nil
  then show ?case by (simp add: run_simps)
next
  case (Cons pk pks)
  let ?v = "w\<lparr>w_db := snd (rq_client q c (LLEN (snd pk)) (w_db w))\<rparr>"
  have "later w ?v" by (simp add: later_def)
  with Cons.prems Cons.IH [of _ ?v] show ?case
    by (auto simp: run_simps intro: later_trans split: sum.splits)
qed

lemma UpdateQueueDepth_cases:
  assumes "run_state (UpdateQueueDepth c m) w = ((e, m'), w')"
  shows "later w w'" and "e \<noteq> None \<and> m' = m \<or> e = None \<and> (\<exists>d n n'. m' = observe_depth d n n' m)"
proof -
  obtain r v where sz: "run_state (Size (m_queue m) c) w = (r, v)" by (cases "run_state (Size (m_queue m) c) w")
  then have "later w v" unfolding Size_def by (rule size_loop_later)
  with assms sz show "later w w'" "e \<noteq> None \<and> m' = m \<or> e = None \<and> (\<exists>d n n'. m' = observe_depth d n n' m)"
    by (auto simp: UpdateQueueDepth_def run_simps later_def split: sum.splits)
qed

lemma Snapshot_facts:
  assumes "run_state (Snapshot rnd m) w = (snap, w')"
  shows "later w w'" and "ms_IdleWorkers snap = m_idleWorkers m"
  using assms
  by (auto simp: Snapshot_def GetWorkerCounts_def GetOldestIdleTime_def run_simps later_def Let_def
      split: prod.splits if_splits)

text \<open>A decision keeps the scaler but for the count of idle checks.\<close>

definition same_scaler :: "AutoScaler \<Rightarrow> AutoScaler \<Rightarrow> bool" where
  "same_scaler s s' \<longleftrightarrow> (\<exists>n. s' = s\<lparr>s_consecutiveIdle := n\<rparr>)"

text \<open>The reading of the clock that a cooldown is checked against.\<close>

definition cooled :: "'s world \<Rightarrow> 's world \<Rightarrow> int \<Rightarrow> int \<Rightarrow> bool" where
  "cooled w w' prev cooldown \<longleftrightarrow>
     (\<exists>t. w_tick w \<le> t \<and> t < w_tick w' \<and> cooldown \<le> time_Sub (w_clock w t) prev)"

lemma same_scaler_refl [simp]: "same_scaler s s"
  unfolding same_scaler_def by (rule exI [of _ "s_consecutiveIdle s"]) simp

lemma same_scaler_update [simp]: "same_scaler s (s\<lparr>s_consecutiveIdle := n\<rparr>)"
  by (auto simp: same_scaler_def)

lemma shouldScaleUp_facts:
  assumes "run_state (shouldScaleUp s snap cur) w = (b, w')"
  shows "later w w'" and "b \<Longrightarrow> cur < wrap32 (as_MaxWorkers (s_config s))"
    and "b \<Longrightarrow> cooled w w' (s_lastScaleUp s) (s_scaleUpCooldown s)"
  using assms
  by (auto simp: shouldScaleUp_def time_Since_def run_simps later_def cooled_def split: if_splits intro!: exI [of _ "w_tick w"])

lemma shouldScaleDown_facts:
  assumes "run_state (shouldScaleDown s snap cur) w = ((b, s'), w')"
  shows "later w w'" and "same_scaler s s'"
    and "b \<Longrightarrow> wrap32 (as_MinWorkers (s_config s)) < cur \<and> ms_IdleWorkers snap \<noteq> 0"
    and "b \<Longrightarrow> cooled w w' (s_lastScaleDown s) (s_scaleDownCooldown s)"
  using assms
  by (auto simp: shouldScaleDown_def time_Since_def run_simps later_def cooled_def Let_def
      split: if_splits intro!: exI [of _ "w_tick w"])

lemma cooled_mono:
  assumes "cooled v v' t d" and "later w v" and "later v' w'"
  shows "cooled w w' t d"
  using assms unfolding cooled_def later_def by (metis order.trans less_le_trans)

lemma decide_facts:
  assumes "run_state (decide s snap cur) w = ((d, s'), w')"
  shows "later w w'" and "same_scaler s s'" and "sd_CurrentCount d = cur"
    and "sd_Action d = NoAction \<Longrightarrow> sd_DesiredCount d = cur"
    and "sd_Action d = ScaleUp \<Longrightarrow> cur < wrap32 (as_MaxWorkers (s_config s)) \<and>
      sd_DesiredCount d = calculateScaleUpTarget s snap cur \<and> cooled w w' (s_lastScaleUp s) (s_scaleUpCooldown s)"
    and "sd_Action d = ScaleDown \<Longrightarrow> wrap32 (as_MinWorkers (s_config s)) < cur \<and> ms_IdleWorkers snap \<noteq> 0 \<and>
      sd_DesiredCount d = calculateScaleDownTarget s snap cur \<and> cooled w w' (s_lastScaleDown s) (s_scaleDownCooldown s)"
proof -
  define w1 where "w1 = w\<lparr>w_tick := Suc (w_tick w)\<rparr>"
  obtain up w2 where up: "run_state (shouldScaleUp s snap cur) w1 = (up, w2)" by (cases "run_state (shouldScaleUp s snap cur) w1")
  obtain down s2 w3 where down: "run_state (shouldScaleDown s snap cur) w2 = ((down, s2), w3)"
    by (cases "run_state (shouldScaleDown s snap cur) w2") (metis prod.exhaust)
  note U = shouldScaleUp_facts [OF up] and D = shouldScaleDown_facts [OF down]
  have 1: "later w w1" by (simp add: later_def w1_def)
  have 2: "later w w2" "later w w3" using 1 U(1) D(1) by (blast intro: later_trans)+
  have target: "calculateScaleDownTarget s2 snap cur = calculateScaleDownTarget s snap cur"
    using D(2) by (auto simp: same_scaler_def calculateScaleDownTarget_def Let_def)
  have run: "(d, s') = (if up then (d, s) else (d, s2)) \<and> w' = (if up then w2 else w3) \<and> sd_CurrentCount d = cur \<and>
    sd_Action d = (if up then ScaleUp else if down then ScaleDown else NoAction) \<and>
    sd_DesiredCount d = (if up then calculateScaleUpTarget s snap cur
      else if down then calculateScaleDownTarget s snap cur else cur)"
    using assms up down target by (auto simp: decide_def run_simps Let_def w1_def [symmetric] split: if_splits)
  from run 2 show "later w w'" by (auto split: if_splits)
  from run D(2) show "same_scaler s s'" by (auto split: if_splits)
  from run show "sd_CurrentCount d = cur" "sd_Action d = NoAction \<Longrightarrow> sd_DesiredCount d = cur"
    by (auto split: if_splits)
  from run U 1 show "sd_Action d = ScaleUp \<Longrightarrow> cur < wrap32 (as_MaxWorkers (s_config s)) \<and>
      sd_DesiredCount d = calculateScaleUpTarget s snap cur \<and> cooled w w' (s_lastScaleUp s) (s_scaleUpCooldown s)"
    by (auto split: if_splits intro: cooled_mono)
  from run D 2 show "sd_Action d = ScaleDown \<Longrightarrow> wrap32 (as_MinWorkers (s_config s)) < cur \<and> ms_IdleWorkers snap \<noteq> 0 \<and>
      sd_DesiredCount d = calculateScaleDownTarget s snap cur \<and> cooled w w' (s_lastScaleDown s) (s_scaleDownCooldown s)"
    by (auto split: if_splits intro: cooled_mono)
qed

text \<open>The time of the last action after an evaluation: as before, or past the cooldown.\<close>

definition spaced :: "'s world \<Rightarrow> int \<Rightarrow> int \<Rightarrow> int \<Rightarrow> bool" where
  "spaced w prev cooldown next \<longleftrightarrow>
     next = prev \<or> (\<exists>t t'. w_tick w \<le> t \<and> t \<le> t' \<and> cooldown \<le> time_Sub (w_clock w t) prev \<and> next = w_clock w t')"

subsection \<open>The contract of a controller\<close>

text \<open>
  Between \<open>lo\<close> and \<open>hi\<close> workers: below \<open>hi\<close> a worker can be added, above \<open>lo\<close> the worker that
  \<open>GetIdleWorker\<close> names can be removed, at the bounds the calls fail without effect. \<open>spare\<close>
  is the number of workers that can still be added over the life of the controller.
\<close>

locale worker_controller =
  fixes ctl :: "('c, 's) WorkerController" and inv :: "'c \<Rightarrow> 's Metrics \<Rightarrow> bool" and lo hi :: int and spare :: "'c \<Rightarrow> nat"
  assumes width: "inv k m \<Longrightarrow> 0 \<le> lo \<and> hi < 2 ^ 31"
    and count_range: "inv k m \<Longrightarrow> lo \<le> ctl_GetWorkerCount ctl k \<and> ctl_GetWorkerCount ctl k \<le> hi"
    and metrics_inv: "inv k m \<Longrightarrow> metrics_ok m"
    and depth_inv: "inv k m \<Longrightarrow> inv k (observe_depth d t t' m)"
    and add_room: "inv k m \<Longrightarrow> ctl_GetWorkerCount ctl k < hi \<Longrightarrow> 0 < spare k \<Longrightarrow>
      \<exists>i k' m' w'. run_state (ctl_AddWorker ctl c k m) w = ((Inr i, k', m'), w') \<and> inv k' m' \<and> later w w' \<and>
        ctl_GetWorkerCount ctl k' = ctl_GetWorkerCount ctl k + 1 \<and> spare k \<le> Suc (spare k')"
    and add_full: "inv k m \<Longrightarrow> ctl_GetWorkerCount ctl k = hi \<Longrightarrow>
      \<exists>e. run_state (ctl_AddWorker ctl c k m) w = ((Inl e, k, m), w)"
    and remove_some: "inv k m \<Longrightarrow> lo < ctl_GetWorkerCount ctl k \<Longrightarrow> ctl_GetIdleWorker ctl n k \<noteq> [] \<Longrightarrow>
      \<exists>k' m' w'. run_state (ctl_RemoveWorker ctl c (ctl_GetIdleWorker ctl n k) k m) w = ((None, k', m'), w') \<and> inv k' m' \<and>
        later w w' \<and> ctl_GetWorkerCount ctl k' = ctl_GetWorkerCount ctl k - 1 \<and> spare k' = spare k"
    and remove_min: "inv k m \<Longrightarrow> ctl_GetWorkerCount ctl k = lo \<Longrightarrow>
      \<exists>e. run_state (ctl_RemoveWorker ctl c i k m) w = ((Some e, k, m), w)"
begin

text \<open>Adding \<open>n\<close> workers stops at \<open>hi\<close>; every worker that could not be added is an error.\<close>

lemma add_workers_count:
  assumes "inv k m" and "n \<le> spare k"
  shows "\<exists>e k' m' w'. run_state (add_workers ctl c n k m) w = ((e, k', m'), w') \<and> inv k' m' \<and> later w w' \<and>
    ctl_GetWorkerCount ctl k' = min (ctl_GetWorkerCount ctl k + int n) hi \<and>
    int e = int n - (ctl_GetWorkerCount ctl k' - ctl_GetWorkerCount ctl k) \<and> spare k \<le> spare k' + n"
  using assms
proof (induction n arbitrary: k m w)
  case 0
  with count_range [OF 0(1)] show ?case by (simp add: run_simps)
next
  case (Suc n)
  show ?case
  proof (cases "ctl_GetWorkerCount ctl k < hi")
    case True
    from add_room [OF Suc.prems(1) True, of c w] Suc.prems(2) obtain i k1 m1 w1
      where add: "run_state (ctl_AddWorker ctl c k m) w = ((Inr i, k1, m1), w1)" "inv k1 m1" "later w w1"
        "ctl_GetWorkerCount ctl k1 = ctl_GetWorkerCount ctl k + 1" "spare k \<le> Suc (spare k1)" by auto
    from Suc.IH [OF add(2), of w1] Suc.prems(2) add obtain e k' m' w'
      where rest: "run_state (add_workers ctl c n k1 m1) w1 = ((e, k', m'), w')" "inv k' m'" "later w1 w'"
        "ctl_GetWorkerCount ctl k' = min (ctl_GetWorkerCount ctl k + 1 + int n) hi"
        "int e = int n - (ctl_GetWorkerCount ctl k' - (ctl_GetWorkerCount ctl k + 1))" "spare k1 \<le> spare k' + n" by auto
    from add rest later_trans [OF add(3) rest(3)] show ?thesis by (auto simp: run_simps)
  next
    case False
    with count_range [OF Suc.prems(1)] have hi: "ctl_GetWorkerCount ctl k = hi" by simp
    from add_full [OF Suc.prems(1) hi] obtain e where add: "run_state (ctl_AddWorker ctl c k m) w = ((Inl e, k, m), w)" by blast
    from Suc.IH [OF Suc.prems(1), of w] Suc.prems(2) hi show ?thesis by (auto simp: run_simps add)
  qed
qed

text \<open>Removing never goes below \<open>lo\<close>.\<close>

lemma remove_workers_count:
  assumes "inv k m" and idle: "A \<longrightarrow> (\<forall>k m j. inv k m \<longrightarrow> ctl_GetIdleWorker ctl j k \<noteq> [])"
  shows "\<exists>e k' m' w'. run_state (remove_workers ctl c i n k m) w = ((e, k', m'), w') \<and> inv k' m' \<and> later w w' \<and>
    ctl_GetWorkerCount ctl k' \<le> ctl_GetWorkerCount ctl k \<and> ctl_GetWorkerCount ctl k - int n \<le> ctl_GetWorkerCount ctl k' \<and>
    spare k' = spare k \<and>
    (A \<longrightarrow> ctl_GetWorkerCount ctl k' = max (ctl_GetWorkerCount ctl k - int n) lo \<and>
       int e = int n - (ctl_GetWorkerCount ctl k - ctl_GetWorkerCount ctl k'))"
  using assms(1)
proof (induction n arbitrary: i k m w)
  case 0
  with count_range [OF 0] show ?case by (simp add: run_simps)
next
  case (Suc n)
  let ?i = "ctl_GetIdleWorker ctl i k"
  show ?case
  proof (cases "?i = []")
    case True
    with Suc.prems idle show ?thesis by (auto simp: run_simps)
  next
    case idle: False
    show ?thesis
    proof (cases "lo < ctl_GetWorkerCount ctl k")
      case True
      from remove_some [OF Suc.prems True idle, of c w] obtain k1 m1 w1
        where rem: "run_state (ctl_RemoveWorker ctl c ?i k m) w = ((None, k1, m1), w1)" "inv k1 m1" "later w w1"
          "ctl_GetWorkerCount ctl k1 = ctl_GetWorkerCount ctl k - 1" "spare k1 = spare k" by auto
      from Suc.IH [OF rem(2), of "Suc i" w1] idle rem later_trans [OF rem(3)] show ?thesis
        by (fastforce simp: run_simps Let_def)
    next
      case False
      with count_range [OF Suc.prems] have lo: "ctl_GetWorkerCount ctl k = lo" by simp
      from remove_min [OF Suc.prems lo] obtain e where rem: "run_state (ctl_RemoveWorker ctl c ?i k m) w = ((Some e, k, m), w)" by blast
      from Suc.IH [OF Suc.prems, of "Suc i" w] idle lo show ?thesis by (auto simp: run_simps rem Let_def)
    qed
  qed
qed

lemma scaleUp_run:
  assumes "inv k m" and "nat (wrap32 (sd_DesiredCount d - sd_CurrentCount d)) \<le> spare k"
  shows "\<exists>e k' m' w' t. run_state (scaleUp ctl c d s k m) w =
      ((e, s\<lparr>s_lastScaleUp := w_clock w t, s_scaleUpCount := wrap64 (s_scaleUpCount s + 1)\<rparr>, k', m'), w') \<and>
    inv k' m' \<and> later w w' \<and> w_tick w \<le> t \<and> spare k \<le> spare k' + 2 ^ 31 \<and>
    (let n = wrap32 (sd_DesiredCount d - sd_CurrentCount d) in
       0 \<le> n \<longrightarrow> ctl_GetWorkerCount ctl k' = min (ctl_GetWorkerCount ctl k + n) hi \<and>
         (e = None \<longleftrightarrow> ctl_GetWorkerCount ctl k + n \<le> hi))"
proof -
  let ?n = "wrap32 (sd_DesiredCount d - sd_CurrentCount d)"
  obtain e k' m' w' where add: "run_state (add_workers ctl c (nat ?n) k m) w = ((e, k', m'), w')"
    and k': "inv k' m'" "later w w'" "ctl_GetWorkerCount ctl k' = min (ctl_GetWorkerCount ctl k + int (nat ?n)) hi"
      "int e = int (nat ?n) - (ctl_GetWorkerCount ctl k' - ctl_GetWorkerCount ctl k)" "spare k \<le> spare k' + nat ?n"
    using add_workers_count [OF assms] by blast
  have "nat ?n \<le> 2 ^ 31" using wrap32_range [of "sd_DesiredCount d - sd_CurrentCount d"] unfolding in32_def by simp linarith
  moreover have "e = 0 \<longleftrightarrow> ctl_GetWorkerCount ctl k + ?n \<le> hi" if "0 \<le> ?n"
    using k'(3,4) that count_range [OF assms(1)] by linarith
  ultimately show ?thesis using add k' by (auto simp: scaleUp_def run_simps Let_def later_def intro!: exI [of _ "w_tick w'"])
qed

lemma scaleDown_run:
  assumes "inv k m" and idle: "A \<longrightarrow> (\<forall>k m j. inv k m \<longrightarrow> ctl_GetIdleWorker ctl j k \<noteq> [])"
  shows "\<exists>e k' m' w' t. run_state (scaleDown ctl c d s k m) w =
      ((e, s\<lparr>s_lastScaleDown := w_clock w t, s_scaleDownCount := wrap64 (s_scaleDownCount s + 1), s_consecutiveIdle := 0\<rparr>, k', m'), w') \<and>
    inv k' m' \<and> later w w' \<and> w_tick w \<le> t \<and> spare k' = spare k \<and> ctl_GetWorkerCount ctl k' \<le> ctl_GetWorkerCount ctl k \<and>
    (let n = wrap32 (sd_CurrentCount d - sd_DesiredCount d) in
       A \<and> 0 \<le> n \<longrightarrow> ctl_GetWorkerCount ctl k' = max (ctl_GetWorkerCount ctl k - n) lo \<and>
         (e = None \<longleftrightarrow> lo \<le> ctl_GetWorkerCount ctl k - n))"
proof -
  let ?n = "wrap32 (sd_CurrentCount d - sd_DesiredCount d)"
  obtain e k' m' w' where rem: "run_state (remove_workers ctl c 0 (nat ?n) k m) w = ((e, k', m'), w')"
    and k': "inv k' m'" "later w w'" "ctl_GetWorkerCount ctl k' \<le> ctl_GetWorkerCount ctl k" "spare k' = spare k"
    and exact: "A \<Longrightarrow> ctl_GetWorkerCount ctl k' = max (ctl_GetWorkerCount ctl k - int (nat ?n)) lo"
      "A \<Longrightarrow> int e = int (nat ?n) - (ctl_GetWorkerCount ctl k - ctl_GetWorkerCount ctl k')"
    using remove_workers_count [OF assms, of c 0 "nat ?n" w] by blast
  have "e = 0 \<longleftrightarrow> lo \<le> ctl_GetWorkerCount ctl k - ?n" if "A" "0 \<le> ?n"
    using exact that count_range [OF assms(1)] by linarith
  with rem k' exact show ?thesis by (auto simp: scaleDown_def run_simps Let_def later_def intro!: exI [of _ "w_tick w'"])
qed

text \<open>An evaluation fails to read the depth, or it decides and carries the decision out.\<close>

lemma evaluate_cases:
  assumes inv: "inv k m"
  obtains (depth) e m' w' where "run_state (evaluate rnd ctl c s k m) w = ((Some e, s, k, m'), w')" "inv k m'" "later w w'"
  | (decided) d s1 snap m1 u v where "run_state (decide s snap (ctl_GetWorkerCount ctl k)) u = ((d, s1), v)"
      "run_state (evaluate rnd ctl c s k m) w = run_state (execute ctl c d (recordDecision d s1) k m1) v"
      "inv k m1" "later w u" "0 \<le> ms_IdleWorkers snap" "ms_IdleWorkers snap < 2 ^ 31"
proof -
  obtain e m1 w1 where upd: "run_state (UpdateQueueDepth c m) w = ((e, m1), w1)"
    by (cases "run_state (UpdateQueueDepth c m) w") (metis prod.exhaust)
  note U = UpdateQueueDepth_cases [OF upd]
  from U(2) inv depth_inv have inv1: "inv k m1" by auto
  show thesis
  proof (cases e)
    case (Some err)
    with upd have "run_state (evaluate rnd ctl c s k m) w = ((Some (Wrap ''failed to update queue depth'' err), s, k, m1), w1)"
      by (simp add: evaluate_def run_simps)
    from depth [OF this inv1 U(1)] show thesis .
  next
    case None
    obtain snap u where snap: "run_state (Snapshot rnd m1) w1 = (snap, u)" by (cases "run_state (Snapshot rnd m1) w1")
    obtain d s1 v where dec: "run_state (decide s snap (ctl_GetWorkerCount ctl k)) u = ((d, s1), v)"
      by (cases "run_state (decide s snap (ctl_GetWorkerCount ctl k)) u") (metis prod.exhaust)
    have "run_state (evaluate rnd ctl c s k m) w = run_state (execute ctl c d (recordDecision d s1) k m1) v"
      using upd None snap dec by (simp add: evaluate_def run_simps execute_def Let_def)
    moreover have "later w u" using U(1) Snapshot_facts(1) [OF snap] by (rule later_trans)
    moreover have "0 \<le> ms_IdleWorkers snap" "ms_IdleWorkers snap < 2 ^ 31"
      using Snapshot_facts(2) [OF snap] metrics_inv [OF inv1] idle_le_active [of m1] by (auto simp: metrics_ok_def)
    ultimately show thesis using decided [OF dec] inv1 by blast
  qed
qed

lemma spare_enough: "2 ^ 31 \<le> spare k \<Longrightarrow> nat (wrap32 x) \<le> spare k"
  using wrap32_range [of x] unfolding in32_def by simp linarith

text \<open>Every evaluation keeps the contract; a cooldown lies between two actions of the same kind.\<close>

lemma evaluate_run:
  assumes inv: "inv k m" and names: "2 ^ 31 \<le> spare k"
  shows "\<exists>e s' k' m' w'. run_state (evaluate rnd ctl c s k m) w = ((e, s', k', m'), w') \<and> inv k' m' \<and> later w w' \<and>
    spare k \<le> spare k' + 2 ^ 31 \<and> s_config s' = s_config s \<and>
    s_scaleUpCooldown s' = s_scaleUpCooldown s \<and> s_scaleDownCooldown s' = s_scaleDownCooldown s \<and>
    spaced w (s_lastScaleUp s) (s_scaleUpCooldown s) (s_lastScaleUp s') \<and>
    spaced w (s_lastScaleDown s) (s_scaleDownCooldown s) (s_lastScaleDown s')"
  using inv
proof (cases rule: evaluate_cases [where rnd = rnd and c = c and s = s and w = w])
  case (depth e m' w')
  then show ?thesis by (auto simp: spaced_def)
next
  case (decided d s1 snap m1 u v)
  note D = decide_facts [OF decided(1)]
  from D(2) obtain n where s1: "s1 = s\<lparr>s_consecutiveIdle := n\<rparr>" by (auto simp: same_scaler_def)
  let ?s = "recordDecision d s1"
  have wv: "later w v" using decided(4) D(1) by (rule later_trans)
  have sp: "spaced w prev cd (w_clock v t)" if "cooled u v prev cd" "w_tick v \<le> t" for prev cd t
    using that decided(4) D(1) unfolding spaced_def cooled_def later_def by (metis order.trans less_imp_le)
  show ?thesis
  proof (cases "sd_Action d")
    case ScaleUp
    from scaleUp_run [OF decided(3) spare_enough [OF names], where d = d and c = c and s = ?s and w = v] ScaleUp decided(2) D(5) wv sp later_trans [OF wv]
    show ?thesis by (fastforce simp: execute_def s1 recordDecision_def spaced_def)
  next
    case ScaleDown
    have "False \<longrightarrow> (\<forall>k m j. inv k m \<longrightarrow> ctl_GetIdleWorker ctl j k \<noteq> [])" by simp
    from scaleDown_run [OF decided(3) this, where c = c and d = d and s = ?s and w = v] ScaleDown decided(2) D(6) wv sp later_trans [OF wv]
    show ?thesis by (fastforce simp: execute_def s1 recordDecision_def spaced_def)
  next
    case NoAction
    with decided wv show ?thesis by (auto simp: execute_def s1 recordDecision_def spaced_def run_simps)
  qed
qed

end

text \<open>A controller that can always name a worker to remove.\<close>

locale eager_controller = worker_controller +
  assumes idle_any: "inv k m \<Longrightarrow> ctl_GetIdleWorker ctl j k \<noteq> []"
begin

text \<open>
  The number of workers after an evaluation is the one decided on; it stays within the
  scaler's own bounds, grows by half at most and shrinks by a quarter at most (but by one).
\<close>

lemma evaluate_exact:
  fixes k :: 'a
  assumes inv: "inv k m" and names: "2 ^ 31 \<le> spare k"
    and cfg: "lo \<le> as_MinWorkers (s_config s)" "as_MinWorkers (s_config s) \<le> as_MaxWorkers (s_config s)"
      "as_MaxWorkers (s_config s) \<le> hi" "as_MaxWorkers (s_config s) < 2 ^ 30"
  shows "\<exists>e s' k' m' w'. run_state (evaluate rnd ctl c s k m) w = ((e, s', k', m'), w') \<and> inv k' m' \<and>
    (e = None \<and> ctl_GetWorkerCount ctl k' = sd_DesiredCount (last (s_decisions s')) \<or> e \<noteq> None \<and> s' = s \<and> k' = k) \<and>
    (let cur = ctl_GetWorkerCount ctl k; new = ctl_GetWorkerCount ctl k'
     in min cur (as_MinWorkers (s_config s)) \<le> new \<and> new \<le> max cur (as_MaxWorkers (s_config s)) \<and>
        new \<le> cur + cur div 2 + 1 \<and> cur - new \<le> max 1 (cur div 4))"
  using inv
proof (cases rule: evaluate_cases [where rnd = rnd and c = c and s = s and w = w])
  case (depth e m' w')
  with width [OF inv] count_range [OF inv] show ?thesis by auto
next
  case (decided d s1 snap m1 u v)
  let ?cur = "ctl_GetWorkerCount ctl k" and ?s = "recordDecision d s1"
  note D = decide_facts [OF decided(1)] and cnt = count_range [OF inv] and width = width [OF inv]
  have last: "last (s_decisions ?s) = d" by (simp add: recordDecision_def push_bounded_last)
  have wr: "wrap32 (as_MaxWorkers (s_config s)) = as_MaxWorkers (s_config s)"
    "wrap32 (as_MinWorkers (s_config s)) = as_MinWorkers (s_config s)"
    using cfg width by (simp_all add: wrap32_exact)
  have step: "wrap32 (x - y) = x - y" if "0 \<le> x" "x < 2 ^ 31" "0 \<le> y" "y < 2 ^ 31" for x y
    using that by (simp add: wrap32_exact)
  show ?thesis
  proof (cases "sd_Action d")
    case ScaleUp
    from D(5) [OF ScaleUp] wr scale_up_target [of ?cur s snap] cnt cfg width have t: "?cur < sd_DesiredCount d"
      "sd_DesiredCount d \<le> as_MaxWorkers (s_config s)" "sd_DesiredCount d \<le> ?cur + ?cur div 2 + 1" by auto
    with step [of "sd_DesiredCount d" ?cur] D(3) cnt width cfg
    have n: "wrap32 (sd_DesiredCount d - sd_CurrentCount d) = sd_DesiredCount d - ?cur" by auto
    obtain e k' m' w' t0 where run: "run_state (scaleUp ctl c d ?s k m1) v =
        ((e, ?s\<lparr>s_lastScaleUp := w_clock v t0, s_scaleUpCount := wrap64 (s_scaleUpCount ?s + 1)\<rparr>, k', m'), w')"
      and k': "inv k' m'" "ctl_GetWorkerCount ctl k' = min (sd_DesiredCount d) hi" "e = None \<longleftrightarrow> sd_DesiredCount d \<le> hi"
      using scaleUp_run [OF decided(3) spare_enough [OF names], where d = d and c = c and s = ?s and w = v] t(1)
      unfolding n Let_def by auto
    from t(2) cfg(3) k' have "e = None" "ctl_GetWorkerCount ctl k' = sd_DesiredCount d" by simp_all
    with t k'(1) run decided(2) ScaleUp last cnt width show ?thesis by (simp add: execute_def Let_def min_le_iff_disj le_max_iff_disj)
  next
    case ScaleDown
    from D(6) [OF ScaleDown] wr scale_down_target [of s ?cur snap] cnt cfg width decided(5,6)
    have t: "as_MinWorkers (s_config s) \<le> sd_DesiredCount d" "sd_DesiredCount d < ?cur"
      "?cur - sd_DesiredCount d \<le> max 1 (?cur div 4)" by auto
    with step [of ?cur "sd_DesiredCount d"] D(3) cnt width cfg
    have n: "wrap32 (sd_CurrentCount d - sd_DesiredCount d) = ?cur - sd_DesiredCount d" by auto
    have idle: "True \<longrightarrow> (\<forall>k m j. inv k m \<longrightarrow> ctl_GetIdleWorker ctl j k \<noteq> [])" using idle_any by blast
    obtain e k' m' w' t0 where run: "run_state (scaleDown ctl c d ?s k m1) v =
        ((e, ?s\<lparr>s_lastScaleDown := w_clock v t0, s_scaleDownCount := wrap64 (s_scaleDownCount ?s + 1), s_consecutiveIdle := 0\<rparr>, k', m'), w')"
      and k': "inv k' m'" "ctl_GetWorkerCount ctl k' = max (sd_DesiredCount d) lo" "e = None \<longleftrightarrow> lo \<le> sd_DesiredCount d"
      using scaleDown_run [OF decided(3) idle, where c = c and d = d and s = ?s and w = v] t(2)
      unfolding n Let_def by auto
    from t(1) cfg(1) k' have "e = None" "ctl_GetWorkerCount ctl k' = sd_DesiredCount d" by simp_all
    moreover have "sd_DesiredCount d \<le> ?cur + ?cur div 2 + 1" using t(2) cnt width by linarith
    ultimately show ?thesis using t k'(1) run decided(2) ScaleDown last cnt width by (simp add: execute_def Let_def min_le_iff_disj le_max_iff_disj)
  next
    case NoAction
    with decided D(4) last width cnt show ?thesis by (auto simp: execute_def run_simps)
  qed
qed

end

end
