(* ===== verification/Spool_Pool.thy ===== *)
theory Spool_Pool
  imports Spool_Lifecycle Spool_Scaler
begin

text \<open>
  \<open>internal/worker/pool.go\<close>: the pool that adds and removes workers. The metrics object, which
  the pool shares with the rest of the program, is threaded through the operations;
  \<open>p_hasMetrics\<close> tells whether the pool was given one. A method that holds the lock is one
  step; \<open>RemoveWorker\<close> gives the lock up while the worker shuts down, so its three parts are
  also available one by one.
\<close>

section \<open>Definitions\<close>

datatype WorkerState = WorkerStateIdle | WorkerStateBusy | WorkerStateShuttingDown

record PoolConfig =
  pc_MinWorkers :: int
  pc_MaxWorkers :: int
  pc_PollInterval :: int
  pc_ShutdownTimeout :: int

text \<open>A worker of the pool: its constant part, its counters and the state of its life cycle.\<close>

record 's PoolWorker =
  pw_worker :: "'s Worker"
  pw_stats :: worker_stats
  pw_life :: life

record 's Pool =
  p_queue :: "'s RedisQueue"
  p_storage :: "'s RedisStorage option"
  p_registry :: Registry
  p_hasMetrics :: bool
  p_workers :: "(string \<times> 's PoolWorker) list"
  p_workerStates :: "(string \<times> WorkerState) list"
  p_nextWorkerID :: int
  p_ctx :: ctx
  p_wg :: int
  p_minWorkers :: int
  p_maxWorkers :: int
  p_pollInterval :: int
  p_shutdownTimeout :: int

definition NewPool :: "'s RedisQueue \<Rightarrow> 's RedisStorage option \<Rightarrow> Registry \<Rightarrow> bool \<Rightarrow> PoolConfig \<Rightarrow> 's Pool" where
  "NewPool q st reg hasMetrics cfg =
     (let cfg = (if pc_MinWorkers cfg < 1 then cfg\<lparr>pc_MinWorkers := 1\<rparr> else cfg);
          cfg = (if pc_MaxWorkers cfg < pc_MinWorkers cfg then cfg\<lparr>pc_MaxWorkers := pc_MinWorkers cfg\<rparr> else cfg);
          cfg = (if pc_PollInterval cfg = 0 then cfg\<lparr>pc_PollInterval := 100 * Millisecond\<rparr> else cfg);
          cfg = (if pc_ShutdownTimeout cfg = 0 then cfg\<lparr>pc_ShutdownTimeout := 30 * Second\<rparr> else cfg)
      in \<lparr>p_queue = q, p_storage = st, p_registry = reg, p_hasMetrics = hasMetrics, p_workers = [],
          p_workerStates = [], p_nextWorkerID = 1, p_ctx = Live, p_wg = 0, p_minWorkers = pc_MinWorkers cfg,
          p_maxWorkers = pc_MaxWorkers cfg, p_pollInterval = pc_PollInterval cfg,
          p_shutdownTimeout = pc_ShutdownTimeout cfg\<rparr>)"

definition worker_id :: "int \<Rightarrow> string" where
  "worker_id n = ''worker-'' @ show_int n"

definition createWorkerWithMetrics :: "string \<Rightarrow> 's Pool \<Rightarrow> ('s, 's PoolWorker) io" where
  "createWorkerWithMetrics workerID p = do {
     x \<leftarrow> NewWorker (p_queue p) (p_storage p) (p_registry p) workerID (p_pollInterval p);
     ret \<lparr>pw_worker = fst x, pw_stats = snd x, pw_life = new_life (wk_id (fst x))\<rparr>
   }"

text \<open>The context argument is not used: workers run under the pool's context.\<close>

definition AddWorker :: "ctx \<Rightarrow> 's Pool \<Rightarrow> 's Metrics \<Rightarrow> ('s, (gerr + string) \<times> 's Pool \<times> 's Metrics) io" where
  "AddWorker c p m =
     (if int (length (p_workers p)) \<ge> p_maxWorkers p
      then ret (Inl (Err (''pool at maximum capacity ('' @ show_int (p_maxWorkers p) @ '' workers)'')), p, m)
      else do {
        let workerID = worker_id (p_nextWorkerID p);
        let p = p\<lparr>p_nextWorkerID := wrap64 (p_nextWorkerID p + 1)\<rparr>;
        worker \<leftarrow> createWorkerWithMetrics workerID p;
        (case Worker_Start (pw_life worker) of
           (Some e, l) \<Rightarrow> ret (Inl (Wrap ''failed to start worker'' e), p, m)
         | (None, l) \<Rightarrow> do {
             let p = p\<lparr>p_workers := AList.update workerID (worker\<lparr>pw_life := l\<rparr>) (p_workers p),
                       p_workerStates := AList.update workerID WorkerStateIdle (p_workerStates p)\<rparr>;
             m \<leftarrow> (if p_hasMetrics p then RegisterWorker workerID m else ret m);
             ret (Inr workerID, p, m)
           })
      })"

definition GetWorkerCount :: "'s Pool \<Rightarrow> int" where
  "GetWorkerCount p = wrap32 (int (length (p_workers p)))"

primrec start_workers :: "nat \<Rightarrow> 's Pool \<Rightarrow> 's Metrics \<Rightarrow> ('s, 's Pool \<times> 's Metrics) io" where
  "start_workers 0 p m = ret (p, m)"
| "start_workers (Suc n) p m = do { x \<leftarrow> AddWorker (p_ctx p) p m; start_workers n (fst (snd x)) (snd (snd x)) }"

definition Pool_Start :: "'s Pool \<Rightarrow> 's Metrics \<Rightarrow> ('s, gerr option \<times> 's Pool \<times> 's Metrics) io" where
  "Pool_Start p m = do {
     x \<leftarrow> start_workers (nat (p_minWorkers p)) p m;
     (if GetWorkerCount (fst x) = 0 then ret (Some (Err ''failed to start any workers''), x) else ret (None, x))
   }"

text \<open>The first part of \<open>RemoveWorker\<close>, under the lock.\<close>

definition RemoveWorker_begin :: "string \<Rightarrow> 's Pool \<Rightarrow> gerr + 's Pool" where
  "RemoveWorker_begin workerID p =
     (if map_of (p_workers p) workerID = None then Inl (Err (''worker '' @ workerID @ '' not found''))
      else if int (length (p_workers p)) \<le> p_minWorkers p
      then Inl (Err (''pool at minimum capacity ('' @ show_int (p_minWorkers p) @ '' workers)''))
      else Inr (p\<lparr>p_workerStates := AList.update workerID WorkerStateShuttingDown (p_workerStates p)\<rparr>))"

text \<open>The worker's \<open>Shutdown\<close> up to its wait for the loop; an error is only logged.\<close>

definition RemoveWorker_shutdown :: "string \<Rightarrow> 's Pool \<Rightarrow> 's Pool" where
  "RemoveWorker_shutdown workerID p =
     (case map_of (p_workers p) workerID of
        None \<Rightarrow> p
      | Some worker \<Rightarrow>
        (let l = (case Stop_lock (pw_life worker) of (Some e, l) \<Rightarrow> l | (None, l) \<Rightarrow> Stop_close l)
         in p\<lparr>p_workers := AList.update workerID (worker\<lparr>pw_life := l\<rparr>) (p_workers p)\<rparr>))"

definition RemoveWorker_finish :: "string \<Rightarrow> 's Pool \<Rightarrow> 's Metrics \<Rightarrow> 's Pool \<times> 's Metrics" where
  "RemoveWorker_finish workerID p m =
     (p\<lparr>p_workers := AList.delete workerID (p_workers p), p_workerStates := AList.delete workerID (p_workerStates p)\<rparr>,
      if p_hasMetrics p then UnregisterWorker workerID m else m)"

text \<open>The whole call, when no other goroutine uses the pool in between.\<close>

definition RemoveWorker :: "ctx \<Rightarrow> string \<Rightarrow> 's Pool \<Rightarrow> 's Metrics \<Rightarrow> gerr option \<times> 's Pool \<times> 's Metrics" where
  "RemoveWorker c workerID p m =
     (case RemoveWorker_begin workerID p of
        Inl e \<Rightarrow> (Some e, p, m)
      | Inr p \<Rightarrow> (None, RemoveWorker_finish workerID (RemoveWorker_shutdown workerID p) m))"

text \<open>
  A \<open>range\<close> loop over a map meets the entries in an order that differs from loop to loop:
  \<open>ord\<close> is the order this loop takes.
\<close>

type_synonym map_order = "(string \<times> WorkerState) list \<Rightarrow> (string \<times> WorkerState) list"

definition GetIdleWorker :: "map_order \<Rightarrow> 's Pool \<Rightarrow> string" where
  "GetIdleWorker ord p =
     (case find (\<lambda>(workerID, st). st = WorkerStateIdle) (ord (p_workerStates p)) of
        Some (workerID, _) \<Rightarrow> workerID
      | None \<Rightarrow> [])"

definition GetWorkerStates :: "map_order \<Rightarrow> 's Pool \<Rightarrow> (string \<times> WorkerState) list" where
  "GetWorkerStates ord p = foldl (\<lambda>states (i, st). AList.update i st states) [] (ord (p_workerStates p))"

text \<open>
  \<open>Shutdown\<close> cancels the pool's context and waits for the wait group or for its own context;
  when both have happened either case may be taken. \<open>None\<close>: the call does not return yet.
\<close>

definition Pool_Shutdown :: "ctx \<Rightarrow> bool \<Rightarrow> 's Pool \<Rightarrow> (gerr option \<times> 's Pool) option" where
  "Pool_Shutdown c done_first p =
     (let p = p\<lparr>p_ctx := Canceled\<rparr>
      in if p_wg p = 0 \<and> (done_first \<or> ctx_Err c = None) then Some (None, p)
         else if ctx_Err c \<noteq> None then Some (ctx_Err c, p)
         else None)"

record pool_stats =
  total_workers :: int
  idle_workers :: int
  busy_workers :: int
  min_workers :: int
  max_workers :: int

definition Pool_GetStats :: "'s Pool \<Rightarrow> pool_stats" where
  "Pool_GetStats p =
     (let (idleCount, busyCount) =
        foldl (\<lambda>(i, b) (_, st). case st of WorkerStateIdle \<Rightarrow> (i + 1, b) | WorkerStateBusy \<Rightarrow> (i, b + 1) | _ \<Rightarrow> (i, b))
          (0, 0) (p_workerStates p)
      in \<lparr>total_workers = int (length (p_workers p)), idle_workers = idleCount, busy_workers = busyCount,
          min_workers = p_minWorkers p, max_workers = p_maxWorkers p\<rparr>)"

text \<open>
  The pool as a \<open>WorkerController\<close>; \<open>ords n\<close> is the order of the loop in the \<open>n\<close>-th call of
  \<open>GetIdleWorker\<close>.
\<close>

definition pool_controller :: "(nat \<Rightarrow> map_order) \<Rightarrow> ('s Pool, 's) WorkerController" where
  "pool_controller ords =
     \<lparr>ctl_GetWorkerCount = GetWorkerCount, ctl_AddWorker = AddWorker,
      ctl_RemoveWorker = (\<lambda>c workerID p m. ret (RemoveWorker c workerID p m)),
      ctl_GetIdleWorker = (\<lambda>n. GetIdleWorker (ords n))\<rparr>"

subsection \<open>Consistency\<close>

text \<open>
  Every worker has a state and an identifier that \<open>AddWorker\<close> made, was started once and has
  not panicked; the pool is never above its maximum; nothing was added to the wait group.
\<close>

definition worker_name :: "int \<Rightarrow> string \<Rightarrow> bool" where
  "worker_name n i \<longleftrightarrow> (\<exists>k. 0 < k \<and> k < n \<and> i = worker_id k)"

definition worker_alive :: "'s PoolWorker \<Rightarrow> bool" where
  "worker_alive pw \<longleftrightarrow> wlife_inv (pw_life pw) \<and> lf_starts (pw_life pw) = 1"

definition pool_ok :: "'s Pool \<Rightarrow> bool" where
  "pool_ok p \<longleftrightarrow>
     gmap_ok (p_workers p) \<and> gmap_ok (p_workerStates p) \<and> gmap_keys (p_workerStates p) = gmap_keys (p_workers p) \<and>
     (\<forall>i \<in> gmap_keys (p_workers p). worker_name (p_nextWorkerID p) i) \<and>
     0 < p_nextWorkerID p \<and> p_nextWorkerID p < 2 ^ 63 \<and>
     (\<forall>pw \<in> snd ` set (p_workers p). worker_alive pw) \<and> p_wg p = 0 \<and>
     1 \<le> p_minWorkers p \<and> p_minWorkers p \<le> p_maxWorkers p \<and> p_maxWorkers p < 2 ^ 31 \<and>
     int (length (p_workers p)) \<le> p_maxWorkers p"

text \<open>The metrics know exactly the pool's workers.\<close>

definition metered :: "'s Pool \<Rightarrow> 's Metrics \<Rightarrow> bool" where
  "metered p m \<longleftrightarrow> metrics_ok m \<and> (p_hasMetrics p \<longrightarrow> gmap_keys (m_workerStartTime m) = gmap_keys (p_workers p))"

text \<open>The states between two calls: no worker is being removed.\<close>

definition pool_quiet :: "'s Pool \<Rightarrow> bool" where
  "pool_quiet p \<longleftrightarrow> pool_ok p \<and> (\<forall>st \<in> snd ` set (p_workerStates p). st = WorkerStateIdle)"

text \<open>How many identifiers are left before the counter would wrap around.\<close>

definition names_left :: "'s Pool \<Rightarrow> nat" where
  "names_left p = nat (2 ^ 63 - 1 - p_nextWorkerID p)"

text \<open>
  The calls on a running pool, one after the other, with the steps its workers and the users of
  the metrics take in between; no worker is started again.
\<close>

inductive pool_step :: "rounding \<Rightarrow> db Pool \<times> db Metrics \<Rightarrow> db Pool \<times> db Metrics \<Rightarrow> bool" for rnd where
  ps_add: "0 < names_left p \<Longrightarrow> run_state (AddWorker c p m) w = ((r, p', m'), w') \<Longrightarrow> pool_step rnd (p, m) (p', m')"
| ps_remove: "RemoveWorker c i p m = (e, p', m') \<Longrightarrow> pool_step rnd (p, m) (p', m')"
| ps_shutdown: "Pool_Shutdown c b p = Some (e, p') \<Longrightarrow> pool_step rnd (p, m) (p', m)"
| ps_worker: "\<lbrakk>map_of (p_workers p) i = Some pw; wlife_step (pw_life pw) l; lf_starts l = lf_starts (pw_life pw)\<rbrakk> \<Longrightarrow>
    pool_step rnd (p, m) (p\<lparr>p_workers := AList.update i (pw\<lparr>pw_life := l, pw_stats := st\<rparr>) (p_workers p)\<rparr>, m)"
| ps_metrics: "\<lbrakk>metrics_step rnd m m'; gmap_keys (m_workerStartTime m') = gmap_keys (m_workerStartTime m)\<rbrakk> \<Longrightarrow>
    pool_step rnd (p, m) (p, m')"

text \<open>A pool that has been started.\<close>

inductive pool_init :: "db Pool \<times> db Metrics \<Rightarrow> bool" where
  "\<lbrakk>pc_MinWorkers cfg < 2 ^ 31; pc_MaxWorkers cfg < 2 ^ 31; metrics_ok m; m_workerStartTime m = [];
    run_state (Pool_Start (NewPool q st reg b cfg) m) w = ((e, p', m'), w')\<rbrakk> \<Longrightarrow> pool_init (p', m')"

definition pool_inv :: "'s Pool \<times> 's Metrics \<Rightarrow> bool" where
  "pool_inv x = (case x of (p, m) \<Rightarrow> pool_quiet p \<and> metered p m \<and> p_minWorkers p \<le> int (length (p_workers p)))"

definition order_ok :: "map_order \<Rightarrow> bool" where
  "order_ok ord \<longleftrightarrow> (\<forall>xs. set (ord xs) = set xs)"

section \<open>Lemmas\<close>

lemma NewPool_ok:
  assumes "pc_MinWorkers cfg < 2 ^ 31" and "pc_MaxWorkers cfg < 2 ^ 31"
  shows "pool_quiet (NewPool q st reg b cfg)"
  using assms by (auto simp: NewPool_def Let_def pool_quiet_def pool_ok_def)

lemma worker_id_inject [simp]: "worker_id m = worker_id n \<longleftrightarrow> m = n"
  by (simp add: worker_id_def)

lemma worker_id_nonempty [simp]: "worker_id n \<noteq> []"
  by (simp add: worker_id_def)

lemma fresh_name:
  assumes "pool_ok p"
  shows "worker_id (p_nextWorkerID p) \<notin> gmap_keys (p_workers p)"
  using assms by (auto simp: pool_ok_def worker_name_def)

lemma new_worker_alive: "worker_alive (pw\<lparr>pw_life := snd (Worker_Start (new_life i))\<rparr>)"
  by (simp add: worker_alive_def wlife_inv_def Worker_Start_def new_life_def life_ops)

lemma Worker_Start_new: "Worker_Start (new_life i) = (None, snd (Worker_Start (new_life i)))"
  by (simp add: Worker_Start_def Start_lock_def new_life_def)

lemma worker_name_mono: "worker_name n i \<Longrightarrow> n \<le> k \<Longrightarrow> worker_name k i"
  by (force simp: worker_name_def)

definition added :: "'s PoolWorker \<Rightarrow> 's Pool \<Rightarrow> 's Pool" where
  "added pw p = p\<lparr>p_nextWorkerID := p_nextWorkerID p + 1,
     p_workers := AList.update (worker_id (p_nextWorkerID p)) pw (p_workers p),
     p_workerStates := AList.update (worker_id (p_nextWorkerID p)) WorkerStateIdle (p_workerStates p)\<rparr>"

lemma added_ok:
  assumes ok: "pool_ok p" and room: "int (length (p_workers p)) < p_maxWorkers p" "0 < names_left p"
    and pw: "worker_alive pw"
  shows "pool_ok (added pw p)" and "length (p_workers (added pw p)) = Suc (length (p_workers p))"
    and "names_left p \<le> Suc (names_left (added pw p))"
    and "pool_quiet p \<Longrightarrow> pool_quiet (added pw p)"
proof -
  let ?i = "worker_id (p_nextWorkerID p)"
  have new: "?i \<notin> gmap_keys (p_workers p)" "worker_name (p_nextWorkerID p + 1) ?i"
    using fresh_name [OF ok] ok by (auto simp: worker_name_def pool_ok_def)
  then show len: "length (p_workers (added pw p)) = Suc (length (p_workers p))"
    using ok by (simp add: added_def gmap_length_ops pool_ok_def)
  have "\<forall>v \<in> snd ` set (p_workers (added pw p)). worker_alive v"
    using gmap_all_update [of "p_workers p" worker_alive pw ?i] ok pw by (simp add: added_def pool_ok_def)
  with ok new room len show "pool_ok (added pw p)"
    by (auto simp: pool_ok_def added_def names_left_def intro: worker_name_mono)
  then show "pool_quiet (added pw p)" if "pool_quiet p"
    using gmap_all_update [OF conjunct2 [OF that [unfolded pool_quiet_def]] refl, of ?i]
    unfolding pool_quiet_def added_def by simp
  show "names_left p \<le> Suc (names_left (added pw p))" by (simp add: names_left_def added_def)
qed

text \<open>The operations by cases.\<close>

lemma run_createWorker [run_simps]:
  "run_state (createWorkerWithMetrics (worker_id n) p) w =
     (\<lparr>pw_worker = \<lparr>wk_id = worker_id n, wk_queue = p_queue p, wk_storage = p_storage p, wk_registry = p_registry p,
         wk_pollFreq = (if p_pollInterval p = 0 then 100 * Millisecond else p_pollInterval p)\<rparr>,
       pw_stats = \<lparr>tasksProcessed = 0, tasksFailed = 0, tasksRetried = 0\<rparr>, pw_life = new_life (worker_id n)\<rparr>, w)"
  by (simp add: createWorkerWithMetrics_def NewWorker_def run_simps)

lemma AddWorker_full:
  "p_maxWorkers p \<le> int (length (p_workers p)) \<Longrightarrow>
     \<exists>e. run_state (AddWorker c p m) w = ((Inl e, p, m), w)"
  by (simp add: AddWorker_def run_simps)

lemma AddWorker_room:
  assumes "pool_ok p" and "int (length (p_workers p)) < p_maxWorkers p" and "0 < names_left p"
  obtains pw m' w' where "run_state (AddWorker c p m) w = ((Inr (worker_id (p_nextWorkerID p)), added pw p, m'), w')"
    and "worker_alive pw"
    and "if p_hasMetrics p then run_state (RegisterWorker (worker_id (p_nextWorkerID p)) m) w = (m', w') else m' = m"
proof -
  let ?i = "worker_id (p_nextWorkerID p)"
  define pw where "pw = (fst (run_state (createWorkerWithMetrics ?i p) w))\<lparr>pw_life := snd (Worker_Start (new_life ?i))\<rparr>"
  define r where "r = (if p_hasMetrics p then run_state (RegisterWorker ?i m) w else (m, w))"
  have "wrap64 (p_nextWorkerID p + 1) = p_nextWorkerID p + 1"
    using assms(1,3) by (intro wrap64_id) (auto simp: in64_def names_left_def pool_ok_def)
  moreover have "Worker_Start (new_life ?i) = (None, snd (Worker_Start (new_life ?i)))" by (rule Worker_Start_new)
  ultimately have "run_state (AddWorker c p m) w = ((Inr ?i, added pw p, fst r), snd r)"
    using assms(2)
    by (cases "Worker_Start (new_life ?i)") (auto simp: AddWorker_def run_simps added_def pw_def r_def Let_def split: prod.splits)
  moreover have "worker_alive pw" unfolding pw_def by (rule new_worker_alive)
  moreover have "if p_hasMetrics p then run_state (RegisterWorker ?i m) w = (fst r, snd r) else fst r = m"
    by (simp add: r_def)
  ultimately show ?thesis by (rule that)
qed

definition removed :: "string \<Rightarrow> 's Pool \<Rightarrow> 's Pool" where
  "removed i p = p\<lparr>p_workers := AList.delete i (p_workers p), p_workerStates := AList.delete i (p_workerStates p)\<rparr>"

lemma RemoveWorker_refused:
  "i \<notin> gmap_keys (p_workers p) \<or> int (length (p_workers p)) \<le> p_minWorkers p \<Longrightarrow>
     \<exists>e. RemoveWorker c i p m = (Some e, p, m)"
  by (auto simp: RemoveWorker_def RemoveWorker_begin_def gmap_lookup)

lemma RemoveWorker_done:
  assumes "i \<in> gmap_keys (p_workers p)" and "p_minWorkers p < int (length (p_workers p))"
  shows "RemoveWorker c i p m = (None, removed i p, if p_hasMetrics p then UnregisterWorker i m else m)"
  using assms gmap_lookup [of "p_workers p" i]
  by (auto simp: RemoveWorker_def RemoveWorker_begin_def RemoveWorker_shutdown_def RemoveWorker_finish_def removed_def
      AList.delete_update_same Let_def split: option.splits)

lemma removed_ok:
  assumes ok: "pool_ok p" and i: "i \<in> gmap_keys (p_workers p)"
  shows "pool_ok (removed i p)" and "int (length (p_workers (removed i p))) = int (length (p_workers p)) - 1"
    and "pool_quiet p \<Longrightarrow> pool_quiet (removed i p)" and "names_left (removed i p) = names_left p"
proof -
  from ok i gmap_pred [OF i] show len: "int (length (p_workers (removed i p))) = int (length (p_workers p)) - 1"
    by (simp add: removed_def gmap_length_ops pool_ok_def)
  have "\<forall>v \<in> snd ` set (p_workers (removed i p)). worker_alive v"
    using gmap_all_delete [of "p_workers p" worker_alive i] ok by (simp add: removed_def pool_ok_def)
  with ok len show "pool_ok (removed i p)" by (auto simp: pool_ok_def removed_def)
  then show "pool_quiet (removed i p)" if "pool_quiet p"
    using gmap_all_delete [OF conjunct2 [OF that [unfolded pool_quiet_def]], of i]
    unfolding pool_quiet_def removed_def by simp
  show "names_left (removed i p) = names_left p" by (simp add: names_left_def removed_def)
qed

text \<open>The metrics follow the pool.\<close>

lemma RegisterWorker_keys:
  "run_state (RegisterWorker i m) w = (m', w') \<Longrightarrow>
     gmap_keys (m_workerStartTime m') = insert i (gmap_keys (m_workerStartTime m))"
  by (auto simp: RegisterWorker_def run_simps Let_def)

lemma UnregisterWorker_keys:
  "gmap_keys (m_workerStartTime (UnregisterWorker i m)) = gmap_keys (m_workerStartTime m) - {i}"
  by (simp add: UnregisterWorker_def Let_def)

lemma metered_count:
  assumes "pool_ok p" and "metered p m" and "p_hasMetrics p"
  shows "length (m_workerStartTime m) = length (p_workers p)" and "m_activeWorkers m = GetWorkerCount p"
proof -
  show len: "length (m_workerStartTime m) = length (p_workers p)"
    using assms by (simp add: metered_def metrics_ok_def pool_ok_def gmap_card)
  have "GetWorkerCount p = int (length (p_workers p))"
    using assms(1) unfolding GetWorkerCount_def by (intro wrap32_small) (auto simp: pool_ok_def)
  with len assms(2) show "m_activeWorkers m = GetWorkerCount p" by (simp add: metered_def metrics_ok_def)
qed

lemma AddWorker_metered:
  assumes ok: "pool_ok p" and m: "metered p m" and room: "int (length (p_workers p)) < p_maxWorkers p"
    and reg: "if p_hasMetrics p then run_state (RegisterWorker (worker_id (p_nextWorkerID p)) m) w = (m', w') else m' = m"
  shows "metered (added pw p) m'"
proof (cases "p_hasMetrics p")
  case True
  with reg have run: "run_state (RegisterWorker (worker_id (p_nextWorkerID p)) m) w = (m', w')" by simp
  from m True fresh_name [OF ok] have "\<not> registered (worker_id (p_nextWorkerID p)) m" by (simp add: metered_def)
  moreover have "length (m_workerStartTime m) + 1 < 2 ^ 31"
    using metered_count(1) [OF ok m True] room ok by (simp add: pool_ok_def)
  moreover from m have "metrics_ok m" by (simp add: metered_def)
  ultimately have "metrics_ok m'" using run by (blast intro: RegisterWorker_ok)
  with RegisterWorker_keys [OF run] m True show ?thesis by (simp add: metered_def added_def)
next
  case False
  with reg m show ?thesis by (simp add: metered_def added_def)
qed

lemma removed_metered:
  assumes "pool_ok p" and "metered p m" and "i \<in> gmap_keys (p_workers p)"
  shows "metered (removed i p) (if p_hasMetrics p then UnregisterWorker i m else m)"
  using assms UnregisterWorker_ok [of m i] by (auto simp: metered_def removed_def UnregisterWorker_keys)

lemma start_workers_adds:
  assumes "pool_quiet p" and "metered p m" and "int (length (p_workers p)) + int n \<le> p_maxWorkers p"
    and "n \<le> names_left p"
  shows "\<exists>p' m' w'. run_state (start_workers n p m) w = ((p', m'), w') \<and> pool_quiet p' \<and> metered p' m' \<and>
    length (p_workers p') = length (p_workers p) + n \<and> p_minWorkers p' = p_minWorkers p \<and>
    p_maxWorkers p' = p_maxWorkers p \<and> p_hasMetrics p' = p_hasMetrics p \<and> names_left p \<le> names_left p' + n"
  using assms
proof (induction n arbitrary: p m w)
  case 0
  then show ?case by (simp add: run_simps)
next
  case (Suc n)
  from Suc.prems have ok: "pool_ok p" and room: "int (length (p_workers p)) < p_maxWorkers p" "0 < names_left p"
    by (simp_all add: pool_quiet_def)
  obtain pw m' w' where add: "run_state (AddWorker (p_ctx p) p m) w = ((Inr (worker_id (p_nextWorkerID p)), added pw p, m'), w')"
    and pw: "worker_alive pw"
    and reg: "if p_hasMetrics p then run_state (RegisterWorker (worker_id (p_nextWorkerID p)) m) w = (m', w') else m' = m"
    by (rule AddWorker_room [OF ok room])
  note added = added_ok [OF ok room pw]
  from added(2,3) Suc.prems(3,4) have "int (length (p_workers (added pw p))) + int n \<le> p_maxWorkers (added pw p)"
    "n \<le> names_left (added pw p)" by (simp_all add: added_def)
  from Suc.IH [OF added(4) [OF Suc.prems(1)] AddWorker_metered [OF ok Suc.prems(2) room(1) reg] this, of w'] added(2,3) add
  show ?case by (fastforce simp: run_simps added_def)
qed

lemma GetWorkerCount_exact: "pool_ok p \<Longrightarrow> GetWorkerCount p = int (length (p_workers p))"
  unfolding GetWorkerCount_def by (intro wrap32_small) (auto simp: pool_ok_def)

lemma Pool_Start_inv:
  assumes "pool_quiet p" and "metered p m" and "p_workers p = []" and "p_minWorkers p \<le> int (names_left p)"
  shows "\<exists>p' m' w'. run_state (Pool_Start p m) w = ((None, p', m'), w') \<and> pool_inv (p', m') \<and>
    int (length (p_workers p')) = p_minWorkers p' \<and> p_minWorkers p' = p_minWorkers p \<and> p_maxWorkers p' = p_maxWorkers p \<and>
    p_hasMetrics p' = p_hasMetrics p \<and> names_left p \<le> names_left p' + nat (p_minWorkers p)"
proof -
  from assms have min: "1 \<le> p_minWorkers p" "p_minWorkers p \<le> p_maxWorkers p" by (simp_all add: pool_quiet_def pool_ok_def)
  from assms(4) min(1) have "nat (p_minWorkers p) \<le> names_left p" by linarith
  with assms min obtain p' m' w' where run: "run_state (start_workers (nat (p_minWorkers p)) p m) w = ((p', m'), w')"
    and p': "pool_quiet p'" "metered p' m'" "length (p_workers p') = nat (p_minWorkers p)" "p_minWorkers p' = p_minWorkers p"
      "p_maxWorkers p' = p_maxWorkers p" "p_hasMetrics p' = p_hasMetrics p"
      "names_left p \<le> names_left p' + nat (p_minWorkers p)"
    using start_workers_adds [of p m "nat (p_minWorkers p)" w] by auto
  from p' min have "GetWorkerCount p' \<noteq> 0" by (simp add: GetWorkerCount_exact pool_quiet_def)
  with run p' min show ?thesis by (simp add: Pool_Start_def run_simps pool_inv_def)
qed

lemma NewPool_names: "names_left (NewPool q st reg b cfg) = 2 ^ 63 - 2"
  by (simp add: names_left_def NewPool_def Let_def)

lemma pool_init_inv: "pool_init x \<Longrightarrow> pool_inv x"
proof (induction rule: pool_init.induct)
  case (1 cfg m q st reg b w e p' m' w')
  let ?p = "NewPool q st reg b cfg"
  have quiet: "pool_quiet ?p" by (rule NewPool_ok [OF 1(1,2)])
  moreover have "metered ?p m" using 1(3,4) by (simp add: metered_def NewPool_def Let_def)
  moreover have "p_workers ?p = []" by (simp add: NewPool_def Let_def)
  moreover have "p_minWorkers ?p \<le> int (names_left ?p)"
    using quiet by (simp add: NewPool_names pool_quiet_def pool_ok_def)
  ultimately show ?case using Pool_Start_inv [of ?p m w] 1(5) by auto
qed

lemma quiet_same_workers:
  assumes "pool_quiet p" and "map_of (p_workers p) i = Some pw" and "worker_alive pw'"
  shows "pool_quiet (p\<lparr>p_workers := AList.update i pw' (p_workers p)\<rparr>)"
proof -
  have i: "insert i (gmap_keys (p_workers p)) = gmap_keys (p_workers p)" "i \<in> gmap_keys (p_workers p)"
    using gmap_lookup_Some [OF assms(2)] by auto
  from assms(1) have ok: "pool_ok p" by (simp add: pool_quiet_def)
  then have "\<forall>v \<in> snd ` set (AList.update i pw' (p_workers p)). worker_alive v"
    using assms(3) by (intro gmap_all_update) (simp_all add: pool_ok_def)
  with ok i have "pool_ok (p\<lparr>p_workers := AList.update i pw' (p_workers p)\<rparr>)"
    unfolding pool_ok_def by (simp add: gmap_length_ops)
  with assms(1) show ?thesis unfolding pool_quiet_def by simp
qed

lemma pool_step_inv:
  assumes inv: "pool_inv x" and step: "pool_step rnd x y"
  shows "pool_inv y"
  using step
proof cases
  case (ps_add p c m w r p' m' w')
  from inv ps_add(1) have ok: "pool_ok p" "pool_quiet p" "metered p m" by (simp_all add: pool_inv_def pool_quiet_def)
  show ?thesis
  proof (cases "int (length (p_workers p)) < p_maxWorkers p")
    case True
    obtain pw m1 w1 where add: "run_state (AddWorker c p m) w = ((Inr (worker_id (p_nextWorkerID p)), added pw p, m1), w1)"
      and pw: "worker_alive pw"
      and reg: "if p_hasMetrics p then run_state (RegisterWorker (worker_id (p_nextWorkerID p)) m) w = (m1, w1) else m1 = m"
      by (rule AddWorker_room [OF ok(1) True ps_add(3)])
    from added_ok(2,4) [OF ok(1) True ps_add(3) pw] ok AddWorker_metered [OF ok(1,3) True reg] add ps_add inv
    show ?thesis by (auto simp: pool_inv_def added_def)
  next
    case False
    with AddWorker_full [of p c m w] ps_add inv show ?thesis by auto
  qed
next
  case (ps_remove c i p m e p' m')
  from inv ps_remove(1) have ok: "pool_ok p" "pool_quiet p" "metered p m" by (simp_all add: pool_inv_def pool_quiet_def)
  show ?thesis
  proof (cases "i \<in> gmap_keys (p_workers p) \<and> p_minWorkers p < int (length (p_workers p))")
    case True
    with RemoveWorker_done [of i p c m] removed_ok [OF ok(1), of i] removed_metered [OF ok(1,3), of i] ok(2) ps_remove
    show ?thesis by (auto simp: pool_inv_def removed_def)
  next
    case False
    with RemoveWorker_refused [of i p c m] ps_remove inv show ?thesis by auto
  qed
next
  case (ps_shutdown c b p e p' m)
  with inv show ?thesis
    by (auto simp: Pool_Shutdown_def pool_inv_def pool_quiet_def pool_ok_def metered_def Let_def split: if_splits)
next
  case (ps_worker p i pw l m st)
  from inv ps_worker have quiet: "pool_quiet p" by (simp add: pool_inv_def)
  then have "worker_alive pw"
    using gmap_all_lookup [OF _ ps_worker(3), of worker_alive] by (simp add: pool_quiet_def pool_ok_def)
  with wlife_step_inv [OF _ ps_worker(4)] ps_worker(5) have "worker_alive (pw\<lparr>pw_life := l, pw_stats := st\<rparr>)"
    by (simp add: worker_alive_def)
  note quiet' = quiet_same_workers [OF quiet ps_worker(3) this]
  have "insert i (gmap_keys (p_workers p)) = gmap_keys (p_workers p)" "i \<in> gmap_keys (p_workers p)"
    "gmap_ok (p_workers p)"
    using gmap_lookup_Some [OF ps_worker(3)] quiet by (auto simp: pool_quiet_def pool_ok_def)
  with inv ps_worker(1,2) quiet' show ?thesis by (simp add: pool_inv_def metered_def gmap_length_ops)
next
  case (ps_metrics m m' p)
  with inv metrics_step_ok [of m rnd m'] show ?thesis by (auto simp: pool_inv_def metered_def)
qed

interpretation pl: inductive_invariant pool_init "pool_step rnd" pool_inv for rnd
  by unfold_locales (erule pool_init_inv, erule (1) pool_step_inv)

subsection \<open>The pool keeps the contract of a controller\<close>

lemma GetIdleWorker_quiet:
  assumes "pool_quiet p" and "p_workers p \<noteq> []" and "order_ok ord"
  shows "GetIdleWorker ord p \<in> gmap_keys (p_workers p)"
proof -
  from assms(1) have keys: "gmap_keys (p_workerStates p) = gmap_keys (p_workers p)"
    and idle: "\<forall>x \<in> set (p_workerStates p). snd x = WorkerStateIdle" by (auto simp: pool_quiet_def pool_ok_def)
  from assms(2) keys have "p_workerStates p \<noteq> []" by (auto simp: gmap_keys_def)
  with assms(3) have "ord (p_workerStates p) \<noteq> []" by (metis order_ok_def set_empty)
  then obtain i st xs where x: "ord (p_workerStates p) = (i, st) # xs" by (metis neq_Nil_conv surj_pair)
  then have mem: "(i, st) \<in> set (p_workerStates p)" using assms(3) by (metis order_ok_def list.set_intros(1))
  with idle x have "GetIdleWorker ord p = i" by (force simp: GetIdleWorker_def)
  with mem keys show ?thesis by (force simp: gmap_keys_def)
qed

lemma worker_name_nonempty: "pool_ok p \<Longrightarrow> i \<in> gmap_keys (p_workers p) \<Longrightarrow> i \<noteq> []"
  unfolding pool_ok_def worker_name_def using worker_id_nonempty by metis

definition controlled :: "(nat \<Rightarrow> map_order) \<Rightarrow> int \<Rightarrow> int \<Rightarrow> 's Pool \<Rightarrow> 's Metrics \<Rightarrow> bool" where
  "controlled ords lo hi p m \<longleftrightarrow>
     pool_inv (p, m) \<and> p_minWorkers p = lo \<and> p_maxWorkers p = hi \<and> (\<forall>n. order_ok (ords n))"

lemma controlledD:
  assumes "controlled ords lo hi p m"
  shows "pool_ok p" and "pool_quiet p" and "metered p m" and "lo \<le> GetWorkerCount p" and "GetWorkerCount p \<le> hi"
    and "GetWorkerCount p = int (length (p_workers p))" and "GetIdleWorker (ords n) p \<in> gmap_keys (p_workers p)"
proof -
  from assms show p: "pool_ok p" "pool_quiet p" "metered p m"
    by (simp_all add: controlled_def pool_inv_def pool_quiet_def)
  from GetWorkerCount_exact [OF p(1)] show len: "GetWorkerCount p = int (length (p_workers p))" .
  with assms p show "lo \<le> GetWorkerCount p" "GetWorkerCount p \<le> hi"
    by (simp_all add: controlled_def pool_inv_def pool_ok_def)
  then have "p_workers p \<noteq> []" using assms p(1) len by (auto simp: controlled_def pool_ok_def)
  with assms show "GetIdleWorker (ords n) p \<in> gmap_keys (p_workers p)"
    by (intro GetIdleWorker_quiet [OF p(2)]) (simp_all add: controlled_def)
qed

lemma AddWorker_later: "run_state (AddWorker c p m) w = (r, w') \<Longrightarrow> later w w'"
  by (auto simp: AddWorker_def run_simps Let_def RegisterWorker_def Worker_Start_def later_def
      split: if_splits option.splits prod.splits)

lemma controlled_added:
  assumes c: "controlled ords lo hi p m" and room: "GetWorkerCount p < hi" and names: "0 < names_left p"
  shows "\<exists>i p' m' w'. run_state (AddWorker cx p m) w = ((Inr i, p', m'), w') \<and> controlled ords lo hi p' m' \<and> later w w' \<and>
    GetWorkerCount p' = GetWorkerCount p + 1 \<and> names_left p \<le> Suc (names_left p')"
proof -
  note C = controlledD [OF c]
  from c have hi: "p_maxWorkers p = hi" by (simp add: controlled_def)
  with room C(6) have full: "int (length (p_workers p)) < p_maxWorkers p" by simp
  obtain pw m1 w1 where add: "run_state (AddWorker cx p m) w = ((Inr (worker_id (p_nextWorkerID p)), added pw p, m1), w1)"
    and pw: "worker_alive pw"
    and reg: "if p_hasMetrics p then run_state (RegisterWorker (worker_id (p_nextWorkerID p)) m) w = (m1, w1) else m1 = m"
    by (rule AddWorker_room [OF C(1) full names])
  note A = added_ok [OF C(1) full names pw]
  have "controlled ords lo hi (added pw p) m1"
    using c A(2) A(4) [OF C(2)] AddWorker_metered [OF C(1,3) full reg]
    by (simp add: controlled_def pool_inv_def added_def)
  moreover have "GetWorkerCount (added pw p) = GetWorkerCount p + 1"
    using GetWorkerCount_exact [OF A(1)] A(2) C(6) by simp
  moreover have "later w w1" using add by (rule AddWorker_later)
  ultimately show ?thesis using add A(3) by blast
qed

lemma controlled_removed:
  assumes c: "controlled ords lo hi p m" and more: "lo < GetWorkerCount p"
  shows "\<exists>p' m'. RemoveWorker cx (GetIdleWorker (ords n) p) p m = (None, p', m') \<and> controlled ords lo hi p' m' \<and>
    GetWorkerCount p' = GetWorkerCount p - 1 \<and> names_left p' = names_left p"
proof -
  let ?i = "GetIdleWorker (ords n) p"
  note C = controlledD [OF c] and i = controlledD(7) [OF c, of n]
  from c more C(6) have min: "p_minWorkers p < int (length (p_workers p))" by (simp add: controlled_def)
  note R = removed_ok [OF C(1) i]
  have "controlled ords lo hi (removed ?i p) (if p_hasMetrics p then UnregisterWorker ?i m else m)"
    using c R(2) R(3) [OF C(2)] removed_metered [OF C(1,3) i] min
    by (simp add: controlled_def pool_inv_def removed_def)
  moreover have "GetWorkerCount (removed ?i p) = GetWorkerCount p - 1"
    using GetWorkerCount_exact [OF R(1)] R(2) C(6) by simp
  ultimately show ?thesis using RemoveWorker_done [OF i min] R(4) by blast
qed

lemma controlled_depth: "controlled ords lo hi p m \<Longrightarrow> controlled ords lo hi p (observe_depth d t t' m)"
  by (auto simp: controlled_def pool_inv_def metered_def metrics_ok_def observe_depth_frame push_bounded_length)

lemma controlled_full:
  assumes "controlled ords lo hi p m"
  shows "GetWorkerCount p = hi \<Longrightarrow> \<exists>e. run_state (AddWorker cx p m) w = ((Inl e, p, m), w)"
    and "GetWorkerCount p = lo \<Longrightarrow> \<exists>e. RemoveWorker cx i p m = (Some e, p, m)"
  using assms controlledD(6) [OF assms] AddWorker_full [of p cx m w] RemoveWorker_refused [of i p cx m]
  by (auto simp: controlled_def)

interpretation pc: eager_controller "pool_controller ords" "controlled ords lo hi" lo hi names_left for ords lo hi
proof unfold_locales
  fix k :: "'a Pool" and m :: "'a Metrics" and c w n i d t t'
  assume inv: "controlled ords lo hi k m"
  note C = controlledD [OF inv]
  show "0 \<le> lo \<and> hi < 2 ^ 31" using inv C(1) by (auto simp: controlled_def pool_ok_def)
  show "lo \<le> ctl_GetWorkerCount (pool_controller ords) k \<and> ctl_GetWorkerCount (pool_controller ords) k \<le> hi"
    using C by (simp add: pool_controller_def)
  show "metrics_ok m" using C(3) by (simp add: metered_def)
  show "controlled ords lo hi k (observe_depth d t t' m)" by (rule controlled_depth [OF inv])
  show "\<exists>i k' m' w'. run_state (ctl_AddWorker (pool_controller ords) c k m) w = ((Inr i, k', m'), w') \<and>
      controlled ords lo hi k' m' \<and> later w w' \<and>
      ctl_GetWorkerCount (pool_controller ords) k' = ctl_GetWorkerCount (pool_controller ords) k + 1 \<and>
      names_left k \<le> Suc (names_left k')"
    if "ctl_GetWorkerCount (pool_controller ords) k < hi" "0 < names_left k"
    using controlled_added [OF inv, of c w] that by (simp add: pool_controller_def)
  show "\<exists>e. run_state (ctl_AddWorker (pool_controller ords) c k m) w = ((Inl e, k, m), w)"
    if "ctl_GetWorkerCount (pool_controller ords) k = hi"
    using controlled_full(1) [OF inv, of c w] that by (simp add: pool_controller_def)
  show "\<exists>k' m' w'. run_state (ctl_RemoveWorker (pool_controller ords) c (ctl_GetIdleWorker (pool_controller ords) n k) k m) w =
        ((None, k', m'), w') \<and> controlled ords lo hi k' m' \<and> later w w' \<and>
      ctl_GetWorkerCount (pool_controller ords) k' = ctl_GetWorkerCount (pool_controller ords) k - 1 \<and>
      names_left k' = names_left k"
    if "lo < ctl_GetWorkerCount (pool_controller ords) k"
    using controlled_removed [OF inv, of c n] that by (simp add: pool_controller_def run_simps)
  show "\<exists>e. run_state (ctl_RemoveWorker (pool_controller ords) c i k m) w = ((Some e, k, m), w)"
    if "ctl_GetWorkerCount (pool_controller ords) k = lo"
    using controlled_full(2) [OF inv, of c i] that by (simp add: pool_controller_def run_simps)
  show "ctl_GetIdleWorker (pool_controller ords) n k \<noteq> []"
    using worker_name_nonempty [OF C(1) C(7) [of n]] by (simp add: pool_controller_def)
qed

subsection \<open>Removal in parts\<close>

lemma RemoveWorker_begin_passes:
  assumes "i \<in> gmap_keys (p_workers p)" and "p_minWorkers p < int (length (p_workers p))"
  shows "RemoveWorker_begin i p = Inr (p\<lparr>p_workerStates := AList.update i WorkerStateShuttingDown (p_workerStates p)\<rparr>)"
  using assms by (simp add: RemoveWorker_begin_def gmap_lookup)

lemma RemoveWorker_shutdown_keeps:
  assumes "gmap_ok (p_workers p)"
  shows "gmap_ok (p_workers (RemoveWorker_shutdown i p))"
    and "gmap_keys (p_workers (RemoveWorker_shutdown i p)) = gmap_keys (p_workers p)"
    and "p_minWorkers (RemoveWorker_shutdown i p) = p_minWorkers p"
  using assms gmap_lookup_Some [of "p_workers p" i]
  by (auto simp: RemoveWorker_shutdown_def Let_def split: option.splits)

lemma RemoveWorker_finish_keys:
  assumes "gmap_ok (p_workers p)"
  shows "gmap_ok (p_workers (fst (RemoveWorker_finish i p m)))"
    and "gmap_keys (p_workers (fst (RemoveWorker_finish i p m))) = gmap_keys (p_workers p) - {i}"
  using assms by (simp_all add: RemoveWorker_finish_def)

subsection \<open>A small pool\<close>

definition sample_metrics :: "db Metrics" where
  "sample_metrics = fst (run_state (NewMetrics (RQ (redis_client first_pick))) (start_world empty_db))"

definition sample_pool :: "int \<Rightarrow> db Pool" where
  "sample_pool n = NewPool (RQ (redis_client first_pick)) None NewRegistry True
     \<lparr>pc_MinWorkers = n, pc_MaxWorkers = 4, pc_PollInterval = 0, pc_ShutdownTimeout = 0\<rparr>"

lemma sample_started:
  assumes "1 \<le> n" and "n \<le> 4"
  obtains p m w where "run_state (Pool_Start (sample_pool n) sample_metrics) (start_world empty_db) = ((None, p, m), w)"
    and "pool_init (p, m)" and "pool_inv (p, m)" and "int (length (p_workers p)) = n"
    and "p_minWorkers p = n" and "p_maxWorkers p = 4" and "p_hasMetrics p" and "2 ^ 31 \<le> names_left p"
proof -
  have m: "metrics_ok sample_metrics" "m_workerStartTime sample_metrics = []"
    by (auto simp: sample_metrics_def NewMetrics_def run_simps metrics_ok_def stats_bounded_def)
  have p: "pool_quiet (sample_pool n)" "p_workers (sample_pool n) = []" "p_minWorkers (sample_pool n) = n"
    "p_maxWorkers (sample_pool n) = 4" "p_hasMetrics (sample_pool n)"
    using assms by (auto simp: sample_pool_def NewPool_def Let_def pool_quiet_def pool_ok_def)
  have "metered (sample_pool n) sample_metrics" using m p(2) by (simp add: metered_def)
  moreover have "p_minWorkers (sample_pool n) \<le> int (names_left (sample_pool n))"
    using assms p(3) by (simp add: sample_pool_def NewPool_names)
  ultimately obtain p' m' w' where run: "run_state (Pool_Start (sample_pool n) sample_metrics) (start_world empty_db) = ((None, p', m'), w')"
    "pool_inv (p', m')" "int (length (p_workers p')) = n" "p_minWorkers p' = n" "p_maxWorkers p' = 4" "p_hasMetrics p'"
    "names_left (sample_pool n) \<le> names_left p' + nat n"
    using Pool_Start_inv [OF p(1) _ p(2), of sample_metrics "start_world empty_db"] p(3-5) by auto
  moreover from run(1) m have "pool_init (p', m')"
    unfolding sample_pool_def using assms by (intro pool_init.intros) simp_all
  moreover from run(7) assms have "2 ^ 31 \<le> names_left p'" by (simp add: sample_pool_def NewPool_names)
  ultimately show thesis using that by blast
qed

section \<open>Properties\<close>

text \<open>C9: As long as the calls on a started pool do not overlap, the number of its workers stays between
  the minimum and the maximum, every worker has a state and no worker panics, and the metrics
  count exactly the workers of the pool.\<close>

theorem pool_stays_within_bounds:
  assumes "reach pool_init (pool_step rnd) (p, m)"
  shows "p_minWorkers p \<le> GetWorkerCount p \<and> GetWorkerCount p \<le> p_maxWorkers p \<and>
    gmap_keys (p_workerStates p) = gmap_keys (p_workers p) \<and>
    (\<forall>pw \<in> snd ` set (p_workers p). \<not> lf_panicked (pw_life pw)) \<and>
    (p_hasMetrics p \<longrightarrow> m_activeWorkers m = GetWorkerCount p)"
proof -
  from pl.reach_inv [OF assms] have inv: "pool_inv (p, m)" .
  then have ok: "pool_ok p" "metered p m" "p_minWorkers p \<le> int (length (p_workers p))"
    by (simp_all add: pool_inv_def pool_quiet_def)
  have "\<not> lf_panicked (pw_life pw)" if "worker_alive pw" for pw
    using that by (auto simp: worker_alive_def wlife_inv_def of_bool_def split: if_splits)
  with ok GetWorkerCount_exact [OF ok(1)] metered_count(2) [OF ok(1,2)] show ?thesis
    by (auto simp: pool_ok_def)
qed

theorem pool_stays_within_bounds_witness:
  "\<exists>p m. reach pool_init (pool_step id) (p, m) \<and> p_minWorkers p = 2 \<and> 2 \<le> GetWorkerCount p \<and> m_activeWorkers m = GetWorkerCount p"
proof -
  obtain p m w where run: "run_state (Pool_Start (sample_pool 2) sample_metrics) (start_world empty_db) = ((None, p, m), w)"
    and p: "pool_init (p, m)" "p_minWorkers p = 2" "p_hasMetrics p"
    by (rule sample_started [of 2]) simp_all
  have r: "reach pool_init (pool_step id) (p, m)" using p(1) by (rule reach_init)
  from pool_stays_within_bounds [OF r] p(2,3) r show ?thesis by auto
qed

text \<open>C37: Two calls of \<open>RemoveWorker\<close> that overlap take the pool below its minimum: with one worker more
  than the minimum, both pass the check before either of them removes its worker.\<close>

theorem overlapping_removals_pass_the_minimum:
  assumes "pool_ok p" and "i \<in> gmap_keys (p_workers p)" and "j \<in> gmap_keys (p_workers p)" and "i \<noteq> j"
    and "int (length (p_workers p)) = p_minWorkers p + 1"
  shows "\<exists>p1 p2. RemoveWorker_begin i p = Inr p1 \<and> RemoveWorker_begin j p1 = Inr p2 \<and>
    (let (p3, m3) = RemoveWorker_finish i (RemoveWorker_shutdown i p2) m;
         (p4, m4) = RemoveWorker_finish j (RemoveWorker_shutdown j p3) m3
     in int (length (p_workers p4)) = p_minWorkers p4 - 1)"
proof -
  define p1 where "p1 = p\<lparr>p_workerStates := AList.update i WorkerStateShuttingDown (p_workerStates p)\<rparr>"
  define p2 where "p2 = p1\<lparr>p_workerStates := AList.update j WorkerStateShuttingDown (p_workerStates p1)\<rparr>"
  have begins: "RemoveWorker_begin i p = Inr p1" "RemoveWorker_begin j p1 = Inr p2"
    using assms unfolding p1_def p2_def by (simp_all add: RemoveWorker_begin_passes)
  obtain p3 m3 where f3: "RemoveWorker_finish i (RemoveWorker_shutdown i p2) m = (p3, m3)" by fastforce
  obtain p4 m4 where f4: "RemoveWorker_finish j (RemoveWorker_shutdown j p3) m3 = (p4, m4)" by fastforce
  have ok2: "gmap_ok (p_workers p2)" "gmap_keys (p_workers p2) = gmap_keys (p_workers p)"
    using assms(1) by (simp_all add: p2_def p1_def pool_ok_def)
  have ok3: "gmap_ok (p_workers p3)" "gmap_keys (p_workers p3) = gmap_keys (p_workers p) - {i}"
    using RemoveWorker_finish_keys [of "RemoveWorker_shutdown i p2" i m] RemoveWorker_shutdown_keeps [OF ok2(1), of i] ok2(2) f3
    by simp_all
  have ok4: "gmap_ok (p_workers p4)" "gmap_keys (p_workers p4) = gmap_keys (p_workers p) - {i} - {j}"
    using RemoveWorker_finish_keys [of "RemoveWorker_shutdown j p3" j m3] RemoveWorker_shutdown_keeps [OF ok3(1), of j] ok3(2) f4
    by simp_all
  have "p_minWorkers p4 = p_minWorkers p"
    using f3 f4 RemoveWorker_shutdown_keeps(3) [OF ok2(1), of i] RemoveWorker_shutdown_keeps(3) [OF ok3(1), of j]
    by (auto simp: RemoveWorker_finish_def p2_def p1_def)
  moreover have "int (length (p_workers p4)) = int (length (p_workers p)) - 2"
    using assms(1-4) ok4 card_mono [of "gmap_keys (p_workers p)" "{i, j}"]
    by (simp add: gmap_card pool_ok_def of_nat_diff card_Diff_singleton)
  ultimately show ?thesis using begins f3 f4 assms(5) by simp
qed

theorem overlapping_removals_pass_the_minimum_witness:
  "\<exists>(p :: db Pool) m i j p1 p2. GetWorkerCount p = 2 \<and> p_minWorkers p = 1 \<and> RemoveWorker_begin i p = Inr p1 \<and> RemoveWorker_begin j p1 = Inr p2 \<and>
    (let (p3, m3) = RemoveWorker_finish i (RemoveWorker_shutdown i p2) m;
         (p4, m4) = RemoveWorker_finish j (RemoveWorker_shutdown j p3) m3
     in int (length (p_workers p4)) = p_minWorkers p4 - 1)"
proof -
  obtain p :: "db Pool" and m :: "db Metrics" where p: "pool_inv (p, m)" "int (length (p_workers p)) = 2" "p_minWorkers p = 2"
    by (rule sample_started [of 2]) (simp, simp, blast)
  let ?p = "p\<lparr>p_minWorkers := 1\<rparr>"
  from p have ok: "pool_ok ?p" by (auto simp: pool_inv_def pool_quiet_def pool_ok_def)
  then have "card (gmap_keys (p_workers ?p)) = 2" using p(2) by (simp add: pool_ok_def gmap_card)
  then obtain i j where ij: "gmap_keys (p_workers ?p) = {i, j}" "i \<noteq> j" by (auto simp: card_2_iff)
  have "int (length (p_workers ?p)) = p_minWorkers ?p + 1" using p(2) by simp
  from overlapping_removals_pass_the_minimum [OF ok _ _ ij(2) this, of m] ij(1)
  obtain p1 p2 where "RemoveWorker_begin i ?p = Inr p1" "RemoveWorker_begin j p1 = Inr p2"
    "let (p3, m3) = RemoveWorker_finish i (RemoveWorker_shutdown i p2) m;
         (p4, m4) = RemoveWorker_finish j (RemoveWorker_shutdown j p3) m3
     in int (length (p_workers p4)) = p_minWorkers p4 - 1" by auto
  moreover have "GetWorkerCount ?p = 2" "p_minWorkers ?p = 1" using GetWorkerCount_exact [OF ok] p(2) by simp_all
  ultimately show ?thesis by blast
qed

text \<open>\<open>Shutdown\<close> of a pool does not wait for its workers: nothing is ever added to the wait group, so
  the call returns nil at once and leaves every worker as it was, polling or running a task.\<close>

theorem Pool_Shutdown_does_not_wait:
  assumes "reach pool_init (pool_step rnd) (p, m)"
  shows "Pool_Shutdown Live b p = Some (None, p\<lparr>p_ctx := Canceled\<rparr>) \<and> 1 \<le> length (p_workers p)"
  using pl.reach_inv [OF assms]
  by (auto simp: pool_inv_def pool_quiet_def pool_ok_def Pool_Shutdown_def ctx_Err_def Let_def)

theorem Pool_Shutdown_does_not_wait_witness:
  "\<exists>p m. reach pool_init (pool_step id) (p, m) \<and> Pool_Shutdown Live True p = Some (None, p\<lparr>p_ctx := Canceled\<rparr>)"
proof -
  obtain p m w where p: "pool_init (p, m)" by (rule sample_started [of 2]) simp_all
  have r: "reach pool_init (pool_step id) (p, m)" using p by (rule reach_init)
  from Pool_Shutdown_does_not_wait [OF r] r show ?thesis by blast
qed

text \<open>C8: An evaluation of the auto-scaler on a pool whose bounds contain the scaler's changes the pool to
  exactly the number of workers decided on, or leaves it alone when the queue cannot be read. The
  number stays within the scaler's bounds if it was, grows by half and one at most and shrinks by
  a quarter at most, or by one.\<close>

theorem evaluation_reaches_decision:
  assumes "pool_inv (p, m)" and "\<forall>n. order_ok (ords n)" and "2 ^ 31 \<le> names_left p"
    and "p_minWorkers p \<le> as_MinWorkers (s_config s)" and "as_MinWorkers (s_config s) \<le> as_MaxWorkers (s_config s)"
    and "as_MaxWorkers (s_config s) \<le> p_maxWorkers p" and "as_MaxWorkers (s_config s) < 2 ^ 30"
  shows "\<exists>e s' p' m' w'. run_state (evaluate rnd (pool_controller ords) c s p m) w = ((e, s', p', m'), w') \<and> pool_inv (p', m') \<and>
    (e = None \<and> GetWorkerCount p' = sd_DesiredCount (last (s_decisions s')) \<or> e \<noteq> None \<and> s' = s \<and> p' = p) \<and>
    (let cur = GetWorkerCount p; new = GetWorkerCount p'
     in min cur (as_MinWorkers (s_config s)) \<le> new \<and> new \<le> max cur (as_MaxWorkers (s_config s)) \<and>
        new \<le> cur + cur div 2 + 1 \<and> cur - new \<le> max 1 (cur div 4))"
proof -
  from assms(1,2) have "controlled ords (p_minWorkers p) (p_maxWorkers p) p m" by (simp add: controlled_def)
  from pc.evaluate_exact [OF this assms(3-7), of rnd c w] show ?thesis
    unfolding controlled_def by (fastforce simp: pool_controller_def)
qed

theorem evaluation_reaches_decision_witness:
  "\<exists>p m. GetWorkerCount p = 1 \<and>
    (let s = NewAutoScaler \<lparr>as_Enabled = True, as_MinWorkers = 1, as_MaxWorkers = 4, as_ScaleUpThreshold = 10,
       as_ScaleDownIdleTime = Minute, as_CheckInterval = Second\<rparr>
     in \<exists>e s' p' m' w'. run_state (evaluate id (pool_controller (\<lambda>_. id)) Live s p m) (start_world empty_db) = ((e, s', p', m'), w') \<and>
       GetWorkerCount p' \<le> 4)"
proof -
  obtain p :: "db Pool" and m :: "db Metrics" where p: "pool_inv (p, m)" "int (length (p_workers p)) = 1" "p_minWorkers p = 1" "p_maxWorkers p = 4"
    "2 ^ 31 \<le> names_left p"
    by (rule sample_started [of 1]) (simp, simp, blast)
  let ?cfg = "\<lparr>as_Enabled = True, as_MinWorkers = 1, as_MaxWorkers = 4, as_ScaleUpThreshold = 10,
       as_ScaleDownIdleTime = Minute, as_CheckInterval = Second\<rparr>"
  have ord: "\<forall>n. order_ok ((\<lambda>_. id) n)" by (simp add: order_ok_def)
  have cnt: "GetWorkerCount p = 1" using p GetWorkerCount_exact [of p] by (simp add: pool_inv_def pool_quiet_def)
  have cfg: "s_config (NewAutoScaler ?cfg) = ?cfg" by (simp add: NewAutoScaler_def)
  have "\<exists>e s' p' m' w'. run_state (evaluate id (pool_controller (\<lambda>_. id)) Live (NewAutoScaler ?cfg) p m) (start_world empty_db) =
      ((e, s', p', m'), w') \<and> GetWorkerCount p' \<le> 4"
    using evaluation_reaches_decision [OF p(1) ord p(5), of "NewAutoScaler ?cfg" id Live "start_world empty_db"] p(3,4) cfg cnt
    by (auto simp: Let_def)
  with cnt show ?thesis unfolding Let_def by blast
qed

text \<open>Under a clock that does not run backwards, an evaluation that scales up does so at least the
  cooldown (30 seconds) after the last time it did, and likewise for scaling down (2 minutes).\<close>

theorem scaling_respects_cooldowns:
  assumes "pool_inv (p, m)" and "\<forall>n. order_ok (ords n)" and "2 ^ 31 \<le> names_left p" and "mono (w_clock w)"
    and "s_scaleUpCooldown s = 30 * Second" and "s_scaleDownCooldown s = 2 * Minute"
    and "run_state (evaluate rnd (pool_controller ords) c s p m) w = ((e, s', p', m'), w')"
  shows "(s_lastScaleUp s' = s_lastScaleUp s \<or> s_lastScaleUp s + 30 * Second \<le> s_lastScaleUp s') \<and>
    (s_lastScaleDown s' = s_lastScaleDown s \<or> s_lastScaleDown s + 2 * Minute \<le> s_lastScaleDown s')"
proof -
  from assms(1,2) have "controlled ords (p_minWorkers p) (p_maxWorkers p) p m" by (simp add: controlled_def)
  from pc.evaluate_run [OF this assms(3), of rnd c s w] assms(7)
  have sp: "spaced w (s_lastScaleUp s) (s_scaleUpCooldown s) (s_lastScaleUp s')"
    "spaced w (s_lastScaleDown s) (s_scaleDownCooldown s) (s_lastScaleDown s')" by auto
  have "x' = x \<or> x + d \<le> x'" if "spaced w x d x'" "- 9223372036854775808 < d" for x d x'
    using that monoD [OF assms(4)] by (fastforce simp: spaced_def time_Sub_def)
  from this [OF sp(1)] this [OF sp(2)] assms(5,6) show ?thesis by simp
qed

theorem scaling_respects_cooldowns_witness:
  "\<exists>p m e s' p' m' w'.
     let s = NewAutoScaler (wc_AutoScaling (cfg_Worker (Default (\<lambda>_. []))))
     in run_state (evaluate id (pool_controller (\<lambda>_. id)) Live s p m) (start_world empty_db) = ((e, s', p', m'), w') \<and>
        (s_lastScaleUp s' = s_lastScaleUp s \<or> s_lastScaleUp s + 30 * Second \<le> s_lastScaleUp s')"
proof -
  obtain p :: "db Pool" and m :: "db Metrics" where p: "pool_inv (p, m)" "2 ^ 31 \<le> names_left p"
    by (rule sample_started [of 1]) (simp, simp, blast)
  let ?s = "NewAutoScaler (wc_AutoScaling (cfg_Worker (Default (\<lambda>_. []))))"
  have ord: "\<forall>n. order_ok ((\<lambda>_. id) n)" by (simp add: order_ok_def)
  have clock: "mono (w_clock (start_world empty_db))" by (auto intro!: monoI)
  obtain e s' p' m' w' where run: "run_state (evaluate id (pool_controller (\<lambda>_. id)) Live ?s p m) (start_world empty_db) = ((e, s', p', m'), w')"
    by (metis prod.exhaust)
  from scaling_respects_cooldowns [OF p(1) ord p(2) clock _ _ run] have "s_lastScaleUp s' = s_lastScaleUp ?s \<or>
      s_lastScaleUp ?s + 30 * Second \<le> s_lastScaleUp s'" by (simp add: NewAutoScaler_def)
  with run show ?thesis unfolding Let_def by blast
qed

end
