(* ===== verification/Spool_Commands.thy ===== *)
theory Spool_Commands
  imports Spool_Pool Spool_Broker
begin

text \<open>
  The commands: \<open>cmd/worker/main.go\<close>, \<open>cmd/broker/main.go\<close> and \<open>cmd/benchmark/main.go\<close>, which wire
  the components together. \<open>log.Fatalf\<close> ends the process with its message; the operating
  system's signals and the flags of the command line are arguments. The clients that
  \<open>redis.NewClient\<close> makes are given by the parameter \<open>newClient\<close>. The package \<open>load\<close>, which measures
  the other components, is a parameter of the benchmark command.
\<close>

section \<open>Definitions\<close>

text \<open>
  A \<open>main\<close> that waits for a signal or has returned, one that was ended by \<open>log.Fatalf\<close>, and one
  that was ended by a panic.
\<close>

datatype 'a main_run = Running 'a | Fatal string | Panic

definition fatal :: "string \<Rightarrow> gerr \<Rightarrow> 'a main_run" where
  "fatal msg e = Fatal (msg @ '': '' @ err_Error e)"

text \<open>\<open>redis.Options{Addr: addr}\<close>, the other fields zero.\<close>

definition addr_options :: "string \<Rightarrow> redis_options" where
  "addr_options addr =
     \<lparr>o_Addr = addr, o_Password = [], o_DB = 0, o_PoolSize = 0, o_MinIdleConns = 0, o_MaxRetries = 0,
      o_DialTimeout = 0, o_ReadTimeout = 0, o_WriteTimeout = 0, o_PoolTimeout = 0\<rparr>"

subsection \<open>The worker command\<close>

text \<open>The sleep of the handler takes time that the clock of the world accounts for.\<close>

definition default_handler :: handler where
  "default_handler n timeout payload = Inr (GJson (JStr ''completed''))"

definition worker_config :: PoolConfig where
  "worker_config =
     \<lparr>pc_MinWorkers = 2, pc_MaxWorkers = 10, pc_PollInterval = 100 * Millisecond, pc_ShutdownTimeout = 30 * Second\<rparr>"

definition worker_main :: "(redis_options \<Rightarrow> 's client) \<Rightarrow> ('s, ('s Pool \<times> 's Metrics) main_run) io" where
  "worker_main newClient = do {
     r \<leftarrow> NewRedisQueue newClient ''localhost:6379'' [] 0 10;
     (case r of
        Inl err \<Rightarrow> ret (fatal ''Failed to create queue'' err)
      | Inr q \<Rightarrow> do {
          let redisClient = newClient (addr_options ''localhost:6379'');
          let store = NewRedisStorage redisClient;
          metrics \<leftarrow> NewMetrics q;
          (case Register NewRegistry ''default'' default_handler of
             (Some err, _) \<Rightarrow> ret (fatal ''Failed to register handler'' err)
           | (None, registry) \<Rightarrow> do {
               let pool = NewPool q (Some store) registry True worker_config;
               x \<leftarrow> Pool_Start pool metrics;
               (case x of
                  (Some err, _) \<Rightarrow> ret (fatal ''Failed to start worker pool'' err)
                | (None, pm) \<Rightarrow> ret (Running pm))
             })
        })
   }"

text \<open>After the signal: \<open>ctx\<close> is still live, the error of \<open>Shutdown\<close> is only logged.\<close>

definition worker_main_signal :: "bool \<Rightarrow> 's Pool \<Rightarrow> (gerr option \<times> 's Pool) option" where
  "worker_main_signal done_first pool = Pool_Shutdown Live done_first pool"

subsection \<open>The broker command\<close>

definition broker_main :: "(redis_options \<Rightarrow> 's client) \<Rightarrow> ('s, ('s Broker \<times> broker_server) main_run) io" where
  "broker_main newClient = do {
     r \<leftarrow> NewRedisQueue newClient ''localhost:6379'' [] 0 10;
     (case r of
        Inl err \<Rightarrow> ret (fatal ''Failed to create queue'' err)
      | Inr q \<Rightarrow> do {
          let redisClient = newClient (addr_options ''localhost:6379'');
          let store = NewRedisStorage redisClient;
          let b = NewBroker '':8000'' q (Some store);
          ret (Running (b, \<lparr>bs_server = False, bs_ready = False, bs_done = False\<rparr>))
        })
   }"

text \<open>
  The goroutine that handles the signal: it cancels \<open>ctx\<close> and then passes \<open>ctx\<close> to \<open>Stop\<close>.
  \<open>shutdown\<close> is what \<open>http.Server.Shutdown\<close> returns.
\<close>

definition broker_main_signal :: "(ctx \<Rightarrow> gerr option) \<Rightarrow> ctx \<Rightarrow> broker_server \<Rightarrow> (gerr option \<times> broker_server) option" where
  "broker_main_signal shutdown ctx s = (let ctx = (if ctx = Live then Canceled else ctx) in Broker_Stop shutdown ctx s)"

text \<open>
  What \<open>http.Server.Shutdown\<close> is documented to do: it closes the listeners, waits until no
  connection is active or its context is done, and in the latter case returns the error of
  the context. \<open>active\<close>: whether a connection is active when it first looks.
\<close>

definition http_Shutdown :: "bool \<Rightarrow> ctx \<Rightarrow> gerr option" where
  "http_Shutdown active c = (if active then ctx_Err c else None)"

subsection \<open>The benchmark command\<close>

record BenchmarkConfig =
  bm_WorkerCount :: int
  bm_TaskCount :: int
  bm_Duration :: int
  bm_TaskType :: string
  bm_Priority :: priority
  bm_PollInterval :: int
  bm_RedisPoolSize :: int
  bm_PayloadSize :: int
  bm_EnableProfiling :: bool
  bm_CPUProfile :: string
  bm_MemProfile :: string

definition DefaultBenchmarkConfig :: BenchmarkConfig where
  "DefaultBenchmarkConfig =
     \<lparr>bm_WorkerCount = 4, bm_TaskCount = 1000, bm_Duration = 30 * Second, bm_TaskType = ''benchmark_task'',
      bm_Priority = PriorityNormal, bm_PollInterval = 10 * Millisecond, bm_RedisPoolSize = 20,
      bm_PayloadSize = 1024, bm_EnableProfiling = False, bm_CPUProfile = [], bm_MemProfile = []\<rparr>"

text \<open>
  What the command uses of the package \<open>load\<close>: three ready-made runs, and a runner for a
  configuration, whose run gives a printable report or an error.
\<close>

record load_package =
  ld_RunQuickBenchmark :: "gerr option"
  ld_RunScalabilityTest :: "gerr option"
  ld_RunProfiledBenchmark :: "gerr option"
  ld_NewBenchmarkRunner :: "BenchmarkConfig \<Rightarrow> gerr + (gerr + string)"

text \<open>The flags, and their defaults.\<close>

record bench_flags =
  bf_type :: string
  bf_workers :: int
  bf_tasks :: int
  bf_cpuprofile :: string
  bf_memprofile :: string

definition default_flags :: bench_flags where
  "default_flags = \<lparr>bf_type = ''quick'', bf_workers = 4, bf_tasks = 1000, bf_cpuprofile = [], bf_memprofile = []\<rparr>"

definition custom_config :: "int \<Rightarrow> int \<Rightarrow> string \<Rightarrow> string \<Rightarrow> BenchmarkConfig" where
  "custom_config workers tasks cpuProfile memProfile =
     (let config = DefaultBenchmarkConfig\<lparr>bm_WorkerCount := workers, bm_TaskCount := tasks, bm_Duration := 0\<rparr>
      in if cpuProfile \<noteq> [] \<or> memProfile \<noteq> []
         then config\<lparr>bm_EnableProfiling := True, bm_CPUProfile := cpuProfile, bm_MemProfile := memProfile\<rparr>
         else config)"

text \<open>The error and the lines that are printed.\<close>

definition runCustomBenchmark ::
  "load_package \<Rightarrow> int \<Rightarrow> int \<Rightarrow> string \<Rightarrow> string \<Rightarrow> gerr option \<times> string list" where
  "runCustomBenchmark ld workers tasks cpuProfile memProfile =
     (let config = custom_config workers tasks cpuProfile memProfile
      in case ld_NewBenchmarkRunner ld config of
           Inl err \<Rightarrow> (Some (Wrap ''failed to create runner'' err), [])
         | Inr runner \<Rightarrow>
           (case runner of
              Inl err \<Rightarrow> (Some (Wrap ''benchmark failed'' err), [])
            | Inr results \<Rightarrow>
              (None, [results] @
                 (if bm_EnableProfiling config
                  then [[CHR 0x0A] @ ''Profile files created:''] @
                       (if cpuProfile \<noteq> [] then ['' CPU: '' @ cpuProfile] else []) @
                       (if memProfile \<noteq> [] then ['' Memory: '' @ memProfile] else [])
                  else []))))"

text \<open>The exit code of the process and the lines printed after the banner.\<close>

definition bench_finish :: "gerr option \<Rightarrow> string list \<Rightarrow> int \<times> string list" where
  "bench_finish err out =
     (case err of
        Some e \<Rightarrow> (1, out @ [[CHR 0x0A] @ '' Benchmark failed: '' @ err_Error e])
      | None \<Rightarrow> (0, out @ [[CHR 0x0A] @ '' Benchmark completed successfully!'']))"

definition benchmark_main :: "load_package \<Rightarrow> bench_flags \<Rightarrow> int \<times> string list" where
  "benchmark_main ld fl =
     (if bf_type fl = ''quick'' then bench_finish (ld_RunQuickBenchmark ld) [''Running quick benchmark...'']
      else if bf_type fl = ''scalability'' then bench_finish (ld_RunScalabilityTest ld) [''Running scalability test...'']
      else if bf_type fl = ''profiled'' then bench_finish (ld_RunProfiledBenchmark ld) [''Running profiled benchmark...'']
      else if bf_type fl = ''custom''
      then (let line = ''Running custom benchmark: workers='' @ show_int (bf_workers fl) @ '', tasks='' @ show_int (bf_tasks fl);
                x = runCustomBenchmark ld (bf_workers fl) (bf_tasks fl) (bf_cpuprofile fl) (bf_memprofile fl)
            in bench_finish (fst x) (line # snd x))
      else (1, [''Unknown benchmark type: '' @ bf_type fl, ''Available types: quick, scalability, profiled, custom'']))"

section \<open>Lemmas\<close>

definition worker_registry :: Registry where
  "worker_registry = \<lparr>handlers = [(''default'', default_handler)]\<rparr>"

lemma Register_default: "Register NewRegistry ''default'' default_handler = (None, worker_registry)"
  by (simp add: Register_def NewRegistry_def worker_registry_def)

lemma worker_registry_result:
  "t_Type t = ''default'' \<Longrightarrow> handler_result worker_registry n t = Inr (JStr ''completed'')"
  "t_Type t \<noteq> ''default'' \<Longrightarrow> isl (handler_result worker_registry n t) \<and> handler_runs worker_registry t = []"
  by (simp_all add: handler_result_def handler_runs_def worker_registry_def Registry_Get_def default_handler_def)

lemma run_NewRedisQueue:
  assumes "redis_server ex view pk"
  shows "\<exists>w'. run_state (NewRedisQueue (\<lambda>_. ex) ''localhost:6379'' [] 0 10) w = (Inr (RQ ex), w') \<and>
    world_map view w' = world_map view w"
proof -
  have "redis_client pk Live PING (view (w_db w)) = (fst (ex Live PING (w_db w)), view (snd (ex Live PING (w_db w))))"
    using assms unfolding redis_server_def by blast
  then have "fst (ex Live PING (w_db w)) = ROk" "view (snd (ex Live PING (w_db w))) = view (w_db w)" by simp_all
  then show ?thesis by (simp add: NewRedisQueue_def run_simps world_map_def)
qed

text \<open>Every worker of a pool was made with the queue, the storage and the registry of the pool.\<close>

definition hired :: "'s Pool \<Rightarrow> string \<times> 's PoolWorker \<Rightarrow> bool" where
  "hired p x \<longleftrightarrow> fst x \<noteq> [] \<and> pw_worker (snd x) =
     \<lparr>wk_id = fst x, wk_queue = p_queue p, wk_storage = p_storage p, wk_registry = p_registry p, wk_pollFreq = p_pollInterval p\<rparr>"

definition crew :: "'s Pool \<Rightarrow> bool" where
  "crew p \<longleftrightarrow> p_pollInterval p \<noteq> 0 \<and> (\<forall>x \<in> set (p_workers p). hired p x)"

definition same_parts :: "'s Pool \<Rightarrow> 's Pool \<Rightarrow> bool" where
  "same_parts p p' \<longleftrightarrow> p_queue p' = p_queue p \<and> p_storage p' = p_storage p \<and> p_registry p' = p_registry p \<and>
     p_pollInterval p' = p_pollInterval p \<and> p_wg p' = p_wg p"

lemma run_RegisterWorker_world: "\<exists>m' n. run_state (RegisterWorker i m) w = (m', w\<lparr>w_tick := n\<rparr>)"
  by (auto simp: RegisterWorker_def run_simps Let_def)

lemma set_AList_update_subset: "set (AList.update k v xs) \<subseteq> insert (k, v) (set xs)"
  by (induction xs) auto

lemma AddWorker_crew:
  assumes p: "crew p" and run: "run_state (AddWorker c p m) w = ((r, p', m'), w')"
  shows "crew p' \<and> same_parts p p' \<and> (\<exists>n. w' = w\<lparr>w_tick := n\<rparr>)"
proof (cases "int (length (p_workers p)) \<ge> p_maxWorkers p")
  case True
  with run have "p' = p" "w' = w\<lparr>w_tick := w_tick w\<rparr>" by (simp_all add: AddWorker_def)
  with p show ?thesis unfolding same_parts_def by blast
next
  case False
  let ?i = "worker_id (p_nextWorkerID p)"
  have i: "?i \<noteq> []" by (simp add: worker_id_def)
  let ?pw = "\<lparr>pw_worker = \<lparr>wk_id = ?i, wk_queue = p_queue p, wk_storage = p_storage p, wk_registry = p_registry p,
      wk_pollFreq = p_pollInterval p\<rparr>, pw_stats = \<lparr>tasksProcessed = 0, tasksFailed = 0, tasksRetried = 0\<rparr>,
      pw_life = started ?i\<rparr>"
  let ?p = "p\<lparr>p_nextWorkerID := wrap64 (p_nextWorkerID p + 1), p_workers := AList.update ?i ?pw (p_workers p),
      p_workerStates := AList.update ?i WorkerStateIdle (p_workerStates p)\<rparr>"
  obtain m2 n where reg: "run_state (RegisterWorker ?i m) w = (m2, w\<lparr>w_tick := n\<rparr>)"
    using run_RegisterWorker_world by blast
  have life: "Worker_Start (new_life ?i) = (None, started ?i)"
    by (simp add: Worker_Start_def Start_lock_def new_life_def started_def)
  from run False p i life reg have eq: "p' = ?p \<and> (w' = w\<lparr>w_tick := w_tick w\<rparr> \<or> w' = w\<lparr>w_tick := n\<rparr>)"
    by (auto simp: AddWorker_def createWorkerWithMetrics_def NewWorker_def crew_def hired_def run_simps Let_def split: if_splits)
  have "hired p x" if "x \<in> set (AList.update ?i ?pw (p_workers p))" for x
    using that p i set_AList_update_subset [of ?i ?pw "p_workers p"] by (fastforce simp: crew_def hired_def)
  then have "crew ?p" using p by (simp add: crew_def hired_def)
  moreover have "same_parts p ?p" by (simp add: same_parts_def)
  moreover from eq have "\<exists>n. w' = w\<lparr>w_tick := n\<rparr>" by blast
  ultimately show ?thesis using eq by blast
qed

lemma start_workers_crew:
  "crew p \<Longrightarrow> run_state (start_workers n p m) w = ((p', m'), w') \<Longrightarrow>
    crew p' \<and> same_parts p p' \<and> (\<exists>n. w' = w\<lparr>w_tick := n\<rparr>)"
proof (induction n arbitrary: p m w)
  case 0
  then have "p' = p" "w' = w\<lparr>w_tick := w_tick w\<rparr>" by simp_all
  with 0 show ?case unfolding same_parts_def by blast
next
  case (Suc n)
  obtain r p1 m1 w1 where add: "run_state (AddWorker (p_ctx p) p m) w = ((r, p1, m1), w1)" by (metis surj_pair)
  from AddWorker_crew [OF Suc.prems(1) add] obtain k where 1: "crew p1" "same_parts p p1" "w1 = w\<lparr>w_tick := k\<rparr>" by blast
  from Suc.IH [OF 1(1), of m1 w1] Suc.prems(2) add 1 show ?case by (auto simp: same_parts_def)
qed

text \<open>The documented server as the world of the command sees it, before and after it has started.\<close>

lemma run_worker_main:
  assumes "redis_server ex view pk"
  shows "\<exists>p m w'. run_state (worker_main (\<lambda>_. ex)) w = (Running (p, m), w') \<and> pool_inv (p, m) \<and> crew p \<and>
    length (p_workers p) = 2 \<and> p_minWorkers p = 2 \<and> p_maxWorkers p = 10 \<and> p_wg p = 0 \<and> p_queue p = RQ ex \<and>
    p_storage p = Some (RS ex) \<and> p_registry p = worker_registry \<and> p_pollInterval p = 100 * Millisecond \<and>
    (\<exists>n. world_map view w' = (world_map view w)\<lparr>w_tick := n\<rparr>)"
proof -
  let ?p = "NewPool (RQ ex) (Some (RS ex)) worker_registry True worker_config"
  from run_NewRedisQueue [OF assms] obtain w1 where
    q: "run_state (NewRedisQueue (\<lambda>_. ex) ''localhost:6379'' [] 0 10) w = (Inr (RQ ex), w1)"
    and w1: "world_map view w1 = world_map view w" by blast
  obtain m2 n where m2: "run_state (NewMetrics (RQ ex)) w1 = (m2, w1\<lparr>w_tick := n\<rparr>)" "metrics_ok m2" "m_workerStartTime m2 = []"
    by (simp add: NewMetrics_def run_simps metrics_ok_def stats_bounded_def)
  have p: "pool_quiet ?p" "crew ?p" "p_workers ?p = []" "p_minWorkers ?p = 2" "p_maxWorkers ?p = 10" "p_wg ?p = 0"
    "p_queue ?p = RQ ex" "p_storage ?p = Some (RS ex)" "p_registry ?p = worker_registry" "p_pollInterval ?p = 100 * Millisecond"
    using NewPool_ok [of worker_config] by (simp_all add: NewPool_def worker_config_def crew_def Let_def)
  have "metered ?p m2" using m2 by (simp add: metered_def NewPool_def Let_def)
  moreover have "p_minWorkers ?p \<le> int (names_left ?p)" using p(4) by (simp add: NewPool_names)
  ultimately obtain p' m' w' where run: "run_state (Pool_Start ?p m2) (w1\<lparr>w_tick := n\<rparr>) = ((None, p', m'), w')"
    and inv: "pool_inv (p', m')" "int (length (p_workers p')) = p_minWorkers p'" "p_minWorkers p' = 2" "p_maxWorkers p' = 10"
    using Pool_Start_inv [OF p(1) _ p(3), of m2 "w1\<lparr>w_tick := n\<rparr>"] p(4,5) by auto
  from run obtain x where "run_state (start_workers (nat (p_minWorkers ?p)) ?p m2) (w1\<lparr>w_tick := n\<rparr>) = ((p', m'), w')"
    by (auto simp: Pool_Start_def split: prod.splits if_splits)
  from start_workers_crew [OF p(2) this] obtain k where "crew p'" "same_parts ?p p'" "w' = w1\<lparr>w_tick := k\<rparr>" by auto
  moreover have "world_map view (w1\<lparr>w_tick := k\<rparr>) = (world_map view w1)\<lparr>w_tick := k\<rparr>" by (simp add: world_map_def)
  moreover have "run_state (worker_main (\<lambda>_. ex)) w = (Running (p', m'), w')"
    using q m2 run by (simp add: worker_main_def Register_default NewRedisStorage_def)
  ultimately show ?thesis using inv p w1 by (intro exI [of _ p'] exI [of _ m'] exI [of _ w']) (auto simp: same_parts_def)
qed

lemma sys_ok_tick [simp]: "sys_ok (w\<lparr>w_tick := n\<rparr>) q dl = sys_ok w q dl"
  by (simp add: sys_defs clock_ok_def)

lemma crew_worker:
  assumes "crew p" and "x \<in> set (p_workers p)" and "p_queue p = RQ ex" and "p_storage p = Some (RS ex)"
  shows "pw_worker (snd x) = WK ex (fst x) (p_registry p) (p_pollInterval p)"
  using assms by (auto simp: crew_def hired_def)

text \<open>What the workers of the command do with a task, by its type.\<close>

lemma worker_command_default:
  assumes srv: "redis_server ex view pk" and sys: "sys_ok (world_map view w) (single t) dl"
    and t: "t_Priority t \<in> set priorities" "t_Type t = ''default''"
  shows "\<exists>s' w' r. run_state (poll_n 1 (WK ex i worker_registry freq) Live s) w = (s', w') \<and>
    sys_ok (world_map view w') (\<lambda>_. []) dl \<and> saved_result (view (w_db w')) (t_ID t) = Some r \<and> r_Success r \<and>
    r_Output r = Some (Doc (JStr ''completed''))"
proof -
  from poll_success [OF sys single_ops(1) [OF t(1)] worker_registry_result(1) [OF t(2)],
      where pk = pk and i = i and freq = freq and s = s] obtain s' v r where
    run: "run_state (pollAndExecute (WK (redis_client pk) i worker_registry freq) Live s) (world_map view w) = (s', v)"
    and v: "sys_ok v (\<lambda>_. []) dl" "saved_result (w_db v) (t_ID t) = Some r" "r_Success r" "r_Output r = Some (Doc (JStr ''completed''))"
    by blast
  from simulates_run [OF sim_pollAndExecute [OF srv] run] obtain w' where
    "run_state (pollAndExecute (WK ex i worker_registry freq) Live s) w = (s', w')" and w': "world_map view w' = v" by blast
  moreover from w' have "w_db v = view (w_db w')" by auto
  ultimately show ?thesis using v by (intro exI [of _ "fst s'"] exI [of _ w'] exI [of _ r]) simp
qed

lemma worker_command_other:
  assumes srv: "redis_server ex view pk" and sys: "sys_ok (world_map view w) (single t) dl"
    and t: "t_Priority t \<in> set priorities" "t_Type t \<noteq> ''default''" "t_RetryCount t = 0" "0 \<le> t_MaxRetries t" "t_MaxRetries t \<le> 33"
  shows "\<exists>s' w' u. run_state (poll_n (nat (t_MaxRetries t) + 1) (WK ex i worker_registry freq) Live s) w = (s', w') \<and>
    sys_ok (world_map view w') (\<lambda>_. []) (dl @ [u]) \<and> t_ID u = t_ID t \<and> t_State u = StateDeadLetter \<and> w_runs w' = w_runs w"
proof -
  let ?k = "nat (t_MaxRetries t)"
  have none: "concat (replicate n []) = ([] :: string list)" for n by (induction n) simp_all
  from run_failing [OF sys t(1), of worker_registry ?k, where pk = pk and i = i and freq = freq and s = s]
    worker_registry_result(2) [OF t(2)] t(3-5) obtain s' v u where
    run: "run_state (poll_n (Suc ?k) (WK (redis_client pk) i worker_registry freq) Live s) (world_map view w) = (s', v)"
    and v: "sys_ok v (\<lambda>_. []) (dl @ [u])" "same_job u t" "t_State u = StateDeadLetter" "w_runs v = w_runs (world_map view w)"
    by (auto simp: evolves_def none simp del: poll_n.simps)
  from simulates_run [OF sim_poll_n [OF srv] run] obtain w' where
    "run_state (poll_n (Suc ?k) (WK ex i worker_registry freq) Live s) w = (s', w')" and w': "world_map view w' = v" by blast
  moreover from w' have "w_runs v = w_runs w'" by auto
  ultimately show ?thesis using v by (intro exI [of _ s'] exI [of _ w'] exI [of _ u]) (simp add: same_job_def)
qed

lemma bench_finish_code: "fst (bench_finish err out) = 0 \<longleftrightarrow> err = None"
  by (simp add: bench_finish_def split: option.split)

lemma runCustomBenchmark_err:
  "fst (runCustomBenchmark ld a b c d) = None \<longleftrightarrow> (\<exists>report. ld_NewBenchmarkRunner ld (custom_config a b c d) = Inr (Inr report))"
  by (simp add: runCustomBenchmark_def Let_def split: sum.split)

section \<open>Properties\<close>



text \<open>
  The broker command serves the API on \<open>:8000\<close> over the queue and the storage. On a signal it
  cancels its context before it passes it to \<open>Stop\<close>: when a request is being served then,
  \<open>Stop\<close> does not wait for it but returns \<open>context canceled\<close> at once.
\<close>

theorem broker_command_does_not_wait:
  assumes "redis_server ex view pk"
  shows "\<exists>w' s. run_state (broker_main (\<lambda>_. ex)) w = (Running (BR ex, s), w') \<and>
     world_map view w' = world_map view w \<and>
     (\<exists>s' s''. Broker_Start s = Some s' \<and>
        broker_main_signal (http_Shutdown True) Live s' = Some (Some (Err ''context canceled''), s'') \<and>
        broker_main_signal (http_Shutdown False) Live s' = Some (None, s''))"
proof -
  from run_NewRedisQueue [OF assms] obtain w1 where
    "run_state (NewRedisQueue (\<lambda>_. ex) ''localhost:6379'' [] 0 10) w = (Inr (RQ ex), w1)"
    and "world_map view w1 = world_map view w" by blast
  then show ?thesis
    by (simp add: broker_main_def NewBroker_def NewRedisStorage_def Broker_Start_def broker_main_signal_def
        Broker_Stop_def http_Shutdown_def ctx_Err_def Let_def)
qed

theorem broker_command_does_not_wait_witness:
  "\<exists>w' s s' s''. run_state (broker_main (\<lambda>_. redis_client first_pick)) (start_world empty_db) =
       (Running (BR (redis_client first_pick), s), w') \<and> Broker_Start s = Some s' \<and>
     broker_main_signal (http_Shutdown True) Live s' = Some (Some (Err ''context canceled''), s'')"
  using broker_command_does_not_wait [OF redis_server_refl, of first_pick "start_world empty_db"] by blast

text \<open>
  The benchmark command exits with 0 exactly when the type is one of the four it knows and the
  run it stands for reports no error; the flags for workers and tasks reach the runner of a
  custom run, and profiling is on exactly when a profile file is named.
\<close>

theorem benchmark_command:
  "(fst (benchmark_main ld fl) = 0 \<longleftrightarrow>
      bf_type fl = ''quick'' \<and> ld_RunQuickBenchmark ld = None \<or>
      bf_type fl = ''scalability'' \<and> ld_RunScalabilityTest ld = None \<or>
      bf_type fl = ''profiled'' \<and> ld_RunProfiledBenchmark ld = None \<or>
      bf_type fl = ''custom'' \<and>
        (\<exists>report. ld_NewBenchmarkRunner ld (custom_config (bf_workers fl) (bf_tasks fl) (bf_cpuprofile fl) (bf_memprofile fl)) =
           Inr (Inr report))) \<and>
   bm_WorkerCount (custom_config a b c d) = a \<and> bm_TaskCount (custom_config a b c d) = b \<and>
   bm_Duration (custom_config a b c d) = 0 \<and> (bm_EnableProfiling (custom_config a b c d) \<longleftrightarrow> c \<noteq> [] \<or> d \<noteq> [])"
proof (rule conjI)
  show "fst (benchmark_main ld fl) = 0 \<longleftrightarrow>
      bf_type fl = ''quick'' \<and> ld_RunQuickBenchmark ld = None \<or>
      bf_type fl = ''scalability'' \<and> ld_RunScalabilityTest ld = None \<or>
      bf_type fl = ''profiled'' \<and> ld_RunProfiledBenchmark ld = None \<or>
      bf_type fl = ''custom'' \<and>
        (\<exists>report. ld_NewBenchmarkRunner ld (custom_config (bf_workers fl) (bf_tasks fl) (bf_cpuprofile fl) (bf_memprofile fl)) =
           Inr (Inr report))"
    by (simp add: benchmark_main_def bench_finish_code runCustomBenchmark_err Let_def)
qed (simp_all add: custom_config_def DefaultBenchmarkConfig_def Let_def)

end
