(* ===== verification/Spool_Demos.thy ===== *)
theory Spool_Demos
  imports Spool_Commands
begin

text \<open>
  The programs \<open>examples/queue_demo/main.go\<close> and \<open>examples/simple/main.go\<close>, and what the examples
  share: the creation of tasks with the identifiers of \<open>github.com/google/uuid\<close>, a parameter, and
  the order of effects in a \<open>main\<close> that may end early. What a \<open>main\<close> prints is the data it prints.
\<close>

section \<open>Definitions\<close>

text \<open>\<open>task.NewTask\<close>; the clock is read only when the payload can be encoded.\<close>

definition task_NewTask :: "string \<Rightarrow> string \<Rightarrow> gvalue \<Rightarrow> ('s, gerr + task) io" where
  "task_NewTask uuid taskType payload =
     (case json_Marshal payload of
        Inl e \<Rightarrow> ret (Inl e)
      | Inr _ \<Rightarrow> do { now \<leftarrow> time_Now; ret (NewTask uuid now taskType payload) })"

definition and_then :: "('s, 'a main_run) io \<Rightarrow> ('a \<Rightarrow> ('s, 'b main_run) io) \<Rightarrow> ('s, 'b main_run) io" where
  "and_then m f = do {
     x \<leftarrow> m;
     (case x of Running a \<Rightarrow> f a | Fatal msg \<Rightarrow> ret (Fatal msg) | Panic \<Rightarrow> ret Panic)
   }"

subsection \<open>The queue demo\<close>

text \<open>
  Creating a task with the error ignored (the methods of a nil task panic), giving it a
  priority where the source does, and enqueueing it.
\<close>

definition demo_add :: "'s RedisQueue \<Rightarrow> string \<Rightarrow> string \<Rightarrow> json \<Rightarrow> priority option \<Rightarrow> ('s, task main_run) io" where
  "demo_add q uuid taskType payload prio = do {
     r \<leftarrow> task_NewTask uuid taskType (GJson payload);
     (case r of
        Inl _ \<Rightarrow> ret Panic
      | Inr t \<Rightarrow> do {
          let t = (case prio of None \<Rightarrow> t | Some p \<Rightarrow> WithPriority t p);
          e \<leftarrow> Enqueue q Live (Some t);
          (case e of
             Some err \<Rightarrow> ret (fatal ''Failed to enqueue task'' err)
           | None \<Rightarrow> ret (Running t))
        })
   }"

text \<open>The loop that takes up to three tasks; \<open>ID[:8]\<close> panics on a shorter identifier.\<close>

primrec demo_take :: "nat \<Rightarrow> 's RedisQueue \<Rightarrow> task list \<Rightarrow> ('s, task list main_run) io" where
  "demo_take 0 q taken = ret (Running taken)"
| "demo_take (Suc n) q taken = do {
     r \<leftarrow> Dequeue q Live;
     (case r of
        Inl err \<Rightarrow> ret (fatal ''Failed to dequeue task'' err)
      | Inr None \<Rightarrow> ret (Running taken)
      | Inr (Some t) \<Rightarrow>
        (if length (t_ID t) < 8 then ret Panic
         else do {
           e \<leftarrow> Ack q Live (t_ID t);
           (case e of
              Some err \<Rightarrow> ret (fatal ''Failed to ack task'' err)
            | None \<Rightarrow> demo_take n q (taken @ [t]))
         }))
   }"

record queue_report =
  qr_totalSize :: int
  qr_sizes :: "int list" \<comment> \<open>critical, high, normal, low\<close>
  qr_peeked :: "task option"
  qr_taken :: "task list"
  qr_finalSize :: int

text \<open>A call whose error is ignored: the zero value.\<close>

definition or_zero :: "gerr + 'a \<Rightarrow> 'a \<Rightarrow> 'a" where
  "or_zero x z = (case x of Inl _ \<Rightarrow> z | Inr a \<Rightarrow> a)"

definition size_in :: "(priority \<rightharpoonup> int) \<Rightarrow> priority \<Rightarrow> int" where
  "size_in m p = (case m p of None \<Rightarrow> 0 | Some n \<Rightarrow> n)"

definition queue_demo_stats :: "'s RedisQueue \<Rightarrow> ('s, queue_report main_run) io" where
  "queue_demo_stats q = do {
     totalSize \<leftarrow> Size q Live;
     sizes \<leftarrow> SizeByPriority q Live;
     let sizesByPriority = or_zero sizes Map.empty;
     peekedTask \<leftarrow> Peek q Live;
     and_then (demo_take 3 q []) (\<lambda>taken. do {
       finalSize \<leftarrow> Size q Live;
       e \<leftarrow> Health q Live;
       (case e of
          Some err \<Rightarrow> ret (fatal ''Health check failed'' err)
        | None \<Rightarrow> ret (Running
            \<lparr>qr_totalSize = or_zero totalSize 0,
             qr_sizes = map (size_in sizesByPriority) [PriorityCritical, PriorityHigh, PriorityNormal, PriorityLow],
             qr_peeked = or_zero peekedTask None, qr_taken = taken, qr_finalSize = or_zero finalSize 0\<rparr>))
     })
   }"

definition email_map :: json where
  "email_map = JObj [(''body'', JStr ''Your attention is required''), (''subject'', JStr ''Urgent: System Alert''),
     (''to'', JStr ''user@example.com'')]"

definition queue_demo_main :: "(redis_options \<Rightarrow> 's client) \<Rightarrow> (nat \<Rightarrow> string) \<Rightarrow> ('s, queue_report main_run) io" where
  "queue_demo_main newClient uuids = do {
     r \<leftarrow> NewRedisQueue newClient ''localhost:6379'' [] 0 10;
     (case r of
        Inl err \<Rightarrow> ret (fatal ''Failed to create queue'' err)
      | Inr q \<Rightarrow>
        and_then (demo_add q (uuids 0) ''send_email'' email_map (Some PriorityHigh)) (\<lambda>highPriorityTask.
        and_then (demo_add q (uuids 1) ''process_data''
            (JObj [(''action'', JStr ''transform''), (''dataset'', JStr ''users'')]) None) (\<lambda>normalTask.
        and_then (demo_add q (uuids 2) ''cleanup'' (JObj [(''target'', JStr ''temp_files'')]) (Some PriorityLow))
          (\<lambda>lowPriorityTask. queue_demo_stats q))))
   }"

subsection \<open>The simple example\<close>

record EmailPayload =
  ep_To :: string
  ep_Subject :: string
  ep_Body :: string

definition set_email_field :: "string \<Rightarrow> json \<Rightarrow> EmailPayload \<Rightarrow> gerr + EmailPayload" where
  "set_email_field k j e =
     (if k = ''to'' then (case dec_string j (ep_To e) of Inl err \<Rightarrow> Inl err | Inr s \<Rightarrow> Inr (e\<lparr>ep_To := s\<rparr>))
      else if k = ''subject'' then (case dec_string j (ep_Subject e) of Inl err \<Rightarrow> Inl err | Inr s \<Rightarrow> Inr (e\<lparr>ep_Subject := s\<rparr>))
      else if k = ''body'' then (case dec_string j (ep_Body e) of Inl err \<Rightarrow> Inl err | Inr s \<Rightarrow> Inr (e\<lparr>ep_Body := s\<rparr>))
      else Inr e)"

definition EmailPayload_json :: "EmailPayload \<Rightarrow> json" where
  "EmailPayload_json e = JObj [(''to'', JStr (ep_To e)), (''subject'', JStr (ep_Subject e)), (''body'', JStr (ep_Body e))]"

definition email_handler :: handler where
  "email_handler n timeout payload =
     (case unmarshal_struct set_email_field \<lparr>ep_To = [], ep_Subject = [], ep_Body = []\<rparr> payload of
        Inl err \<Rightarrow> Inl err
      | Inr email \<Rightarrow> Inr (GJson (JObj [(''status'', JStr ''sent'')])))"

definition hello_email :: EmailPayload where
  "hello_email = \<lparr>ep_To = ''user@example.com'', ep_Subject = ''Hello from Spool'', ep_Body = ''Your task queue is working!''\<rparr>"

text \<open>
  The worker runs in the background: it polls \<open>before\<close> times until the task is submitted and
  \<open>during\<close> times in the half second that \<open>main\<close> then sleeps. The result is what \<open>GetResult\<close> returns.
\<close>

definition simple_main ::
  "(redis_options \<Rightarrow> 's client) \<Rightarrow> string \<Rightarrow> nat \<Rightarrow> nat \<Rightarrow> ('s, (gerr + result) main_run) io" where
  "simple_main newClient uuid before during = do {
     r \<leftarrow> NewRedisQueue newClient ''localhost:6379'' [] 0 10;
     (case r of
        Inl err \<Rightarrow> ret (fatal ''Failed to create queue'' err)
      | Inr q \<Rightarrow> do {
          let redisClient = newClient (addr_options ''localhost:6379'');
          let store = NewRedisStorage redisClient;
          let registry = snd (Register NewRegistry ''send_email'' email_handler);
          x \<leftarrow> NewWorker q (Some store) registry ''demo-worker'' (50 * Millisecond);
          (case Worker_Start (new_life (wk_id (fst x))) of
             (Some err, _) \<Rightarrow> ret (fatal ''Failed to start worker'' err)
           | (None, _) \<Rightarrow> do {
               s \<leftarrow> poll_n before (fst x) Live (snd x);
               r \<leftarrow> task_NewTask uuid ''send_email'' (GJson (EmailPayload_json hello_email));
               (case r of
                  Inl err \<Rightarrow> ret (fatal ''Failed to create task'' err)
                | Inr emailTask \<Rightarrow> do {
                    let emailTask = WithPriority emailTask PriorityHigh;
                    e \<leftarrow> Enqueue q Live (Some emailTask);
                    (case e of
                       Some err \<Rightarrow> ret (fatal ''Failed to enqueue task'' err)
                     | None \<Rightarrow> do {
                         _ \<leftarrow> poll_n during (fst x) Live s;
                         _ \<leftarrow> time_Sleep (500 * Millisecond);
                         result \<leftarrow> GetResult store Live (t_ID emailTask);
                         ret (Running result)
                       })
                  })
             })
        })
   }"

section \<open>Lemmas\<close>

lemma run_and_then:
  "run_state m w = (Running a, w') \<Longrightarrow> run_state (and_then m f) w = run_state (f a) w'"
  by (simp add: and_then_def)

lemma simulates_main_run [sim_intros]:
  assumes "\<And>a. simulates f (g a) (g' a)" and "\<And>s. simulates f (h s) (h' s)" and "simulates f p p'"
  shows "simulates f (case x of Running a \<Rightarrow> g a | Fatal s \<Rightarrow> h s | Panic \<Rightarrow> p)
    (case x of Running a \<Rightarrow> g' a | Fatal s \<Rightarrow> h' s | Panic \<Rightarrow> p')"
  using assms by (simp split: main_run.split)

lemma sim_and_then [sim_intros]:
  "simulates f m m' \<Longrightarrow> (\<And>a. simulates f (g a) (g' a)) \<Longrightarrow> simulates f (and_then m g) (and_then m' g')"
  unfolding and_then_def by (intro sim_intros)

lemma sim_task_NewTask [sim_intros]: "simulates f (task_NewTask u ty p) (task_NewTask u ty p)"
  unfolding task_NewTask_def by (intro sim_intros)

lemma sim_demo_add [sim_intros]:
  "redis_server ex view pk \<Longrightarrow> simulates view (demo_add (RQ ex) u ty p pr) (demo_add (RQ (redis_client pk)) u ty p pr)"
  unfolding demo_add_def by (intro sim_intros)

lemma sim_demo_take [sim_intros]:
  assumes "redis_server ex view pk"
  shows "simulates view (demo_take n (RQ ex) ts) (demo_take n (RQ (redis_client pk)) ts)"
  by (induction n arbitrary: ts) (simp_all only: demo_take.simps, (intro sim_intros assms; assumption)+)

lemma sim_queue_demo_stats [sim_intros]:
  "redis_server ex view pk \<Longrightarrow> simulates view (queue_demo_stats (RQ ex)) (queue_demo_stats (RQ (redis_client pk)))"
  unfolding queue_demo_stats_def by (intro sim_intros)

subsection \<open>Creating and taking tasks\<close>

definition made :: "string \<Rightarrow> int \<Rightarrow> string \<Rightarrow> json \<Rightarrow> priority \<Rightarrow> task" where
  "made uuid now taskType payload p =
     \<lparr>t_ID = uuid, t_Type = taskType, t_Payload = Doc payload, t_Priority = p,
      t_State = StatePending, t_MaxRetries = 3, t_RetryCount = 0,
      t_Timeout = 30 * Second, t_CreatedAt = now, t_ScheduledAt = zero_time,
      t_StartedAt = None, t_CompletedAt = None, t_Error = [], t_Metadata = []\<rparr>"

lemma made_simps [simp]:
  "t_ID (made u now ty j p) = u" "t_Type (made u now ty j p) = ty" "t_Payload (made u now ty j p) = Doc j"
  "t_Priority (made u now ty j p) = p" "t_MaxRetries (made u now ty j p) = 3" "t_RetryCount (made u now ty j p) = 0"
  "WithPriority (made u now ty j p) p' = made u now ty j p'"
  by (simp_all add: made_def WithPriority_def)

lemma made_ok: "time_marshalable now \<Longrightarrow> p \<in> set priorities \<Longrightarrow> task_ok (made u now ty j p)"
  by (auto simp: made_def task_ok_def times_marshalable_def in64_def set_priorities)

lemma run_task_NewTask [run_simps]:
  "run_state (task_NewTask u ty (GJson j)) w =
     (Inr (made u (w_clock w (w_tick w)) ty j PriorityNormal), w\<lparr>w_tick := Suc (w_tick w)\<rparr>)"
  by (simp add: task_NewTask_def NewTask_def made_def run_simps)

lemma queued_fresh:
  assumes "i \<notin> set (queued_ids q)" and "p \<in> set priorities" and "u \<in> set (q p)"
  shows "t_ID u \<noteq> i"
proof -
  have "u \<in> set (a_order q)" using assms(2,3) set_a_order by blast
  then have "t_ID u \<in> set (queued_ids q)" by (simp add: queued_ids_def)
  with assms(1) show ?thesis by blast
qed

lemma RecordTaskEnqueued_funpow:
  "m_tasksEnqueued m = 0 \<Longrightarrow> n < 2 ^ 63 \<Longrightarrow> m_tasksEnqueued ((RecordTaskEnqueued ^^ n) m) = int n"
  by (induction n) (simp_all add: RecordTaskEnqueued_def wrap64_id in64_def)

lemma queued_enqueue:
  assumes "t_Priority t \<in> set priorities"
  shows "set (queued_ids (a_enqueue t q)) = insert (t_ID t) (set (queued_ids q))"
    and "length (a_order (a_enqueue t q)) = Suc (length (a_order q))"
proof -
  note ids = queued_ids_enqueue [OF assms, of q]
  show "set (queued_ids (a_enqueue t q)) = insert (t_ID t) (set (queued_ids q))" using arg_cong [OF ids, of set_mset] by simp
  show "length (a_order (a_enqueue t q)) = Suc (length (a_order q))" using arg_cong [OF ids, of size] by (simp add: queued_ids_def)
qed

lemma run_demo_add:
  assumes q: "holds_queue (w_db w) q" and clock: "clock_ok w"
    and p: "(case pr of None \<Rightarrow> PriorityNormal | Some p \<Rightarrow> p) = p" "p \<in> set priorities"
    and fresh: "u \<notin> set (queued_ids q)"
  shows "\<exists>d n now. run_state (demo_add (RQ (redis_client pk)) u ty j pr) w =
      (Running (made u now ty j p), w\<lparr>w_db := d, w_tick := n\<rparr>) \<and> holds_queue d (a_enqueue (made u now ty j p) q)"
proof -
  let ?t = "made u (w_clock w (w_tick w)) ty j p" and ?w = "w\<lparr>w_tick := Suc (w_tick w)\<rparr>"
  have ok: "task_ok ?t" using clock p(2) by (intro made_ok) (simp_all add: clock_ok_def)
  have "t_ID v \<noteq> t_ID ?t" if "r \<in> set priorities" "v \<in> set (q r)" for r v
    using queued_fresh [OF fresh that] by simp
  with holds_queue_Enqueue [of ?w q ?t pk Live] q ok p(2) obtain d where
    "run_state (Enqueue (RQ (redis_client pk)) Live (Some ?t)) ?w = (None, ?w\<lparr>w_db := d, w_tick := Suc (w_tick ?w)\<rparr>)"
    and "holds_queue d (a_enqueue ?t q)" by auto
  moreover have "(case pr of None \<Rightarrow> made u (w_clock w (w_tick w)) ty j PriorityNormal
      | Some p \<Rightarrow> WithPriority (made u (w_clock w (w_tick w)) ty j PriorityNormal) p) = ?t"
    using p(1) by (auto split: option.splits)
  ultimately show ?thesis
    by (intro exI [of _ d] exI [of _ "Suc (Suc (w_tick w))"] exI [of _ "w_clock w (w_tick w)"])
       (simp add: demo_add_def run_simps Let_def)
qed

lemma run_demo_take:
  assumes "holds_queue (w_db w) q" and "\<forall>t \<in> set (a_order q). 8 \<le> length (t_ID t)"
  shows "\<exists>d n q'. run_state (demo_take (length (a_order q)) (RQ (redis_client pk)) ts) w =
      (Running (ts @ a_order q), w\<lparr>w_db := d, w_tick := n\<rparr>) \<and> holds_queue d q' \<and> a_order q' = []"
  using assms
proof (induction "a_order q" arbitrary: w q ts)
  case Nil
  then have "run_state (demo_take (length (a_order q)) (RQ (redis_client pk)) ts) w =
      (Running (ts @ a_order q), w\<lparr>w_db := w_db w, w_tick := w_tick w\<rparr>)" by (simp flip: Nil.hyps)
  with Nil show ?case by metis
next
  case (Cons t us)
  then obtain q1 where deq: "a_dequeue q = Some (t, q1)" and ord: "a_order q = t # a_order q1"
    using a_dequeue_order [of q] by (auto split: option.splits)
  from Cons.prems(2) ord have len: "8 \<le> length (t_ID t)" by simp
  from run_Dequeue_Some [OF Cons.prems(1) deq, of pk Live] obtain d1 where
    run1: "run_state (Dequeue (RQ (redis_client pk)) Live) w = (Inr (Some t), w\<lparr>w_db := d1, w_tick := Suc (Suc (w_tick w))\<rparr>)"
    and q1: "holds_queue d1 q1" by blast
  let ?w1 = "w\<lparr>w_db := d1, w_tick := Suc (Suc (w_tick w))\<rparr>"
  from len have "t_ID t \<noteq> []" by auto
  then obtain d2 where run2: "run_state (Ack (RQ (redis_client pk)) Live (t_ID t)) ?w1 = (None, ?w1\<lparr>w_db := d2\<rparr>)"
    and d2: "only_changes {processingKey (t_ID t), taskKey (t_ID t), statsKey ''completed''} d1 d2"
    by (simp add: Ack_def run_simps only_changes_def del: redis_step.simps(5))
  have "holds_queue d2 q1"
    by (rule holds_queue_frame [OF q1 d2]) (use dequeued_fresh [OF Cons.prems(1) deq] in auto)
  moreover from Cons.prems(2) ord have "\<forall>t \<in> set (a_order q1). 8 \<le> length (t_ID t)" by simp
  moreover from Cons.hyps(2) ord have "us = a_order q1" by simp
  ultimately obtain d n q' where
    "run_state (demo_take (length (a_order q1)) (RQ (redis_client pk)) (ts @ [t])) (?w1\<lparr>w_db := d2\<rparr>) =
      (Running ((ts @ [t]) @ a_order q1), (?w1\<lparr>w_db := d2\<rparr>)\<lparr>w_db := d, w_tick := n\<rparr>)" "holds_queue d q'" "a_order q' = []"
    using Cons.hyps(1) [of q1 "?w1\<lparr>w_db := d2\<rparr>" "ts @ [t]"] by auto
  then show ?case using run1 run2 len ord by (auto simp: ord intro!: exI [of _ d] exI [of _ n] exI [of _ q'])
qed

subsection \<open>The queue demo\<close>

lemma queue_lists:
  assumes "holds_queue d q"
  shows "list_at (queueKeyPrefix @ ''critical'') d = Some (map (\<lambda>t. Text (t_ID t)) (q 3))"
    and "list_at (queueKeyPrefix @ ''high'') d = Some (map (\<lambda>t. Text (t_ID t)) (q 2))"
    and "list_at (queueKeyPrefix @ ''normal'') d = Some (map (\<lambda>t. Text (t_ID t)) (q 1))"
    and "list_at (queueKeyPrefix @ ''low'') d = Some (map (\<lambda>t. Text (t_ID t)) (q 0))"
  using assms by (simp_all add: holds_queue_def set_priorities qkey_def PriorityString_def)

lemma run_sizes:
  assumes "holds_queue (w_db w) q" and "length (a_order q) < 2 ^ 63"
  shows "run_state (Size (RQ (redis_client pk)) Live) w = (Inr (int (length (a_order q))), w)"
    and "\<exists>m. run_state (SizeByPriority (RQ (redis_client pk)) Live) w = (Inr m, w) \<and>
      map (size_in m) [3, 2, 1, 0] = map (\<lambda>p. int (length (q p))) [3, 2, 1, 0]"
proof -
  have "wrap64 (int n) = int n" if "n \<le> length (a_order q)" for n
    using that assms(2) by (intro wrap64_id) (simp add: in64_def)
  then have small: "wrap64 (int n) = int n" if "n \<le> length (q 3) + length (q 2) + length (q 1) + length (q 0)" for n
    using that by (simp add: a_order_def priorities_def)
  show "run_state (Size (RQ (redis_client pk)) Live) w = (Inr (int (length (a_order q))), w)"
    using small [of "length (q 3)"] small [of "length (q 3) + length (q 2)"] small [of "length (q 3) + length (q 2) + length (q 1)"]
      small [of "length (q 3) + length (q 2) + length (q 1) + length (q 0)"]
    by (simp add: Size_def init_queueKeys_def run_simps queue_lists [OF assms(1)] a_order_def priorities_def add.assoc)
  show "\<exists>m. run_state (SizeByPriority (RQ (redis_client pk)) Live) w = (Inr m, w) \<and>
      map (size_in m) [3, 2, 1, 0] = map (\<lambda>p. int (length (q p))) [3, 2, 1, 0]"
    by (simp add: SizeByPriority_def init_queueKeys_def run_simps queue_lists [OF assms(1)] size_in_def)
qed

lemma run_Peek:
  "holds_queue (w_db w) q \<Longrightarrow> run_state (Peek (RQ (redis_client pk)) Live) w = (Inr (map_option fst (a_dequeue q)), w)"
  using run_peek_loop [of w q priorities pk] by (simp add: Peek_def a_dequeue_def)

lemma run_queue_demo_stats:
  assumes q: "holds_queue (w_db w) q" and three: "length (a_order q) = 3" and len: "\<forall>t \<in> set (a_order q). 8 \<le> length (t_ID t)"
  shows "\<exists>w'. run_state (queue_demo_stats (RQ (redis_client pk))) w =
    (Running \<lparr>qr_totalSize = 3, qr_sizes = map (\<lambda>p. int (length (q p))) [3, 2, 1, 0],
       qr_peeked = map_option fst (a_dequeue q), qr_taken = a_order q, qr_finalSize = 0\<rparr>, w')"
proof -
  note sizes = run_sizes [OF q, of pk, unfolded three, simplified]
  from sizes(2) obtain m where m: "run_state (SizeByPriority (RQ (redis_client pk)) Live) w = (Inr m, w)"
    "map (size_in m) [3, 2, 1, 0] = map (\<lambda>p. int (length (q p))) [3, 2, 1, 0]" by auto
  from run_demo_take [OF q len, of pk "[]"] obtain d n q' where
    take: "run_state (demo_take 3 (RQ (redis_client pk)) []) w = (Running (a_order q), w\<lparr>w_db := d, w_tick := n\<rparr>)"
    and q': "holds_queue d q'" "a_order q' = []" by (auto simp: three)
  have final: "run_state (Size (RQ (redis_client pk)) Live) (w\<lparr>w_db := d, w_tick := n\<rparr>) = (Inr 0, w\<lparr>w_db := d, w_tick := n\<rparr>)"
    using run_sizes(1) [of "w\<lparr>w_db := d, w_tick := n\<rparr>" q' pk] q' by simp
  show ?thesis
    using sizes(1) m take final
    by (simp add: queue_demo_stats_def run_Peek [OF q] run_and_then [OF take] or_zero_def Health_def run_simps Let_def)
qed

lemma sim_NewRedisQueue:
  assumes srv: "redis_server ex view pk"
    and rest: "simulates view (f (RQ ex)) (g (RQ (redis_client pk)))"
  shows "simulates view
    (do { r \<leftarrow> NewRedisQueue (\<lambda>_. ex) ''localhost:6379'' [] 0 10; (case r of Inl e \<Rightarrow> ret (h e) | Inr q \<Rightarrow> f q) })
    (do { r \<leftarrow> NewRedisQueue (\<lambda>_. redis_client pk) ''localhost:6379'' [] 0 10; (case r of Inl e \<Rightarrow> ret (h e) | Inr q \<Rightarrow> g q) })"
proof -
  have "run_state (NewRedisQueue (\<lambda>_. redis_client pk) ''localhost:6379'' [] 0 10) v = (Inr (RQ (redis_client pk)), v)" for v :: "db world"
    by (simp add: NewRedisQueue_def run_simps Let_def)
  moreover from run_NewRedisQueue [OF srv] obtain u where
    "run_state (NewRedisQueue (\<lambda>_. ex) ''localhost:6379'' [] 0 10) w = (Inr (RQ ex), u w)" "world_map view (u w) = world_map view w" for w
    by metis
  ultimately show ?thesis using rest by (simp add: simulates_def) metis
qed

lemma sim_queue_demo_main:
  assumes "redis_server ex view pk"
  shows "simulates view (queue_demo_main (\<lambda>_. ex) uuids) (queue_demo_main (\<lambda>_. redis_client pk) uuids)"
  unfolding queue_demo_main_def by (rule sim_NewRedisQueue [OF assms]) (intro sim_intros assms)

lemma run_queue_demo:
  assumes q: "holds_queue (w_db w) (\<lambda>_. [])" and clock: "clock_ok w"
    and u: "distinct [uuids 0, uuids 1, uuids 2]" "\<forall>i < 3. 8 \<le> length (uuids i)"
  shows "\<exists>a b c w'. run_state (queue_demo_main (\<lambda>_. redis_client pk) uuids) w =
     (Running \<lparr>qr_totalSize = 3, qr_sizes = [0, 1, 1, 1], qr_peeked = Some a, qr_taken = [a, b, c], qr_finalSize = 0\<rparr>, w') \<and>
     [t_ID a, t_ID b, t_ID c] = [uuids 0, uuids 1, uuids 2] \<and>
     [t_Type a, t_Type b, t_Type c] = [''send_email'', ''process_data'', ''cleanup'']"
proof -
  let ?rq = "RQ (redis_client pk)" and ?norm = "JObj [(''action'', JStr ''transform''), (''dataset'', JStr ''users'')]"
    and ?low = "JObj [(''target'', JStr ''temp_files'')]"
  from run_demo_add [OF q clock, of "Some 2" 2 "uuids 0" pk "''send_email''" email_map] obtain d1 n1 a where
    r1: "run_state (demo_add ?rq (uuids 0) ''send_email'' email_map (Some 2)) w =
      (Running (made (uuids 0) a ''send_email'' email_map 2), w\<lparr>w_db := d1, w_tick := n1\<rparr>)"
    and q1: "holds_queue d1 (a_enqueue (made (uuids 0) a ''send_email'' email_map 2) (\<lambda>_. []))"
    by (auto simp: set_priorities queued_ids_def a_order_def)
  let ?w1 = "w\<lparr>w_db := d1, w_tick := n1\<rparr>" and ?a = "made (uuids 0) a ''send_email'' email_map 2"
  have "clock_ok ?w1" using clock by (simp add: clock_ok_def)
  with run_demo_add [of ?w1 "a_enqueue ?a (\<lambda>_. [])" None 1 "uuids 1" pk "''process_data''" ?norm] q1 u obtain d2 n2 b where
    r2: "run_state (demo_add ?rq (uuids 1) ''process_data'' ?norm None) ?w1 =
      (Running (made (uuids 1) b ''process_data'' ?norm 1), ?w1\<lparr>w_db := d2, w_tick := n2\<rparr>)"
    and q2: "holds_queue d2 (a_enqueue (made (uuids 1) b ''process_data'' ?norm 1) (a_enqueue ?a (\<lambda>_. [])))"
    by (auto simp: set_priorities queued_ids_def a_order_def a_enqueue_def priorities_def)
  let ?w2 = "w\<lparr>w_db := d2, w_tick := n2\<rparr>" and ?b = "made (uuids 1) b ''process_data'' ?norm 1"
  have "clock_ok ?w2" using clock by (simp add: clock_ok_def)
  with run_demo_add [of ?w2 "a_enqueue ?b (a_enqueue ?a (\<lambda>_. []))" "Some 0" 0 "uuids 2" pk "''cleanup''" ?low] q2 u obtain d3 n3 c where
    r3: "run_state (demo_add ?rq (uuids 2) ''cleanup'' ?low (Some 0)) ?w2 =
      (Running (made (uuids 2) c ''cleanup'' ?low 0), ?w2\<lparr>w_db := d3, w_tick := n3\<rparr>)"
    and q3: "holds_queue d3 (a_enqueue (made (uuids 2) c ''cleanup'' ?low 0) (a_enqueue ?b (a_enqueue ?a (\<lambda>_. []))))"
    by (auto simp: set_priorities queued_ids_def a_order_def a_enqueue_def priorities_def)
  let ?c = "made (uuids 2) c ''cleanup'' ?low 0" and ?w3 = "w\<lparr>w_db := d3, w_tick := n3\<rparr>"
  let ?q = "a_enqueue ?c (a_enqueue ?b (a_enqueue ?a (\<lambda>_. [])))"
  have ord: "a_order ?q = [?a, ?b, ?c]" by (simp add: a_order_def a_enqueue_def priorities_def)
  have first: "map_option fst (a_dequeue ?q) = Some ?a" by (simp add: a_dequeue_def a_enqueue_def priorities_def)
  have sizes: "map (\<lambda>p. int (length (?q p))) [3, 2, 1, 0] = [0, 1, 1, 1]" by (simp add: a_enqueue_def)
  from run_queue_demo_stats [of ?w3 ?q pk] q3 u(2) obtain w' where
    "run_state (queue_demo_stats ?rq) ?w3 = (Running \<lparr>qr_totalSize = 3, qr_sizes = [0, 1, 1, 1],
       qr_peeked = Some ?a, qr_taken = [?a, ?b, ?c], qr_finalSize = 0\<rparr>, w')"
    unfolding ord first sizes by (auto simp: less_Suc_eq numeral_3_eq_3)
  with r1 r2 r3 show ?thesis
    by (intro exI [of _ ?a] exI [of _ ?b] exI [of _ ?c] exI [of _ w'])
       (simp add: queue_demo_main_def NewRedisQueue_def run_simps Let_def run_and_then)
qed

subsection \<open>The simple example\<close>

lemma poll_n_idle:
  assumes "sys_ok w q dl" and "a_dequeue q = None"
  shows "run_state (poll_n n (WK (redis_client pk) i reg freq) Live s) w = (s, w)"
  by (induction n) (simp_all add: poll_idle [OF assms])

lemma sys_ok_Enqueue:
  assumes sys: "sys_ok w q dl" and t: "task_ok t" "t_Priority t \<in> set priorities" "t_ID t \<noteq> []" "t_ID t \<notin> set (queued_ids q)"
  shows "\<exists>w'. run_state (Enqueue (RQ (redis_client pk)) Live (Some t)) w = (None, w') \<and> sys_ok w' (a_enqueue t q) dl"
proof -
  have "t_ID u \<noteq> t_ID t" if "p \<in> set priorities" "u \<in> set (q p)" for p u
    using queued_fresh [OF t(4) that] .
  with holds_queue_Enqueue [of w q t pk Live] sys t(1,2) obtain d where
    run: "run_state (Enqueue (RQ (redis_client pk)) Live (Some t)) w = (None, w\<lparr>w_db := d, w_tick := Suc (w_tick w)\<rparr>)"
    and q: "holds_queue d (a_enqueue t q)"
    and d: "only_changes {taskKey (t_ID t), qkey (t_Priority t), statsKey ''total'', statsKey ''last_enqueue''} (w_db w) d"
    by (auto simp: sys_defs)
  have "store_ok d" "dlq_holds d dl"
    using store_frame(1) [OF d] dlq_holds_frame [OF d] sys by (simp_all add: sys_defs)
  moreover have "t_ID u \<noteq> []" if "p \<in> set priorities" "u \<in> set (a_enqueue t q p)" for p u
    using that sys t(3) by (auto simp: sys_defs a_enqueue_def split: if_splits)
  ultimately show ?thesis using run q sys by (auto simp: sys_defs clock_ok_def)
qed

lemma email_handler_sends:
  "email_handler n timeout (Doc (EmailPayload_json e)) = Inr (GJson (JObj [(''status'', JStr ''sent'')]))"
  by (simp add: email_handler_def EmailPayload_json_def set_email_field_def fold_name_def lower_char_def)

definition email_registry :: Registry where
  "email_registry = \<lparr>handlers = [(''send_email'', email_handler)]\<rparr>"

lemma email_registry_result:
  "handler_result email_registry n (made u now ''send_email'' (EmailPayload_json e) p) = Inr (JObj [(''status'', JStr ''sent'')])"
  by (simp add: handler_result_def email_registry_def Registry_Get_def email_handler_sends)

lemma run_GetResult:
  assumes "saved_result (w_db w) i = Some r" and "i \<noteq> []"
  shows "run_state (GetResult (RS (redis_client pk)) Live i) w = (Inr r, w)"
  using assms by (auto simp: GetResult_def saved_result_def run_simps split: option.splits rval.splits sum.splits)

lemma run_simple:
  assumes sys: "sys_ok w (\<lambda>_. []) dl" and uuid: "uuid \<noteq> []" and polls: "1 \<le> during"
  shows "\<exists>r w'. run_state (simple_main (\<lambda>_. redis_client pk) uuid before during) w = (Running (Inr r), w') \<and>
     r_Success r \<and> r_Output r = Some (Doc (JObj [(''status'', JStr ''sent'')]))"
proof -
  let ?wk = "WK (redis_client pk) ''demo-worker'' email_registry (50 * Millisecond)"
    and ?s = "\<lparr>tasksProcessed = 0, tasksFailed = 0, tasksRetried = 0\<rparr>"
  have empty: "a_dequeue (\<lambda>_. []) = None" by (simp add: a_dequeue_def priorities_def)
  let ?t = "made uuid (w_clock w (w_tick w)) ''send_email'' (EmailPayload_json hello_email) 2"
  have p: "t_Priority ?t \<in> set priorities" by (simp add: set_priorities)
  have ok: "task_ok ?t" using sys p by (intro made_ok) (simp_all add: sys_defs clock_ok_def)
  let ?w1 = "w\<lparr>w_tick := Suc (w_tick w)\<rparr>"
  from sys_ok_Enqueue [of ?w1 "\<lambda>_. []" dl ?t pk] sys ok p uuid single_ops(2) [OF p] obtain w2 where
    enq: "run_state (Enqueue (RQ (redis_client pk)) Live (Some ?t)) ?w1 = (None, w2)" and sys2: "sys_ok w2 (single ?t) dl"
    by (auto simp: queued_ids_def a_order_def)
  from poll_success [OF sys2 single_ops(1) [OF p] email_registry_result, where pk = pk and i = "''demo-worker''"
      and freq = "50 * Millisecond" and s = ?s] obtain x w3 r where
    poll: "run_state (pollAndExecute ?wk Live ?s) w2 = (x, w3)" and sys3: "sys_ok w3 (\<lambda>_. []) dl"
    and r: "saved_result (w_db w3) uuid = Some r" "r_Success r" "r_Output r = Some (Doc (JObj [(''status'', JStr ''sent'')]))"
    by auto
  obtain k where k: "during = Suc k" using polls by (cases during) auto
  have polls: "run_state (poll_n during ?wk Live ?s) w2 = (fst x, w3)"
    using poll poll_n_idle [OF sys3 empty] by (simp add: k)
  let ?w4 = "w3\<lparr>w_slept := w_slept w3 @ [500 * Millisecond]\<rparr>"
  have "run_state (GetResult (RS (redis_client pk)) Live uuid) ?w4 = (Inr r, ?w4)"
    using r(1) uuid by (intro run_GetResult) simp_all
  with enq polls poll_n_idle [OF sys empty, where n = before and pk = pk and i = "''demo-worker''"
      and reg = email_registry and freq = "50 * Millisecond" and s = ?s]
  have "run_state (simple_main (\<lambda>_. redis_client pk) uuid before during) w = (Running (Inr r), ?w4)"
    by (simp add: simple_main_def NewRedisQueue_def NewRedisStorage_def NewWorker_def Worker_Start_def Start_lock_def new_life_def
        Register_def NewRegistry_def email_registry_def [symmetric] run_simps Let_def del: poll_n.simps)
  with r show ?thesis by blast
qed

lemma sim_simple_main:
  assumes srv: "redis_server ex view pk"
  shows "simulates view (simple_main (\<lambda>_. ex) uuid before during) (simple_main (\<lambda>_. redis_client pk) uuid before during)"
  unfolding simple_main_def NewRedisStorage_def
  by (rule sim_NewRedisQueue [OF srv])
     (simp add: NewWorker_def Worker_Start_def Start_lock_def new_life_def Let_def del: poll_n.simps, intro sim_intros srv)

section \<open>Properties\<close>

text \<open>
  The queue demo, on an empty queue and with three different identifiers, prints that three
  tasks are queued, one of each priority but the critical one, peeks at the urgent one, takes
  the tasks by priority, high, normal, low, acknowledges them, and ends with an empty queue.
\<close>

theorem queue_demo_by_priority:
  assumes srv: "redis_server ex view pk" and "holds_queue (view (w_db w)) (\<lambda>_. [])" and "clock_ok w"
    and "distinct [uuids 0, uuids 1, uuids 2]" and "\<forall>i < 3. 8 \<le> length (uuids i)"
  shows "\<exists>a b c w'. run_state (queue_demo_main (\<lambda>_. ex) uuids) w =
     (Running \<lparr>qr_totalSize = 3, qr_sizes = [0, 1, 1, 1], qr_peeked = Some a, qr_taken = [a, b, c], qr_finalSize = 0\<rparr>, w') \<and>
     [t_ID a, t_ID b, t_ID c] = [uuids 0, uuids 1, uuids 2] \<and>
     [t_Type a, t_Type b, t_Type c] = [''send_email'', ''process_data'', ''cleanup'']"
proof -
  have "clock_ok (world_map view w)" using assms(3) by (simp add: clock_ok_def)
  from run_queue_demo [of "world_map view w", OF _ this assms(4,5), of pk] assms(2)
    simulates_run [OF sim_queue_demo_main [OF srv, of uuids], of w] show ?thesis by simp blast
qed

theorem queue_demo_by_priority_witness:
  "\<exists>a b c w'. run_state (queue_demo_main (\<lambda>_. redis_client first_pick) (\<lambda>n. show_int (int n + 10000000)))
       ((start_world empty_db)\<lparr>w_clock := \<lambda>_. 0\<rparr>) =
     (Running \<lparr>qr_totalSize = 3, qr_sizes = [0, 1, 1, 1], qr_peeked = Some a, qr_taken = [a, b, c], qr_finalSize = 0\<rparr>, w')"
proof -
  have "\<forall>i < 3. 8 \<le> length (show_int (int i + 10000000))"
    by (auto simp: less_Suc_eq numeral_3_eq_3 show_int_def show_dec.simps)
  then show ?thesis
    using queue_demo_by_priority [OF redis_server_refl, of "(start_world empty_db)\<lparr>w_clock := \<lambda>_. 0\<rparr>"
        "\<lambda>n. show_int (int n + 10000000)" first_pick]
    by (auto simp: clock_ok_def time_marshalable_def)
qed

text \<open>
  The simple example on a sound system with nothing queued: when the worker gets to poll at
  least once in the half second that \<open>main\<close> waits, \<open>main\<close> finds the result of its task, a success
  with the status \<open>sent\<close>.
\<close>

theorem simple_example_finds_result:
  assumes srv: "redis_server ex view pk" and "sys_ok (world_map view w) (\<lambda>_. []) dl" and "uuid \<noteq> []" and "1 \<le> during"
  shows "\<exists>r w'. run_state (simple_main (\<lambda>_. ex) uuid before during) w = (Running (Inr r), w') \<and>
     r_Success r \<and> r_Output r = Some (Doc (JObj [(''status'', JStr ''sent'')]))"
  using run_simple [OF assms(2-4), of pk before] simulates_run [OF sim_simple_main [OF srv, of uuid before during], of w]
  by blast

theorem simple_example_finds_result_witness:
  "\<exists>r w'. run_state (simple_main (\<lambda>_. redis_client first_pick) ''id'' 3 1) ((start_world empty_db)\<lparr>w_clock := \<lambda>_. 0\<rparr>) =
       (Running (Inr r), w') \<and> r_Output r = Some (Doc (JObj [(''status'', JStr ''sent'')]))"
proof -
  let ?w = "(start_world empty_db)\<lparr>w_clock := \<lambda>_. 0\<rparr>"
  have "sys_ok (world_map id ?w) (\<lambda>_. []) []"
    by (simp add: sys_defs dlq_holds_def clock_ok_def time_marshalable_def)
  then show ?thesis
    using simple_example_finds_result [OF redis_server_refl, of ?w "[]" "''id''" 1 first_pick 3] by auto
qed

end
