(* ===== verification/Spool_Images.thy ===== *)
theory Spool_Images
  imports Spool_Metrics
begin

unbundle bit_operations_syntax

text \<open>
  The image routines and task handlers of \<open>examples/image_processor/main.go\<close>. Colours and images
  are those of Go's packages \<open>image\<close> and \<open>image/color\<close>: channels of 8 bits, converted through the
  32-bit values of \<open>Color.RGBA\<close>. The file system maps paths to contents; the codecs of PNG and
  JPEG are parameters. A handler that panics, which nothing recovers, is \<open>None\<close>.
\<close>

section \<open>Definitions\<close>

subsection \<open>Colours\<close>

text \<open>\<open>color.RGBA\<close>, \<open>color.Gray\<close>, and any other implementation of \<open>color.Color\<close> by what its \<open>RGBA()\<close> returns.\<close>

datatype gcolor =
    RGBA "8 word" "8 word" "8 word" "8 word"
  | Gray "8 word"
  | OtherColor "32 word" "32 word" "32 word" "32 word"

definition widen :: "8 word \<Rightarrow> 32 word" where
  "widen c = (let r = ucast c :: 32 word in r OR push_bit 8 r)"

fun color_RGBA :: "gcolor \<Rightarrow> 32 word \<times> 32 word \<times> 32 word \<times> 32 word" where
  "color_RGBA (RGBA r g b a) = (widen r, widen g, widen b, widen a)"
| "color_RGBA (Gray y) = (widen y, widen y, widen y, 0xFFFF)"
| "color_RGBA (OtherColor r g b a) = (r, g, b, a)"

definition RGBAModel_Convert :: "gcolor \<Rightarrow> gcolor" where
  "RGBAModel_Convert c =
     (case c of
        RGBA _ _ _ _ \<Rightarrow> c
      | _ \<Rightarrow> (case color_RGBA c of
          (r, g, b, a) \<Rightarrow> RGBA (ucast (drop_bit 8 r)) (ucast (drop_bit 8 g)) (ucast (drop_bit 8 b)) (ucast (drop_bit 8 a))))"

definition GrayModel_Convert :: "gcolor \<Rightarrow> gcolor" where
  "GrayModel_Convert c =
     (case c of
        Gray _ \<Rightarrow> c
      | _ \<Rightarrow> (case color_RGBA c of
          (r, g, b, _) \<Rightarrow> Gray (ucast (drop_bit 24 (19595 * r + 38470 * g + 7471 * b + push_bit 15 1)))))"

subsection \<open>Images\<close>

record rect =
  MinX :: int
  MinY :: int
  MaxX :: int
  MaxY :: int

definition image_Rect :: "int \<Rightarrow> int \<Rightarrow> int \<Rightarrow> int \<Rightarrow> rect" where
  "image_Rect x0 y0 x1 y1 = \<lparr>MinX = min x0 x1, MinY = min y0 y1, MaxX = max x0 x1, MaxY = max y0 y1\<rparr>"

definition in_rect :: "int \<Rightarrow> int \<Rightarrow> rect \<Rightarrow> bool" where
  "in_rect x y r \<longleftrightarrow> MinX r \<le> x \<and> x < MaxX r \<and> MinY r \<le> y \<and> y < MaxY r"

text \<open>An image: its bounds, its pixels, and what \<open>At\<close> returns outside.\<close>

record image =
  im_Bounds :: rect
  im_pix :: "int \<Rightarrow> int \<Rightarrow> gcolor"
  im_zero :: gcolor

definition image_At :: "image \<Rightarrow> int \<Rightarrow> int \<Rightarrow> gcolor" where
  "image_At im x y = (if in_rect x y (im_Bounds im) then im_pix im x y else im_zero im)"

definition NewRGBA :: "rect \<Rightarrow> image" where
  "NewRGBA r = \<lparr>im_Bounds = r, im_pix = (\<lambda>_ _. RGBA 0 0 0 0), im_zero = RGBA 0 0 0 0\<rparr>"

definition NewGray :: "rect \<Rightarrow> image" where
  "NewGray r = \<lparr>im_Bounds = r, im_pix = (\<lambda>_ _. Gray 0), im_zero = Gray 0\<rparr>"

text \<open>\<open>Set\<close> of an image with the colour model \<open>cv\<close>: nothing outside the bounds.\<close>

definition image_Set :: "(gcolor \<Rightarrow> gcolor) \<Rightarrow> int \<Rightarrow> int \<Rightarrow> gcolor \<Rightarrow> image \<Rightarrow> image" where
  "image_Set cv x y c im =
     (if in_rect x y (im_Bounds im) then im\<lparr>im_pix := (im_pix im)(x := (im_pix im x)(y := cv c))\<rparr> else im)"

text \<open>The nested loop over rows and columns.\<close>

definition for_rows :: "int list \<Rightarrow> int list \<Rightarrow> (int \<Rightarrow> int \<Rightarrow> 'a \<Rightarrow> 'a) \<Rightarrow> 'a \<Rightarrow> 'a" where
  "for_rows ys xs f = fold (\<lambda>y. fold (\<lambda>x. f x y) xs) ys"

definition createSampleImage :: "int \<Rightarrow> int \<Rightarrow> int \<Rightarrow> image" where
  "createSampleImage width height seed =
     for_rows [0 .. height - 1] [0 .. width - 1]
       (\<lambda>x y im.
          (let r = word_of_int (wrap64 (x + wrap64 (seed * 50)) smod 256);
               g = word_of_int (wrap64 (y + wrap64 (seed * 30)) smod 256);
               b = word_of_int (wrap64 (wrap64 (x + y) + wrap64 (seed * 70)) smod 256)
           in image_Set RGBAModel_Convert x y (RGBA r g b 255) im))
       (NewRGBA (image_Rect 0 0 width height))"

definition convertToGrayscale :: "image \<Rightarrow> image" where
  "convertToGrayscale img =
     (let bounds = im_Bounds img
      in for_rows [MinY bounds .. MaxY bounds - 1] [MinX bounds .. MaxX bounds - 1]
           (\<lambda>x y im. image_Set GrayModel_Convert x y (GrayModel_Convert (image_At img x y)) im)
           (NewGray bounds))"

definition resizeImage :: "image \<Rightarrow> int \<Rightarrow> int \<Rightarrow> image" where
  "resizeImage img width height =
     (let bounds = im_Bounds img;
          srcWidth = wrap64 (MaxX bounds - MinX bounds);
          srcHeight = wrap64 (MaxY bounds - MinY bounds)
      in for_rows [0 .. height - 1] [0 .. width - 1]
           (\<lambda>x y im.
              (let srcX = wrap64 (x * srcWidth) sdiv width;
                   srcY = wrap64 (y * srcHeight) sdiv height
               in image_Set RGBAModel_Convert x y (image_At img (wrap64 (srcX + MinX bounds)) (wrap64 (srcY + MinY bounds))) im))
           (NewRGBA (image_Rect 0 0 width height)))"

text \<open>
  The type assertion \<open>(color.RGBA)\<close> panics on any other colour; \<open>None\<close> from then on.
\<close>

definition darken :: "int \<Rightarrow> int \<Rightarrow> image option \<Rightarrow> image option" where
  "darken x y o_im =
     (case o_im of
        None \<Rightarrow> None
      | Some im \<Rightarrow> (case image_At im x y of
          RGBA r g b a \<Rightarrow> Some (image_Set RGBAModel_Convert x y (RGBA (r div 2) (g div 2) (b div 2) 255) im)
        | _ \<Rightarrow> None))"

definition addWatermark :: "image \<Rightarrow> image option" where
  "addWatermark img =
     (let bounds = im_Bounds img;
          watermarked = for_rows [MinY bounds .. MaxY bounds - 1] [MinX bounds .. MaxX bounds - 1]
            (\<lambda>x y im. image_Set RGBAModel_Convert x y (image_At img x y) im) (NewRGBA bounds);
          watermarkHeight = 30
      in for_rows [wrap64 (MaxY bounds - watermarkHeight) .. MaxY bounds - 1] [MinX bounds .. MaxX bounds - 1]
           darken (Some watermarked))"

subsection \<open>Files\<close>

text \<open>
  The operating system and the codecs: \<open>ie_create\<close> is the error of \<open>os.Create\<close>, if any;
  \<open>png.Encode\<close> gives the error and the bytes it wrote.
\<close>

record 'b image_env =
  ie_png_Decode :: "'b \<Rightarrow> gerr + image"
  ie_jpeg_Decode :: "'b \<Rightarrow> gerr + image"
  ie_png_Encode :: "image \<Rightarrow> gerr option \<times> 'b"
  ie_create :: "string \<Rightarrow> gerr option"
  ie_rounding :: rounding
  ie_parse_float :: "string \<Rightarrow> float64"

type_synonym 'b files = "string \<rightharpoonup> 'b"

definition loadImage :: "'b image_env \<Rightarrow> string \<Rightarrow> 'b files \<Rightarrow> gerr + image" where
  "loadImage env path fs =
     (case fs path of
        None \<Rightarrow> Inl (Err (''open '' @ path @ '': no such file or directory''))
      | Some file \<Rightarrow>
        (case ie_png_Decode env file of
           Inr img \<Rightarrow> Inr img
         | Inl _ \<Rightarrow> (case ie_jpeg_Decode env file of Inl err \<Rightarrow> Inl err | Inr img \<Rightarrow> Inr img)))"

definition saveImage :: "'b image_env \<Rightarrow> string \<Rightarrow> image \<Rightarrow> 'b files \<Rightarrow> gerr option \<times> 'b files" where
  "saveImage env path img fs =
     (case ie_create env path of
        Some err \<Rightarrow> (Some err, fs)
      | None \<Rightarrow> (case ie_png_Encode env img of (err, file) \<Rightarrow> (err, fs(path \<mapsto> file))))"

text \<open>\<open>filepath.Join\<close> of a directory and a file name, of clean paths; a leading \<open>./\<close> is removed.\<close>

definition path_Join :: "string \<Rightarrow> string \<Rightarrow> string" where
  "path_Join dir name = (if take 2 dir = ''./'' then drop 2 dir else dir) @ ''/'' @ name"

fun generate_loop :: "'b image_env \<Rightarrow> string \<Rightarrow> int list \<Rightarrow> string list \<Rightarrow> 'b files \<Rightarrow> string list \<times> 'b files" where
  "generate_loop env outputDir [] images fs = (images, fs)"
| "generate_loop env outputDir (i # is) images fs =
     (let filename = path_Join outputDir (''sample_'' @ show_int i @ ''.png'');
          img = createSampleImage 400 300 i
      in case saveImage env filename img fs of
           (Some err, fs) \<Rightarrow> generate_loop env outputDir is images fs
         | (None, fs) \<Rightarrow> generate_loop env outputDir is (images @ [filename]) fs)"

definition generateSampleImages :: "'b image_env \<Rightarrow> string \<Rightarrow> 'b files \<Rightarrow> string list \<times> 'b files" where
  "generateSampleImages env outputDir fs = generate_loop env outputDir [1 .. 5] [] fs"

subsection \<open>Handlers\<close>

text \<open>\<open>json.Unmarshal\<close> into a \<open>map[string]interface{}\<close>, and the type assertions on its values.\<close>

fun unmarshal_map :: "blob \<Rightarrow> gerr + (string \<times> json) list" where
  "unmarshal_map (Doc j) = dec_map j []"
| "unmarshal_map (Text _) = Inl syntax_err"

fun assert_string :: "json option \<Rightarrow> string option" where
  "assert_string (Some (JStr s)) = Some s"
| "assert_string (Some (JTime t)) = Some (rfc3339_nano t)"
| "assert_string _ = None"

fun assert_float :: "'b image_env \<Rightarrow> json option \<Rightarrow> float64 option" where
  "assert_float env (Some (JNum n)) = Some (float_of (ie_rounding env) n)"
| "assert_float env (Some (JFrac s)) = Some (ie_parse_float env s)"
| "assert_float env _ = None"

type_synonym 'b image_handler = "blob \<Rightarrow> 'b files \<Rightarrow> ((gerr + gvalue) \<times> 'b files) option"

text \<open>
  The common body of the handlers: decode the payload, read the two paths (and what
  else \<open>op\<close> reads), load the image, process it, save it.
\<close>

definition with_image ::
  "'b image_env \<Rightarrow> ((string \<times> json) list \<Rightarrow> (image \<Rightarrow> image option) option) \<Rightarrow> 'b image_handler" where
  "with_image env op payload fs =
     (case unmarshal_map payload of
        Inl err \<Rightarrow> Some (Inl err, fs)
      | Inr data \<Rightarrow>
        (case assert_string (map_of data ''input_path'') of None \<Rightarrow> None
         | Some inputPath \<Rightarrow>
         (case assert_string (map_of data ''output_path'') of None \<Rightarrow> None
          | Some outputPath \<Rightarrow>
          (case op data of None \<Rightarrow> None
           | Some f \<Rightarrow>
           (case loadImage env inputPath fs of
              Inl err \<Rightarrow> Some (Inl (Wrap ''failed to load image'' err), fs)
            | Inr img \<Rightarrow>
              (case f img of None \<Rightarrow> None
               | Some img' \<Rightarrow>
               (case saveImage env outputPath img' fs of
                  (Some err, fs) \<Rightarrow> Some (Inl (Wrap ''failed to save image'' err), fs)
                | (None, fs) \<Rightarrow> Some (Inr (GJson (JObj [(''output'', JStr outputPath)])), fs))))))))"

definition grayscale_handler :: "'b image_env \<Rightarrow> 'b image_handler" where
  "grayscale_handler env = with_image env (\<lambda>data. Some (\<lambda>img. Some (convertToGrayscale img)))"

definition resize_handler :: "'b image_env \<Rightarrow> 'b image_handler" where
  "resize_handler env = with_image env (\<lambda>data.
     case assert_float env (map_of data ''width'') of None \<Rightarrow> None
     | Some w \<Rightarrow> (case assert_float env (map_of data ''height'') of None \<Rightarrow> None
       | Some h \<Rightarrow> Some (\<lambda>img. Some (resizeImage img (int64_of w) (int64_of h)))))"

definition thumbnail_handler :: "'b image_env \<Rightarrow> 'b image_handler" where
  "thumbnail_handler env = with_image env (\<lambda>data. Some (\<lambda>img. Some (resizeImage img 150 150)))"

definition watermark_handler :: "'b image_env \<Rightarrow> 'b image_handler" where
  "watermark_handler env = with_image env (\<lambda>data. Some addWatermark)"

text \<open>The handlers by task type, in the order of their registration.\<close>

definition registerHandlers :: "'b image_env \<Rightarrow> (string \<times> 'b image_handler) list" where
  "registerHandlers env =
     [(''image_grayscale'', grayscale_handler env), (''image_resize'', resize_handler env),
      (''image_thumbnail'', thumbnail_handler env), (''image_watermark'', watermark_handler env)]"

section \<open>Lemmas\<close>

subsection \<open>Painting\<close>

text \<open>A loop body that sets each pixel to a colour that depends on its place and its old colour.\<close>

definition paint :: "(gcolor \<Rightarrow> gcolor) \<Rightarrow> (int \<Rightarrow> int \<Rightarrow> gcolor \<Rightarrow> gcolor) \<Rightarrow> int \<Rightarrow> int \<Rightarrow> image \<Rightarrow> image" where
  "paint cv g x y im = image_Set cv x y (g x y (im_pix im x y)) im"

lemma paint_simps [simp]:
  "im_Bounds (paint cv g x y im) = im_Bounds im" "im_zero (paint cv g x y im) = im_zero im"
  "im_pix (paint cv g x y im) x' y' =
     (if x' = x \<and> y' = y \<and> in_rect x y (im_Bounds im) then cv (g x y (im_pix im x y)) else im_pix im x' y')"
  by (auto simp: paint_def image_Set_def)

lemma paint_row:
  "distinct xs \<Longrightarrow> im_Bounds (fold (\<lambda>x. paint cv g x y) xs im) = im_Bounds im \<and>
    im_zero (fold (\<lambda>x. paint cv g x y) xs im) = im_zero im \<and>
    im_pix (fold (\<lambda>x. paint cv g x y) xs im) x' y' =
      (if x' \<in> set xs \<and> y' = y \<and> in_rect x' y (im_Bounds im) then cv (g x' y (im_pix im x' y)) else im_pix im x' y')"
  by (induction xs arbitrary: im) auto

lemma paint_rows:
  "distinct xs \<Longrightarrow> distinct ys \<Longrightarrow> im_Bounds (for_rows ys xs (paint cv g) im) = im_Bounds im \<and>
    im_zero (for_rows ys xs (paint cv g) im) = im_zero im \<and>
    im_pix (for_rows ys xs (paint cv g) im) x' y' =
      (if x' \<in> set xs \<and> y' \<in> set ys \<and> in_rect x' y' (im_Bounds im) then cv (g x' y' (im_pix im x' y')) else im_pix im x' y')"
  unfolding for_rows_def
  by (induction ys arbitrary: im) (auto simp: paint_row)

lemma image_Set_paint: "(\<lambda>x y im. image_Set cv x y (c x y) im) = paint cv (\<lambda>x y _. c x y)"
  by (simp add: paint_def fun_eq_iff)

lemma image_At_inside: "in_rect x y (im_Bounds im) \<Longrightarrow> image_At im x y = im_pix im x y"
  by (simp add: image_At_def)

subsection \<open>Resizing\<close>

text \<open>Where the pixel \<open>x\<close> of a side that was resized from \<open>n\<close> to \<open>m\<close> comes from.\<close>

lemma source_coordinate:
  assumes "0 \<le> x" and "x < m" and "0 \<le> n" and "m * n < 2 ^ 63"
  shows "wrap64 (x * n) sdiv m = x * n div m" and "0 < n \<Longrightarrow> 0 \<le> x * n div m \<and> x * n div m < n"
proof -
  have pos: "0 \<le> x * n" "0 < m" using assms by simp_all
  have "x * n \<le> m * n" using assms by (intro mult_right_mono) simp_all
  with assms(4) pos have "in64 (x * n)" by (simp add: in64_def)
  then show "wrap64 (x * n) sdiv m = x * n div m"
    using pos by (simp add: wrap64_id signed_divide_int_def sgn_if)
  show "0 < n \<Longrightarrow> 0 \<le> x * n div m \<and> x * n div m < n"
  proof
    assume "0 < n"
    show "0 \<le> x * n div m" using pos by (simp add: pos_imp_zdiv_nonneg_iff)
    have "x * n < n * m" using assms \<open>0 < n\<close> by (simp add: mult.commute)
    moreover have "m * (x * n div m) \<le> x * n"
      using mult_div_mod_eq [of m "x * n"] pos_mod_sign [OF pos(2), of "x * n"] by linarith
    ultimately have "m * (x * n div m) < m * n" by (simp add: mult.commute)
    then show "x * n div m < n" using pos(2) by simp
  qed
qed

text \<open>The bounds of an image that fit Go's integers.\<close>

definition bounds_fit :: "rect \<Rightarrow> bool" where
  "bounds_fit r \<longleftrightarrow> - (2 ^ 31) \<le> MinX r \<and> MinX r \<le> MaxX r \<and> MaxX r < 2 ^ 31 \<and>
     - (2 ^ 31) \<le> MinY r \<and> MinY r \<le> MaxY r \<and> MaxY r < 2 ^ 31"

lemma resize_pixel:
  assumes img: "im_Bounds img = b" "bounds_fit b" and size: "0 < w" "0 < h"
    and dims: "w * (MaxX b - MinX b) < 2 ^ 63" "h * (MaxY b - MinY b) < 2 ^ 63"
    and src: "MinX b < MaxX b" "MinY b < MaxY b"
    and x: "0 \<le> x" "x < w" and y: "0 \<le> y" "y < h"
  defines "sx \<equiv> x * (MaxX b - MinX b) div w + MinX b" and "sy \<equiv> y * (MaxY b - MinY b) div h + MinY b"
  shows "in_rect sx sy b" and "im_pix (resizeImage img w h) x y = RGBAModel_Convert (im_pix img sx sy)"
proof -
  have width: "wrap64 (MaxX b - MinX b) = MaxX b - MinX b" "wrap64 (MaxY b - MinY b) = MaxY b - MinY b"
    using img(2) by (simp_all add: bounds_fit_def wrap64_id in64_def)
  from source_coordinate [OF x _ dims(1)] src
  have cx: "wrap64 (x * (MaxX b - MinX b)) sdiv w = x * (MaxX b - MinX b) div w"
    "0 \<le> x * (MaxX b - MinX b) div w" "x * (MaxX b - MinX b) div w < MaxX b - MinX b" by simp_all
  from source_coordinate [OF y _ dims(2)] src
  have cy: "wrap64 (y * (MaxY b - MinY b)) sdiv h = y * (MaxY b - MinY b) div h"
    "0 \<le> y * (MaxY b - MinY b) div h" "y * (MaxY b - MinY b) div h < MaxY b - MinY b" by simp_all
  show inside: "in_rect sx sy b" using cx cy by (simp add: in_rect_def sx_def sy_def)
  have "wrap64 sx = sx" "wrap64 sy = sy"
    using img(2) inside by (simp_all add: bounds_fit_def in_rect_def wrap64_id in64_def)
  moreover have "im_pix (resizeImage img w h) x y = RGBAModel_Convert
      (image_At img (wrap64 (wrap64 (x * (MaxX b - MinX b)) sdiv w + MinX b)) (wrap64 (wrap64 (y * (MaxY b - MinY b)) sdiv h + MinY b)))"
    using x y size
    by (simp add: resizeImage_def Let_def image_Set_paint paint_rows img(1) width in_rect_def image_Rect_def NewRGBA_def)
  ultimately show "im_pix (resizeImage img w h) x y = RGBAModel_Convert (im_pix img sx sy)"
    using inside cx(1) cy(1) img(1) by (simp add: sx_def sy_def image_At_def)
qed

lemma resize_bounds: "0 \<le> w \<Longrightarrow> 0 \<le> h \<Longrightarrow> im_Bounds (resizeImage img w h) = \<lparr>MinX = 0, MinY = 0, MaxX = w, MaxY = h\<rparr>"
  by (simp add: resizeImage_def Let_def image_Set_paint paint_rows NewRGBA_def image_Rect_def)

subsection \<open>Watermarks\<close>

definition is_RGBA :: "gcolor \<Rightarrow> bool" where
  "is_RGBA c \<longleftrightarrow> (\<exists>r g b a. c = RGBA r g b a)"

fun halve :: "gcolor \<Rightarrow> gcolor" where
  "halve (RGBA r g b a) = RGBA (r div 2) (g div 2) (b div 2) 255"
| "halve c = c"

definition rgba_image :: "image \<Rightarrow> bool" where
  "rgba_image im \<longleftrightarrow> im_zero im = RGBA 0 0 0 0 \<and> (\<forall>x y. is_RGBA (im_pix im x y))"

lemma is_RGBA_Convert [simp]: "is_RGBA (RGBAModel_Convert c)"
  by (simp add: is_RGBA_def RGBAModel_Convert_def split: gcolor.split prod.split)

lemma RGBAModel_Convert_id: "is_RGBA c \<Longrightarrow> RGBAModel_Convert c = c"
  by (auto simp: is_RGBA_def RGBAModel_Convert_def)

lemma darken_paint:
  assumes "rgba_image im"
  shows "darken x y (Some im) = Some (paint RGBAModel_Convert (\<lambda>_ _. halve) x y im)"
    and "rgba_image (paint RGBAModel_Convert (\<lambda>_ _. halve) x y im)"
proof -
  obtain r g b a where p: "im_pix im x y = RGBA r g b a" using assms unfolding rgba_image_def is_RGBA_def by blast
  show "darken x y (Some im) = Some (paint RGBAModel_Convert (\<lambda>_ _. halve) x y im)"
    using assms p by (auto simp: darken_def image_At_def paint_def image_Set_def rgba_image_def)
  show "rgba_image (paint RGBAModel_Convert (\<lambda>_ _. halve) x y im)"
    using assms by (simp add: rgba_image_def)
qed

lemma darken_row:
  "rgba_image im \<Longrightarrow> fold (\<lambda>x. darken x y) xs (Some im) = Some (fold (\<lambda>x. paint RGBAModel_Convert (\<lambda>_ _. halve) x y) xs im) \<and>
    rgba_image (fold (\<lambda>x. paint RGBAModel_Convert (\<lambda>_ _. halve) x y) xs im)"
  by (induction xs arbitrary: im) (simp_all add: darken_paint)

lemma darken_rows:
  "rgba_image im \<Longrightarrow> for_rows ys xs darken (Some im) = Some (for_rows ys xs (paint RGBAModel_Convert (\<lambda>_ _. halve)) im) \<and>
    rgba_image (for_rows ys xs (paint RGBAModel_Convert (\<lambda>_ _. halve)) im)"
  unfolding for_rows_def by (induction ys arbitrary: im) (simp_all add: darken_row)

lemma addWatermark_pixels:
  assumes b: "im_Bounds img = b" "bounds_fit b"
  shows "\<exists>im. addWatermark img = Some im \<and> im_Bounds im = b \<and>
    (\<forall>x y. in_rect x y b \<longrightarrow> im_pix im x y =
       (if MaxY b - 30 \<le> y then halve (RGBAModel_Convert (im_pix img x y)) else RGBAModel_Convert (im_pix img x y)))"
proof -
  let ?ys = "[MinY b .. MaxY b - 1]" and ?xs = "[MinX b .. MaxX b - 1]"
  let ?copy = "for_rows ?ys ?xs (\<lambda>x y im. image_Set RGBAModel_Convert x y (image_At img x y) im) (NewRGBA b)"
  let ?im = "for_rows [MaxY b - 30 .. MaxY b - 1] ?xs (paint RGBAModel_Convert (\<lambda>_ _. halve)) ?copy"
  have rows: "wrap64 (MaxY b - 30) = MaxY b - 30" using b(2) by (simp add: bounds_fit_def wrap64_id in64_def)
  have copy: "im_Bounds ?copy = b" "im_zero ?copy = RGBA 0 0 0 0"
    "im_pix ?copy x y = (if in_rect x y b then RGBAModel_Convert (im_pix img x y) else RGBA 0 0 0 0)" for x y
    by (auto simp: image_Set_paint paint_rows NewRGBA_def in_rect_def image_At_def b(1))
  then have "rgba_image ?copy" by (auto simp: rgba_image_def is_RGBA_def [of "RGBA 0 0 0 0"])
  then have "addWatermark img = Some ?im"
    using darken_rows by (simp add: addWatermark_def Let_def b(1) rows)
  moreover have "is_RGBA (halve c)" if "is_RGBA c" for c using that by (auto simp: is_RGBA_def)
  then have "im_pix ?im x y = (if MaxY b - 30 \<le> y then halve (RGBAModel_Convert (im_pix img x y))
      else RGBAModel_Convert (im_pix img x y))" if "in_rect x y b" for x y
    using that by (simp add: paint_rows copy RGBAModel_Convert_id) (auto simp: in_rect_def)
  moreover have "im_Bounds ?im = b" by (simp add: paint_rows copy)
  ultimately show ?thesis by blast
qed

subsection \<open>Grey levels\<close>

lemma unat_8: "unat (c :: 8 word) < 256"
  using unsigned_less [of c, where 'a = nat] by simp

lemma widen_value: "widen c = of_nat (257 * unat c)"
proof -
  let ?r = "ucast c :: 32 word"
  have "?r + push_bit 8 ?r = ?r OR push_bit 8 ?r"
    by (rule disjunctive_add) (auto simp: bit_simps dest: bit_imp_le_length)
  moreover have "push_bit 8 ?r = 256 * ?r" by (simp add: push_bit_eq_mult mult.commute)
  ultimately have "widen c = 257 * ?r" by (simp add: widen_def Let_def)
  also have "?r = of_nat (unat c)" by simp
  finally show ?thesis by simp
qed

lemma gray_level: "GrayModel_Convert (RGBA v v v a) = Gray v"
proof -
  define k where "k = unat v"
  define x where "x = 19595 * widen v + 38470 * widen v + 7471 * widen v + push_bit 15 1"
  have k: "k < 256" using unat_8 by (simp add: k_def)
  have "x = of_nat (65536 * (257 * k) + 32768)"
    unfolding x_def k_def by (simp add: widen_value push_bit_eq_mult flip: distrib_right)
  moreover have "65536 * (257 * k) + 32768 < 2 ^ LENGTH(32)" using k by simp
  ultimately have "unat x = 65536 * (257 * k) + 32768" by (rule of_nat_inverse [OF sym])
  then have "unat (drop_bit 24 x) = drop_bit 24 (65536 * (257 * k) + 32768)"
    by (simp only: unat_drop_bit_eq)
  also have "\<dots> = (65536 * (257 * k) + 32768) div 2 ^ 24" by (simp only: drop_bit_eq_div)
  also have "\<dots> = k" using k by simp
  finally have "of_nat (unat (drop_bit 24 x)) = (of_nat k :: 8 word)" by (rule arg_cong)
  then have "ucast (drop_bit 24 x) = (of_nat k :: 8 word)" by simp
  then show ?thesis by (simp add: GrayModel_Convert_def x_def k_def)
qed

lemma GrayModel_twice [simp]: "GrayModel_Convert (GrayModel_Convert c) = GrayModel_Convert c"
  by (simp add: GrayModel_Convert_def split: gcolor.split prod.split)

lemma grayscale_pixels:
  "im_Bounds (convertToGrayscale img) = im_Bounds img \<and>
   (in_rect x y (im_Bounds img) \<longrightarrow> im_pix (convertToGrayscale img) x y = GrayModel_Convert (im_pix img x y))"
  by (simp add: convertToGrayscale_def Let_def image_Set_paint paint_rows NewGray_def image_At_def)
     (auto simp: in_rect_def)

subsection \<open>Handlers\<close>

lemma saveImage_ok:
  "ie_create env path = None \<Longrightarrow> fst (ie_png_Encode env img) = None \<Longrightarrow>
    saveImage env path img fs = (None, fs(path \<mapsto> snd (ie_png_Encode env img)))"
  by (cases "ie_png_Encode env img") (simp add: saveImage_def)

lemma with_image_ok:
  assumes "unmarshal_map payload = Inr data"
    and "assert_string (map_of data ''input_path'') = Some inp" and "assert_string (map_of data ''output_path'') = Some out"
    and "op data = Some f" and "loadImage env inp fs = Inr img" and "f img = Some img'"
    and "ie_create env out = None" and "fst (ie_png_Encode env img') = None"
  shows "with_image env op payload fs =
    Some (Inr (GJson (JObj [(''output'', JStr out)])), fs(out \<mapsto> snd (ie_png_Encode env img')))"
  using assms by (simp add: with_image_def saveImage_ok)

lemma with_image_panics:
  assumes "unmarshal_map payload = Inr data"
    and "assert_string (map_of data ''input_path'') = None \<or> assert_string (map_of data ''output_path'') = None"
  shows "with_image env op payload fs = None"
  using assms by (auto simp: with_image_def split: option.split)

text \<open>An environment for the instances: a file is the image itself.\<close>

definition plain_images :: "image image_env" where
  "plain_images = \<lparr>ie_png_Decode = Inr, ie_jpeg_Decode = Inr, ie_png_Encode = (\<lambda>im. (None, im)), ie_create = (\<lambda>_. None),
     ie_rounding = id, ie_parse_float = (\<lambda>_. 0)\<rparr>"

definition dot :: image where
  "dot = createSampleImage 2 2 1"

lemma dot_Bounds: "im_Bounds dot = \<lparr>MinX = 0, MinY = 0, MaxX = 2, MaxY = 2\<rparr>"
  by (simp add: dot_def createSampleImage_def Let_def image_Set_paint paint_rows NewRGBA_def image_Rect_def)

section \<open>Properties\<close>

text \<open>C27: 
  The resized image has the wanted size, and its pixel \<open>(x, y)\<close> is the pixel of the source at
  \<open>(x * srcWidth / width, y * srcHeight / height)\<close>, counted from the corner of the source,
  which lies within the bounds of the source: the loop never samples outside. Resizing to the
  size of the source keeps every pixel.
\<close>

theorem resize_samples_inside:
  assumes "im_Bounds img = b" and "bounds_fit b" and "MinX b < MaxX b" and "MinY b < MaxY b"
    and "0 < w" and "w < 2 ^ 31" and "0 < h" and "h < 2 ^ 31"
    and "0 \<le> x" and "x < w" and "0 \<le> y" and "y < h"
  shows "im_Bounds (resizeImage img w h) = \<lparr>MinX = 0, MinY = 0, MaxX = w, MaxY = h\<rparr> \<and>
    (let sx = x * (MaxX b - MinX b) div w + MinX b; sy = y * (MaxY b - MinY b) div h + MinY b
     in in_rect sx sy b \<and> image_At (resizeImage img w h) x y = RGBAModel_Convert (image_At img sx sy) \<and>
        (w = MaxX b - MinX b \<and> h = MaxY b - MinY b \<longrightarrow> sx = x + MinX b \<and> sy = y + MinY b))"
proof -
  have small: "n * (c - a) < 2 ^ 63" if "0 < n" "n < 2 ^ 31" "- (2 ^ 31) \<le> a" "a \<le> c" "c < 2 ^ 31" for n a c :: int
  proof -
    have "n * (c - a) \<le> (2 ^ 31 - 1) * (2 ^ 32 - 1)" using that by (intro mult_mono) simp_all
    then show ?thesis by simp
  qed
  from assms have dims: "w * (MaxX b - MinX b) < 2 ^ 63" "h * (MaxY b - MinY b) < 2 ^ 63"
    using small [of w "MinX b" "MaxX b"] small [of h "MinY b" "MaxY b"] by (simp_all add: bounds_fit_def)
  note pix = resize_pixel [OF assms(1,2,5,7) dims assms(3,4,9-12)]
  have bounds: "im_Bounds (resizeImage img w h) = \<lparr>MinX = 0, MinY = 0, MaxX = w, MaxY = h\<rparr>"
    using assms by (simp add: resize_bounds)
  then have "in_rect x y (im_Bounds (resizeImage img w h))" using assms by (simp add: in_rect_def)
  with pix bounds assms(1,5,7) show ?thesis by (simp add: Let_def image_At_def)
qed

theorem resize_samples_inside_witness:
  "im_Bounds (resizeImage dot 3 4) = \<lparr>MinX = 0, MinY = 0, MaxX = 3, MaxY = 4\<rparr> \<and>
   image_At (resizeImage dot 3 4) 2 1 = RGBAModel_Convert (image_At dot 1 0)"
  using resize_samples_inside [OF dot_Bounds, of 3 4 2 1] by (simp add: bounds_fit_def Let_def)

text \<open>
  The watermark never panics on the colour of a pixel, whatever image was decoded, and also
  for images with less than 30 rows. It keeps the size; the rows above the last 30 are those
  of the source, in the last 30 each channel is halved and the pixel is opaque.
\<close>

theorem watermark_darkens_last_rows:
  assumes "im_Bounds img = b" and "bounds_fit b"
  shows "\<exists>im. addWatermark img = Some im \<and> im_Bounds im = b \<and>
    (\<forall>x y. in_rect x y b \<longrightarrow>
       (\<exists>r g bl a. RGBAModel_Convert (image_At img x y) = RGBA r g bl a \<and>
          image_At im x y = (if MaxY b - 30 \<le> y then RGBA (r div 2) (g div 2) (bl div 2) 255 else RGBA r g bl a)))"
proof -
  from addWatermark_pixels [OF assms] obtain im where im: "addWatermark img = Some im" "im_Bounds im = b"
    "\<And>x y. in_rect x y b \<Longrightarrow> im_pix im x y =
       (if MaxY b - 30 \<le> y then halve (RGBAModel_Convert (im_pix img x y)) else RGBAModel_Convert (im_pix img x y))"
    by blast
  have "\<exists>r g bl a. RGBAModel_Convert (image_At img x y) = RGBA r g bl a \<and>
      image_At im x y = (if MaxY b - 30 \<le> y then RGBA (r div 2) (g div 2) (bl div 2) 255 else RGBA r g bl a)"
    if "in_rect x y b" for x y
    using is_RGBA_Convert [of "im_pix img x y"] im(2,3) that assms(1) by (auto simp: image_At_def is_RGBA_def)
  with im show ?thesis by blast
qed

theorem watermark_darkens_last_rows_witness:
  "\<exists>im. addWatermark dot = Some im \<and> im_Bounds im = \<lparr>MinX = 0, MinY = 0, MaxX = 2, MaxY = 2\<rparr>"
  using watermark_darkens_last_rows [OF dot_Bounds] by (auto simp: bounds_fit_def)

text \<open>
  The grey image has the bounds of the source; a pixel with three equal channels keeps its
  level exactly, in spite of the rounding in the 32-bit weighted sum, and converting a second
  time changes nothing.
\<close>

theorem grayscale_keeps_grey:
  assumes "in_rect x y (im_Bounds img)"
  shows "im_Bounds (convertToGrayscale img) = im_Bounds img \<and>
    (\<forall>v a. image_At img x y = RGBA v v v a \<longrightarrow> image_At (convertToGrayscale img) x y = Gray v) \<and>
    image_At (convertToGrayscale (convertToGrayscale img)) x y = image_At (convertToGrayscale img) x y"
proof -
  note g = grayscale_pixels [of img x y] grayscale_pixels [of "convertToGrayscale img" x y]
  then have "im_Bounds (convertToGrayscale img) = im_Bounds img"
    "im_Bounds (convertToGrayscale (convertToGrayscale img)) = im_Bounds img" by simp_all
  with g assms show ?thesis by (simp add: image_At_def gray_level)
qed

theorem grayscale_keeps_grey_witness:
  "image_At (convertToGrayscale (convertToGrayscale dot)) 1 1 = image_At (convertToGrayscale dot) 1 1"
  using grayscale_keeps_grey [of 1 1 dot] by (simp add: dot_Bounds in_rect_def)

text \<open>
  Each of the four handlers, given a payload with both paths (and numbers for the size, where
  it is to resize) and an image it can read, writes the processed image to the output path,
  changes no other file and answers with the output path. Without one of the paths the type
  assertion panics; no code of the worker recovers from it.
\<close>

theorem image_handlers:
  assumes h: "(ty, h) \<in> set (registerHandlers env)" and data: "unmarshal_map payload = Inr data"
  shows "(assert_string (map_of data ''input_path'') = None \<or> assert_string (map_of data ''output_path'') = None \<longrightarrow>
       h payload fs = None) \<and>
    (\<forall>inp out img. assert_string (map_of data ''input_path'') = Some inp \<and> assert_string (map_of data ''output_path'') = Some out \<and>
       (ty = ''image_resize'' \<longrightarrow> assert_float env (map_of data ''width'') \<noteq> None \<and> assert_float env (map_of data ''height'') \<noteq> None) \<and>
       loadImage env inp fs = Inr img \<and> bounds_fit (im_Bounds img) \<and> ie_create env out = None \<and>
       (\<forall>im. fst (ie_png_Encode env im) = None) \<longrightarrow>
       (\<exists>img'. h payload fs = Some (Inr (GJson (JObj [(''output'', JStr out)])), fs(out \<mapsto> snd (ie_png_Encode env img')))))"
proof (intro conjI allI impI)
  assume "assert_string (map_of data ''input_path'') = None \<or> assert_string (map_of data ''output_path'') = None"
  then show "h payload fs = None"
    using h with_image_panics [OF data]
    by (auto simp: registerHandlers_def grayscale_handler_def resize_handler_def thumbnail_handler_def watermark_handler_def)
next
  fix inp out img
  assume a: "assert_string (map_of data ''input_path'') = Some inp \<and> assert_string (map_of data ''output_path'') = Some out \<and>
       (ty = ''image_resize'' \<longrightarrow> assert_float env (map_of data ''width'') \<noteq> None \<and> assert_float env (map_of data ''height'') \<noteq> None) \<and>
       loadImage env inp fs = Inr img \<and> bounds_fit (im_Bounds img) \<and> ie_create env out = None \<and>
       (\<forall>im. fst (ie_png_Encode env im) = None)"
  have run: "\<exists>img'. with_image env op payload fs =
      Some (Inr (GJson (JObj [(''output'', JStr out)])), fs(out \<mapsto> snd (ie_png_Encode env img')))"
    if "op data = Some f" "f img = Some im" for op f im
    using with_image_ok [of payload data inp out op f env fs img im] data a that by (intro exI [of _ im]) simp
  obtain im where "addWatermark img = Some im" using addWatermark_pixels [OF refl, of img] a by blast
  with h a show "\<exists>img'. h payload fs =
      Some (Inr (GJson (JObj [(''output'', JStr out)])), fs(out \<mapsto> snd (ie_png_Encode env img')))"
    by (auto simp: registerHandlers_def grayscale_handler_def resize_handler_def thumbnail_handler_def watermark_handler_def intro!: run)
qed

theorem image_handlers_witness:
  "watermark_handler plain_images (Doc (JObj [(''input_path'', JStr ''a'')])) [''a'' \<mapsto> dot] = None \<and>
   (\<exists>img'. watermark_handler plain_images (Doc (JObj [(''input_path'', JStr ''a''), (''output_path'', JStr ''b'')])) [''a'' \<mapsto> dot] =
     Some (Inr (GJson (JObj [(''output'', JStr ''b'')])), [''a'' \<mapsto> dot](''b'' \<mapsto> img')))"
proof -
  have h: "(''image_watermark'', watermark_handler plain_images) \<in> set (registerHandlers plain_images)"
    by (simp add: registerHandlers_def)
  show ?thesis
    using image_handlers [OF h, of "Doc (JObj [(''input_path'', JStr ''a'')])" _ "[''a'' \<mapsto> dot]"]
      image_handlers [OF h, of "Doc (JObj [(''input_path'', JStr ''a''), (''output_path'', JStr ''b'')])" _ "[''a'' \<mapsto> dot]"]
    by (simp add: map_put_def plain_images_def loadImage_def dot_Bounds bounds_fit_def)
qed

end
