(* ===== verification/Spool_Instrumented.thy ===== *)
theory Spool_Instrumented
  imports Spool_Lifecycle Spool_Metrics
begin

text \<open>
  \<open>internal/worker/instrumented.go\<close>: a worker whose counters are copied into the metrics by a
  goroutine that ticks every 100 milliseconds, and a fixed pool of such workers. The metrics
  object is threaded through the operations.
\<close>

section \<open>Definitions\<close>

record 's InstrumentedWorker =
  iw_worker :: "'s Worker"
  iw_stats :: worker_stats
  iw_life :: life
  iw_lastProcessed :: int
  iw_lastFailed :: int
  iw_stopClosed :: bool \<comment> \<open>\<open>stopStatsSyncChan\<close> is closed\<close>

definition NewInstrumentedWorker :: "'s Worker \<Rightarrow> worker_stats \<Rightarrow> life \<Rightarrow> 's InstrumentedWorker" where
  "NewInstrumentedWorker w s l =
     \<lparr>iw_worker = w, iw_stats = s, iw_life = l, iw_lastProcessed = 0, iw_lastFailed = 0, iw_stopClosed = False\<rparr>"

definition IW_Start :: "'s InstrumentedWorker \<Rightarrow> 's Metrics \<Rightarrow> ('s, gerr option \<times> 's InstrumentedWorker \<times> 's Metrics) io" where
  "IW_Start iw m = do {
     m \<leftarrow> RegisterWorker (wk_id (iw_worker iw)) m;
     (case Worker_Start (iw_life iw) of (e, l) \<Rightarrow> ret (e, iw\<lparr>iw_life := l\<rparr>, m))
   }"

text \<open>The loops over the tasks that were completed and that failed since the last tick.\<close>

primrec record_completed :: "rounding \<Rightarrow> string \<Rightarrow> nat \<Rightarrow> 's Metrics \<Rightarrow> ('s, 's Metrics) io" where
  "record_completed rnd i 0 m = ret m"
| "record_completed rnd i (Suc n) m = do {
     let duration = 100 * Millisecond;
     m \<leftarrow> RecordTaskCompleted rnd duration m;
     record_completed rnd i n (RecordWorkerTaskCompleted i duration True m)
   }"

primrec record_failed :: "string \<Rightarrow> nat \<Rightarrow> 's Metrics \<Rightarrow> 's Metrics" where
  "record_failed i 0 m = m"
| "record_failed i (Suc n) m = record_failed i n (RecordWorkerTaskCompleted i (50 * Millisecond) False m)"

text \<open>One tick of \<open>syncStatsLoop\<close>.\<close>

definition sync_stats :: "rounding \<Rightarrow> 's InstrumentedWorker \<Rightarrow> 's Metrics \<Rightarrow> ('s, 's InstrumentedWorker \<times> 's Metrics) io" where
  "sync_stats rnd iw m =
     (let (processed, failed, _) = Worker_Stats (iw_stats iw); i = wk_id (iw_worker iw)
      in if IsRunning (iw_life iw) then
           (let newTasks = wrap64 (processed - iw_lastProcessed iw); newFailures = wrap64 (failed - iw_lastFailed iw)
            in if newTasks > 0 \<or> newFailures > 0 then do {
                 m \<leftarrow> record_completed rnd i (nat newTasks) m;
                 let m = record_failed i (nat newFailures) m;
                 m \<leftarrow> MarkWorkerIdle i m;
                 ret (iw\<lparr>iw_lastProcessed := processed, iw_lastFailed := failed\<rparr>, m)
               }
               else ret (iw, m))
         else ret (iw, m))"

text \<open>The loop on a list of choices of its \<open>select\<close>.\<close>

fun syncStatsLoop :: "select_case list \<Rightarrow> rounding \<Rightarrow> 's InstrumentedWorker \<Rightarrow> 's Metrics \<Rightarrow> ('s, 's InstrumentedWorker \<times> 's Metrics) io" where
  "syncStatsLoop [] rnd iw m = ret (iw, m)"
| "syncStatsLoop (CtxDone # cs) rnd iw m = ret (iw, m)"
| "syncStatsLoop (ShutdownSignal # cs) rnd iw m = ret (iw, m)"
| "syncStatsLoop (Tick # cs) rnd iw m = do { x \<leftarrow> sync_stats rnd iw m; syncStatsLoop cs rnd (fst x) (snd x) }"

text \<open>\<open>Worker.Stop\<close> as a whole: it returns when the loop has ended.\<close>

definition Worker_Stop :: "life \<Rightarrow> gerr option \<times> life" where
  "Worker_Stop l =
     (case Stop_lock l of
        (Some e, l) \<Rightarrow> (Some e, l)
      | (None, l) \<Rightarrow> (let l = Stop_close l in (None, (drain_one ^^ drain_left l) l)))"

text \<open>\<open>Worker.Shutdown\<close>: the same, or it gives up when the context ends.\<close>

definition Worker_Shutdown :: "ctx \<Rightarrow> life \<Rightarrow> gerr option \<times> life" where
  "Worker_Shutdown c l =
     (case Stop_lock l of
        (Some e, l) \<Rightarrow> (Some e, l)
      | (None, l) \<Rightarrow>
        (let l = Stop_close l
         in case ctx_Err c of Some e \<Rightarrow> (Some e, l) | None \<Rightarrow> (None, (drain_one ^^ drain_left l) l)))"

text \<open>\<open>None\<close>: the call panics, closing a closed channel.\<close>

definition IW_Stop :: "'s InstrumentedWorker \<Rightarrow> 's Metrics \<Rightarrow> (gerr option \<times> 's InstrumentedWorker \<times> 's Metrics) option" where
  "IW_Stop iw m =
     (if iw_stopClosed iw then None
      else
        (case Worker_Stop (iw_life iw) of
           (e, l) \<Rightarrow> if lf_panicked l then None
             else Some (e, iw\<lparr>iw_stopClosed := True, iw_life := l\<rparr>, UnregisterWorker (wk_id (iw_worker iw)) m)))"

definition IW_Shutdown :: "ctx \<Rightarrow> 's InstrumentedWorker \<Rightarrow> 's Metrics \<Rightarrow> (gerr option \<times> 's InstrumentedWorker \<times> 's Metrics) option" where
  "IW_Shutdown c iw m =
     (if iw_stopClosed iw then None
      else
        (case Worker_Shutdown c (iw_life iw) of
           (e, l) \<Rightarrow> if lf_panicked l then None
             else Some (e, iw\<lparr>iw_stopClosed := True, iw_life := l\<rparr>, UnregisterWorker (wk_id (iw_worker iw)) m)))"

definition IW_GetID :: "'s InstrumentedWorker \<Rightarrow> string" where
  "IW_GetID iw = Worker_ID (iw_worker iw)"

definition IW_GetWorker :: "'s InstrumentedWorker \<Rightarrow> 's Worker" where
  "IW_GetWorker iw = iw_worker iw"

definition IW_Stats :: "'s InstrumentedWorker \<Rightarrow> int \<times> int \<times> int" where
  "IW_Stats iw = Worker_Stats (iw_stats iw)"

definition IW_IsRunning :: "'s InstrumentedWorker \<Rightarrow> bool" where
  "IW_IsRunning iw = IsRunning (iw_life iw)"

subsection \<open>The pool\<close>

type_synonym 's InstrumentedPool = "'s InstrumentedWorker list"

text \<open>Each loop stops at the first error; the workers before it keep their new state.\<close>

fun StartAll :: "'s InstrumentedPool \<Rightarrow> 's Metrics \<Rightarrow> ('s, gerr option \<times> 's InstrumentedPool \<times> 's Metrics) io" where
  "StartAll [] m = ret (None, [], m)"
| "StartAll (iw # iws) m = do {
     x \<leftarrow> IW_Start iw m;
     (case x of
        (Some e, iw', m') \<Rightarrow> ret (Some e, iw' # iws, m')
      | (None, iw', m') \<Rightarrow> do { y \<leftarrow> StartAll iws m'; ret (fst y, iw' # fst (snd y), snd (snd y)) })
   }"

fun StopAll :: "'s InstrumentedPool \<Rightarrow> 's Metrics \<Rightarrow> (gerr option \<times> 's InstrumentedPool \<times> 's Metrics) option" where
  "StopAll [] m = Some (None, [], m)"
| "StopAll (iw # iws) m =
     (case IW_Stop iw m of
        None \<Rightarrow> None
      | Some (Some e, iw', m') \<Rightarrow> Some (Some e, iw' # iws, m')
      | Some (None, iw', m') \<Rightarrow> map_option (\<lambda>(e, iws', m''). (e, iw' # iws', m'')) (StopAll iws m'))"

fun ShutdownAll :: "ctx \<Rightarrow> 's InstrumentedPool \<Rightarrow> 's Metrics \<Rightarrow> (gerr option \<times> 's InstrumentedPool \<times> 's Metrics) option" where
  "ShutdownAll c [] m = Some (None, [], m)"
| "ShutdownAll c (iw # iws) m =
     (case IW_Shutdown c iw m of
        None \<Rightarrow> None
      | Some (Some e, iw', m') \<Rightarrow> Some (Some e, iw' # iws, m')
      | Some (None, iw', m') \<Rightarrow> map_option (\<lambda>(e, iws', m''). (e, iw' # iws', m'')) (ShutdownAll c iws m'))"

definition IP_Size :: "'s InstrumentedPool \<Rightarrow> int" where
  "IP_Size iws = int (length iws)"

section \<open>Lemmas\<close>

lemma RecordWorkerTaskCompleted_counts [simp]:
  "m_tasksProcessed (RecordWorkerTaskCompleted i d b m) = m_tasksProcessed m"
  "m_tasksInProgress (RecordWorkerTaskCompleted i d b m) = m_tasksInProgress m"
  "m_tasksFailed (RecordWorkerTaskCompleted i d b m) = m_tasksFailed m"
  by (simp_all add: RecordWorkerTaskCompleted_def Let_def split: option.split)

lemma RecordTaskCompleted_counts:
  assumes "run_state (RecordTaskCompleted rnd d m) w = (m', w')"
  shows "m_tasksProcessed m' = wrap64 (m_tasksProcessed m + 1)" "m_tasksInProgress m' = wrap32 (m_tasksInProgress m - 1)"
    "m_tasksFailed m' = m_tasksFailed m"
  using assms by (auto simp: RecordTaskCompleted_def updateThroughput_def run_simps Let_def split: if_splits)

lemma wrap_shift: "wrap64 (wrap64 x + y) = wrap64 (x + y)" "wrap32 (wrap32 x - y) = wrap32 (x - y)"
  by (simp_all add: wrap64_eq_sint wrap32_eq_sint)

lemma record_completed_counts:
  assumes "run_state (record_completed rnd i n m) w = (m', w')" and "in64 (m_tasksProcessed m)" and "in32 (m_tasksInProgress m)"
  shows "m_tasksProcessed m' = wrap64 (m_tasksProcessed m + int n) \<and>
    m_tasksInProgress m' = wrap32 (m_tasksInProgress m - int n) \<and> m_tasksFailed m' = m_tasksFailed m"
  using assms
proof (induction n arbitrary: m w)
  case 0
  then show ?case by (simp add: run_simps wrap64_id wrap32_id)
next
  case (Suc n)
  obtain m1 w1 where rec: "run_state (RecordTaskCompleted rnd (100 * Millisecond) m) w = (m1, w1)"
    by (cases "run_state (RecordTaskCompleted rnd (100 * Millisecond) m) w")
  from Suc.prems rec
  have "run_state (record_completed rnd i n (RecordWorkerTaskCompleted i (100 * Millisecond) True m1)) w1 = (m', w')"
    by (simp add: run_simps Let_def)
  from Suc.IH [OF this] RecordTaskCompleted_counts [OF rec] wrap64_range wrap32_range wrap_shift(1) [of "m_tasksProcessed m + 1" "int n"]
    wrap_shift(2) [of "m_tasksInProgress m - 1" "int n"] show ?case
    by (simp add: algebra_simps)
qed

lemma record_failed_counts [simp]:
  "m_tasksProcessed (record_failed i n m) = m_tasksProcessed m"
  "m_tasksInProgress (record_failed i n m) = m_tasksInProgress m" "m_tasksFailed (record_failed i n m) = m_tasksFailed m"
  by (induction n arbitrary: m) simp_all

lemma MarkWorkerIdle_counts:
  assumes "run_state (MarkWorkerIdle i m) w = (m', w')"
  shows "m_tasksProcessed m' = m_tasksProcessed m" "m_tasksInProgress m' = m_tasksInProgress m" "m_tasksFailed m' = m_tasksFailed m"
  using assms by (auto simp: MarkWorkerIdle_def run_simps Let_def split: if_splits option.splits)

section \<open>Properties\<close>

text \<open>A tick of the statistics loop of a running worker adds to the metrics every task completed since
  the last tick exactly once: a second tick with nothing new changes nothing. It also takes each of
  them off the number of tasks in progress, to which no instrumented worker ever adds, and it
  leaves the number of failed tasks alone.\<close>

theorem tick_counts_each_task_once:
  assumes "IsRunning (iw_life iw)" and "run_state (sync_stats rnd iw m) w = ((iw', m'), w')"
    and "0 \<le> tasksProcessed (iw_stats iw) - iw_lastProcessed iw" "tasksProcessed (iw_stats iw) - iw_lastProcessed iw < 2 ^ 63"
    and "0 \<le> tasksFailed (iw_stats iw) - iw_lastFailed iw" "tasksFailed (iw_stats iw) - iw_lastFailed iw < 2 ^ 63"
    and "in64 (m_tasksProcessed m)" and "in32 (m_tasksInProgress m)"
  shows "m_tasksProcessed m' = wrap64 (m_tasksProcessed m + (tasksProcessed (iw_stats iw) - iw_lastProcessed iw)) \<and>
    m_tasksInProgress m' = wrap32 (m_tasksInProgress m - (tasksProcessed (iw_stats iw) - iw_lastProcessed iw)) \<and>
    m_tasksFailed m' = m_tasksFailed m \<and>
    run_state (sync_stats rnd iw' m') w' = ((iw', m'), w')"
proof -
  let ?n = "tasksProcessed (iw_stats iw) - iw_lastProcessed iw" and ?f = "tasksFailed (iw_stats iw) - iw_lastFailed iw"
  have wrap: "wrap64 ?n = ?n" "wrap64 ?f = ?f" "wrap64 0 = 0" using assms(3-6) by (simp_all add: wrap64_id in64_def)
  show ?thesis
  proof (cases "0 < ?n \<or> 0 < ?f")
    case True
    obtain m1 w1 where r1: "run_state (record_completed rnd (wk_id (iw_worker iw)) (nat ?n) m) w = (m1, w1)" by fastforce
    obtain m2 w2 where r2: "run_state (MarkWorkerIdle (wk_id (iw_worker iw)) (record_failed (wk_id (iw_worker iw)) (nat ?f) m1)) w1 = (m2, w2)"
      by fastforce
    have res: "m' = m2" "iw' = iw\<lparr>iw_lastProcessed := tasksProcessed (iw_stats iw), iw_lastFailed := tasksFailed (iw_stats iw)\<rparr>"
      using assms(1,2) True r1 r2 by (simp_all add: sync_stats_def Worker_Stats_def wrap run_simps Let_def)
    have "run_state (sync_stats rnd iw' m') w' = ((iw', m'), w')"
      using assms(1) by (simp add: res sync_stats_def Worker_Stats_def wrap(3) run_simps Let_def)
    with res record_completed_counts [OF r1 assms(7,8)] MarkWorkerIdle_counts [OF r2] assms(3) show ?thesis by simp
  next
    case False
    with assms show ?thesis
      by (auto simp: sync_stats_def Worker_Stats_def wrap run_simps Let_def wrap64_id wrap32_id)
  qed
qed

theorem tick_counts_each_task_once_witness:
  "let m = fst (run_state (NewMetrics (RQ (redis_client first_pick))) (start_world empty_db));
       iw = NewInstrumentedWorker (WK (redis_client first_pick) ''a'' NewRegistry 1) \<lparr>tasksProcessed = 2, tasksFailed = 1, tasksRetried = 0\<rparr> (started ''a'');
       m' = snd (fst (run_state (sync_stats id iw m) (start_world empty_db)))
   in m_tasksProcessed m' = 2 \<and> m_tasksInProgress m' = - 2 \<and> m_tasksFailed m' = 0"
proof -
  let ?m = "fst (run_state (NewMetrics (RQ (redis_client first_pick))) (start_world empty_db))"
  let ?iw = "NewInstrumentedWorker (WK (redis_client first_pick) ''a'' NewRegistry 1) \<lparr>tasksProcessed = 2, tasksFailed = 1, tasksRetried = 0\<rparr> (started ''a'')"
  obtain iw' m' w' where run: "run_state (sync_stats id ?iw ?m) (start_world empty_db) = ((iw', m'), w')" by (metis prod.exhaust)
  have m: "m_tasksProcessed ?m = 0" "m_tasksInProgress ?m = 0" "m_tasksFailed ?m = 0" by (simp_all add: NewMetrics_def run_simps)
  have "IsRunning (iw_life ?iw)" by (simp add: NewInstrumentedWorker_def IsRunning_def life_runs)
  from tick_counts_each_task_once [OF this run] m
  have "m_tasksProcessed m' = wrap64 2 \<and> m_tasksInProgress m' = wrap32 (- 2) \<and> m_tasksFailed m' = 0"
    by (simp add: NewInstrumentedWorker_def in64_def in32_def)
  with run show ?thesis by (simp add: wrap64_def wrap32_def)
qed

end
