(* ===== verification/Spool_ImageDemo.thy ===== *)
theory Spool_ImageDemo
  imports Spool_Demos Spool_Images Spool_Instrumented
begin

text \<open>
  The rest of \<open>examples/image_processor/main.go\<close>: submitting the tasks, watching their progress,
  the final report, and \<open>main\<close>. The other goroutines run while \<open>main\<close> waits: what they do
  before its \<open>n\<close>-th tick is the parameter \<open>bg n\<close>.
\<close>

section \<open>Definitions\<close>

subsection \<open>Submitting\<close>

text \<open>One task; \<open>None\<close>: it could not be created, and the loop goes on with the next image.\<close>

definition submit_one ::
  "'s RedisQueue \<Rightarrow> string \<Rightarrow> string \<Rightarrow> json \<Rightarrow> priority \<Rightarrow> string list \<Rightarrow> ('s, string list option) io" where
  "submit_one q uuid taskType payload prio taskIDs = do {
     r \<leftarrow> task_NewTask uuid taskType (GJson payload);
     (case r of
        Inl err \<Rightarrow> ret None
      | Inr t \<Rightarrow> do {
          let t = WithPriority t prio;
          e \<leftarrow> Enqueue q Live (Some t);
          (case e of
             Some err \<Rightarrow> ret (Some taskIDs)
           | None \<Rightarrow> ret (Some (taskIDs @ [t_ID t])))
        })
   }"

definition out_path :: "string \<Rightarrow> string \<Rightarrow> nat \<Rightarrow> string" where
  "out_path outputDir kind i = path_Join outputDir (kind @ ''_'' @ show_int (int i + 1) @ ''.png'')"

text \<open>The payloads, as \<open>json.Marshal\<close> writes the maps; the text of the watermark is UTF-8.\<close>

definition paths_payload :: "string \<Rightarrow> string \<Rightarrow> json" where
  "paths_payload inp out = JObj [(''input_path'', JStr inp), (''output_path'', JStr out)]"

definition resize_payload :: "string \<Rightarrow> string \<Rightarrow> json" where
  "resize_payload inp out =
     JObj [(''height'', JNum 600), (''input_path'', JStr inp), (''output_path'', JStr out), (''width'', JNum 800)]"

definition watermark_payload :: "string \<Rightarrow> string \<Rightarrow> json" where
  "watermark_payload inp out =
     JObj [(''input_path'', JStr inp), (''output_path'', JStr out), (''text'', JStr ([CHR 0xC2, CHR 0xA9] @ '' Spool Demo''))]"

text \<open>The body of the loop for image \<open>i\<close>, whose tasks get the identifiers \<open>4 * i\<close> to \<open>4 * i + 3\<close>.\<close>

definition submit_image ::
  "'s RedisQueue \<Rightarrow> (nat \<Rightarrow> string) \<Rightarrow> string \<Rightarrow> nat \<Rightarrow> string \<Rightarrow> string list \<Rightarrow> ('s, string list) io" where
  "submit_image q uuids outputDir i imagePath taskIDs = do {
     r \<leftarrow> submit_one q (uuids (4 * i)) ''image_thumbnail''
       (paths_payload imagePath (out_path outputDir ''thumbnail'' i)) PriorityHigh taskIDs;
     (case r of None \<Rightarrow> ret taskIDs
      | Some taskIDs \<Rightarrow> do {
     r \<leftarrow> submit_one q (uuids (4 * i + 1)) ''image_grayscale''
       (paths_payload imagePath (out_path outputDir ''grayscale'' i)) PriorityNormal taskIDs;
     (case r of None \<Rightarrow> ret taskIDs
      | Some taskIDs \<Rightarrow> do {
     r \<leftarrow> submit_one q (uuids (4 * i + 2)) ''image_resize''
       (resize_payload imagePath (out_path outputDir ''resized'' i)) PriorityLow taskIDs;
     (case r of None \<Rightarrow> ret taskIDs
      | Some taskIDs \<Rightarrow> do {
     r \<leftarrow> submit_one q (uuids (4 * i + 3)) ''image_watermark''
       (watermark_payload imagePath (out_path outputDir ''watermarked'' i)) PriorityNormal taskIDs;
     (case r of None \<Rightarrow> ret taskIDs
      | Some taskIDs \<Rightarrow> ret taskIDs) }) }) }) }"

primrec submit_loop ::
  "'s RedisQueue \<Rightarrow> (nat \<Rightarrow> string) \<Rightarrow> string \<Rightarrow> nat \<Rightarrow> string list \<Rightarrow> string list \<Rightarrow> ('s, string list) io" where
  "submit_loop q uuids outputDir i [] taskIDs = ret taskIDs"
| "submit_loop q uuids outputDir i (imagePath # images) taskIDs = do {
     taskIDs \<leftarrow> submit_image q uuids outputDir i imagePath taskIDs;
     submit_loop q uuids outputDir (Suc i) images taskIDs
   }"

definition submitImageTasks ::
  "'s RedisQueue \<Rightarrow> (nat \<Rightarrow> string) \<Rightarrow> string list \<Rightarrow> string \<Rightarrow> ('s, string list) io" where
  "submitImageTasks q uuids images outputDir = submit_loop q uuids outputDir 0 images []"

subsection \<open>Progress and results\<close>

text \<open>The loop over the identifiers: completed and failed tasks, by their stored results.\<close>

primrec count_results :: "'s RedisStorage \<Rightarrow> string list \<Rightarrow> int \<Rightarrow> int \<Rightarrow> ('s, int \<times> int) io" where
  "count_results store [] completed failed = ret (completed, failed)"
| "count_results store (i # is) completed failed = do {
     r \<leftarrow> GetResult store Live i;
     (case r of
        Inl err \<Rightarrow> count_results store is completed failed
      | Inr result \<Rightarrow>
          if r_Success result then count_results store is (completed + 1) failed
          else if r_Error result \<noteq> [] then count_results store is completed (failed + 1)
          else count_results store is completed failed)
   }"

record progress =
  pg_completed :: int
  pg_failed :: int
  pg_processing :: int

datatype mon_event = MTick | MTimeout

text \<open>
  The events that the \<open>select\<close> receives, one after the other; the result is what was printed, and
  whether the function has returned.
\<close>

fun monitorTasks ::
  "(nat \<Rightarrow> ('s, unit) io) \<Rightarrow> 's RedisStorage \<Rightarrow> string list \<Rightarrow> nat \<Rightarrow> mon_event list \<Rightarrow> progress list \<Rightarrow>
     ('s, progress list \<times> bool) io" where
  "monitorTasks bg store taskIDs n [] out = ret (out, False)"
| "monitorTasks bg store taskIDs n (MTimeout # es) out = ret (out, True)"
| "monitorTasks bg store taskIDs n (MTick # es) out = do {
     _ \<leftarrow> bg n;
     (completed, failed) \<leftarrow> count_results store taskIDs 0 0;
     let processing = int (length taskIDs) - completed - failed;
     let out = out @ [\<lparr>pg_completed = completed, pg_failed = failed, pg_processing = processing\<rparr>];
     (if completed + failed = int (length taskIDs) then ret (out, True)
      else monitorTasks bg store taskIDs (Suc n) es out)
   }"

text \<open>
  The report: each line shows \<open>id[:8]\<close>, which panics on a shorter identifier. The listing of the
  output directory that follows it is left out.
\<close>

primrec display_loop :: "'s RedisStorage \<Rightarrow> string list \<Rightarrow> int \<Rightarrow> int \<Rightarrow> ('s, (int \<times> int) main_run) io" where
  "display_loop store [] completed failed = ret (Running (completed, failed))"
| "display_loop store (i # is) completed failed = do {
     r \<leftarrow> GetResult store Live i;
     (if length i < 8 then ret Panic
      else
        (case r of
           Inl err \<Rightarrow> display_loop store is completed failed
         | Inr result \<Rightarrow>
             if r_Success result then display_loop store is (completed + 1) failed
             else display_loop store is completed (failed + 1)))
   }"

text \<open>A percentage of no tasks is not a number.\<close>

definition percent :: "rounding \<Rightarrow> int \<Rightarrow> nat \<Rightarrow> float64 option" where
  "percent rnd k n =
     (if n = 0 then None else Some (rnd (rnd (float_of rnd k / float_of rnd (int n)) * 100)))"

record results_report =
  rr_total :: int
  rr_completed :: "int \<times> float64 option"
  rr_failed :: "int \<times> float64 option"

definition displayResults :: "rounding \<Rightarrow> 's RedisStorage \<Rightarrow> string list \<Rightarrow> ('s, results_report main_run) io" where
  "displayResults rnd store taskIDs =
     and_then (display_loop store taskIDs 0 0) (\<lambda>(completed, failed).
       ret (Running \<lparr>rr_total = int (length taskIDs),
         rr_completed = (completed, percent rnd completed (length taskIDs)),
         rr_failed = (failed, percent rnd failed (length taskIDs))\<rparr>))"

subsection \<open>The program\<close>

fun start_image_workers ::
  "'s RedisQueue \<Rightarrow> 's RedisStorage \<Rightarrow> Registry \<Rightarrow> int list \<Rightarrow> ('s Worker \<times> life) list \<Rightarrow> ('s, ('s Worker \<times> life) list main_run) io" where
  "start_image_workers q store registry [] workers = ret (Running workers)"
| "start_image_workers q store registry (i # is) workers = do {
     x \<leftarrow> NewWorker q (Some store) registry (''image-worker-'' @ show_int (i + 1)) (100 * Millisecond);
     (case Worker_Start (new_life (wk_id (fst x))) of
        (Some err, _) \<Rightarrow> ret (fatal ('' Failed to start worker '' @ show_int (i + 1)) err)
      | (None, l) \<Rightarrow> start_image_workers q store registry is (workers @ [(fst x, l)]))
   }"

record 's image_run =
  ir_files :: "string list"
  ir_tasks :: "string list"
  ir_progress :: "progress list"
  ir_results :: results_report
  ir_workers :: "('s Worker \<times> life) list" \<comment> \<open>after \<open>Stop\<close>, whose errors are only logged\<close>

text \<open>
  \<open>main\<close>. The handlers of a registry of the worker's model neither touch files nor panic: the
  registry that \<open>registerHandlers\<close> fills is a parameter. \<open>mkdir\<close> is the error of \<open>os.MkdirAll\<close>.
\<close>

definition image_main ::
  "(redis_options \<Rightarrow> 's client) \<Rightarrow> 'b image_env \<Rightarrow> Registry \<Rightarrow> gerr option \<Rightarrow> (nat \<Rightarrow> string) \<Rightarrow> (nat \<Rightarrow> ('s, unit) io) \<Rightarrow>
     mon_event list \<Rightarrow> 'b files \<Rightarrow> ('s, ('s image_run \<times> 'b files) main_run) io" where
  "image_main newClient env registry mkdir uuids bg events fs = do {
     let redisClient = newClient (addr_options ''localhost:6379'');
     r \<leftarrow> redis_do redisClient Live PING;
     (case cmd_err r of
        Some err \<Rightarrow> ret (fatal '' Failed to connect to Redis'' err)
      | None \<Rightarrow> do {
          r \<leftarrow> NewRedisQueue newClient ''localhost:6379'' [] 0 10;
          (case r of
             Inl err \<Rightarrow> ret (fatal '' Failed to create queue'' err)
           | Inr q \<Rightarrow> do {
               let store = NewRedisStorage redisClient;
               let outputDir = ''./output'';
               (case mkdir of
                  Some err \<Rightarrow> ret (fatal '' Failed to create output directory'' err)
                | None \<Rightarrow>
                  and_then (start_image_workers q store registry [0 .. 2] []) (\<lambda>workers. do {
                    let (sampleImages, fs) = generateSampleImages env outputDir fs;
                    taskIDs \<leftarrow> submitImageTasks q uuids sampleImages outputDir;
                    (out, _) \<leftarrow> monitorTasks bg store taskIDs 0 events [];
                    _ \<leftarrow> time_Sleep (5 * Second);
                    _ \<leftarrow> bg (length events);
                    and_then (displayResults (ie_rounding env) store taskIDs) (\<lambda>rep.
                      ret (Running
                        (\<lparr>ir_files = sampleImages, ir_tasks = taskIDs, ir_progress = out, ir_results = rep,
                          ir_workers = map (\<lambda>(w, l). (w, snd (Worker_Stop l))) workers\<rparr>, fs)))
                  }))
             })
        })
   }"

section \<open>Lemmas\<close>

subsection \<open>Submitting\<close>

lemma run_submit_one:
  assumes q: "holds_queue (w_db w) q" and clock: "clock_ok w" and p: "p \<in> set priorities" and fresh: "u \<notin> set (queued_ids q)"
  shows "\<exists>d n now. run_state (submit_one (RQ (redis_client pk)) u ty j p ids) w = (Some (ids @ [u]), w\<lparr>w_db := d, w_tick := n\<rparr>) \<and>
    holds_queue d (a_enqueue (made u now ty j p) q)"
proof -
  from run_demo_add [OF q clock _ p fresh, of "Some p" pk ty j] obtain d n now where
    run: "run_state (demo_add (RQ (redis_client pk)) u ty j (Some p)) w = (Running (made u now ty j p), w\<lparr>w_db := d, w_tick := n\<rparr>)"
    and d: "holds_queue d (a_enqueue (made u now ty j p) q)" by auto
  from run have "run_state (submit_one (RQ (redis_client pk)) u ty j p ids) w = (Some (ids @ [u]), w\<lparr>w_db := d, w_tick := n\<rparr>)"
    by (auto simp: submit_one_def demo_add_def run_simps Let_def fatal_def split: prod.splits option.splits)
  with d show ?thesis by blast
qed

text \<open>A task whose handler finds both paths, and the size where it needs one.\<close>

definition image_job :: "task \<Rightarrow> bool" where
  "image_job t \<longleftrightarrow> (\<exists>data inp out. unmarshal_map (t_Payload t) = Inr data \<and>
     assert_string (map_of data ''input_path'') = Some inp \<and> assert_string (map_of data ''output_path'') = Some out \<and>
     (t_Type t = ''image_resize'' \<longrightarrow> map_of data ''width'' = Some (JNum 800) \<and> map_of data ''height'' = Some (JNum 600)))"

lemma image_jobs:
  "image_job (made u now ''image_thumbnail'' (paths_payload a b) p)" "image_job (made u now ''image_grayscale'' (paths_payload a b) p)"
  "image_job (made u now ''image_resize'' (resize_payload a b) p)" "image_job (made u now ''image_watermark'' (watermark_payload a b) p)"
  by (simp_all add: image_job_def paths_payload_def resize_payload_def watermark_payload_def map_put_def)

text \<open>What the queue holds after \<open>n\<close> images.\<close>

definition image_queue :: "(nat \<Rightarrow> string) \<Rightarrow> nat \<Rightarrow> pqueue \<Rightarrow> bool" where
  "image_queue uuids n q \<longleftrightarrow>
     q 3 = [] \<and> map t_Type (q 2) = replicate n ''image_thumbnail'' \<and>
     map t_Type (q 1) = concat (replicate n [''image_grayscale'', ''image_watermark'']) \<and>
     map t_Type (q 0) = replicate n ''image_resize'' \<and>
     (\<forall>t \<in> set (a_order q). image_job t) \<and> set (queued_ids q) = uuids ` {..< 4 * n}"

lemma image_queue_step:
  assumes q: "image_queue uuids n q" and t: "[t_ID a, t_ID b, t_ID c, t_ID d] = map uuids [4 * n, 4 * n + 1, 4 * n + 2, 4 * n + 3]"
    "[t_Priority a, t_Priority b, t_Priority c, t_Priority d] = [2, 1, 0, 1]"
    "[t_Type a, t_Type b, t_Type c, t_Type d] = [''image_thumbnail'', ''image_grayscale'', ''image_resize'', ''image_watermark'']"
    and jobs: "image_job a" "image_job b" "image_job c" "image_job d"
  shows "image_queue uuids (Suc n) (a_enqueue d (a_enqueue c (a_enqueue b (a_enqueue a q))))" (is "image_queue _ _ ?q")
proof -
  have "{..< 4 * Suc n} = {..< 4 * n} \<union> {4 * n, 4 * n + 1, 4 * n + 2, 4 * n + 3}" by auto
  then have range: "uuids ` {..< 4 * Suc n} = uuids ` {..< 4 * n} \<union> {t_ID a, t_ID b, t_ID c, t_ID d}" using t(1) by auto
  have set: "set (a_order ?q) = set (a_order q) \<union> {a, b, c, d}"
    using t(2) by (auto simp: a_order_def priorities_def a_enqueue_def)
  then have "set (queued_ids ?q) = uuids ` {..< 4 * Suc n}"
    using q range by (simp add: queued_ids_def image_queue_def image_Un)
  moreover have "\<forall>t \<in> set (a_order ?q). image_job t" using q jobs set by (auto simp: image_queue_def)
  moreover have "concat (replicate n xs) @ xs = concat (replicate (Suc n) xs)" for n and xs :: "'x list"
    by (induction n) simp_all
  from this [of n "[''image_grayscale'', ''image_watermark'']"]
  have "map t_Type (?q 1) = concat (replicate (Suc n) [''image_grayscale'', ''image_watermark''])"
    using q t by (simp add: image_queue_def a_enqueue_def)
  moreover have "map t_Type (?q 2) = replicate (Suc n) ''image_thumbnail''" "map t_Type (?q 0) = replicate (Suc n) ''image_resize''" "?q 3 = []"
    using q t by (simp_all add: image_queue_def a_enqueue_def replicate_append_same)
  ultimately show ?thesis by (simp only: image_queue_def simp_thms)
qed

lemma run_submit_image:
  assumes q: "holds_queue (w_db w) q" "image_queue uuids n q" and clock: "clock_ok w" and inj: "inj_on uuids {..< 4 * Suc n}"
  shows "\<exists>d k q'. run_state (submit_image (RQ (redis_client pk)) uuids dir n path ids) w =
      (ids @ map uuids [4 * n, 4 * n + 1, 4 * n + 2, 4 * n + 3], w\<lparr>w_db := d, w_tick := k\<rparr>) \<and>
    holds_queue d q' \<and> image_queue uuids (Suc n) q'"
proof -
  let ?rq = "RQ (redis_client pk)" and ?u = "\<lambda>k. uuids (4 * n + k)"
  let ?ja = "paths_payload path (out_path dir ''thumbnail'' n)" and ?jb = "paths_payload path (out_path dir ''grayscale'' n)"
    and ?jc = "resize_payload path (out_path dir ''resized'' n)" and ?jd = "watermark_payload path (out_path dir ''watermarked'' n)"
  have new: "?u k \<notin> set (queued_ids q)" if "k < 4" for k
  proof
    assume "?u k \<in> set (queued_ids q)"
    then obtain x where "x < 4 * n" "uuids x = ?u k" using q(2) by (auto simp: image_queue_def)
    with inj_onD [OF inj, of x "4 * n + k"] that show False by simp
  qed
  have diff: "?u i \<noteq> ?u j" if "i < 4" "j < 4" "i \<noteq> j" for i j
    using inj_onD [OF inj, of "4 * n + i" "4 * n + j"] that by auto
  have clock': "clock_ok (w\<lparr>w_db := d, w_tick := k\<rparr>)" for d k using clock by (simp add: clock_ok_def)
  note run = run_submit_one [where pk = pk]
  have fresh: "?u 0 \<notin> set (queued_ids q)" "?u 1 \<notin> set (queued_ids q)" "?u 2 \<notin> set (queued_ids q)" "?u 3 \<notin> set (queued_ids q)"
    "?u 1 \<noteq> ?u 0" "?u 2 \<noteq> ?u 0" "?u 2 \<noteq> ?u 1" "?u 3 \<noteq> ?u 0" "?u 3 \<noteq> ?u 1" "?u 3 \<noteq> ?u 2"
    by (intro new diff; simp)+
  from run [OF q(1) clock, of 2 "?u 0" "''image_thumbnail''" ?ja ids] fresh obtain d1 k1 a where
    r1: "run_state (submit_one ?rq (?u 0) ''image_thumbnail'' ?ja 2 ids) w = (Some (ids @ [?u 0]), w\<lparr>w_db := d1, w_tick := k1\<rparr>)"
    and q1: "holds_queue d1 (a_enqueue (made (?u 0) a ''image_thumbnail'' ?ja 2) q)" by (auto simp: set_priorities)
  let ?a = "made (?u 0) a ''image_thumbnail'' ?ja 2"
  from run [of "w\<lparr>w_db := d1, w_tick := k1\<rparr>" "a_enqueue ?a q" 1 "?u 1" "''image_grayscale''" ?jb "ids @ [?u 0]"] q1 clock' fresh
  obtain d2 k2 b where
    r2: "run_state (submit_one ?rq (?u 1) ''image_grayscale'' ?jb 1 (ids @ [?u 0])) (w\<lparr>w_db := d1, w_tick := k1\<rparr>) =
      (Some ((ids @ [?u 0]) @ [?u 1]), w\<lparr>w_db := d2, w_tick := k2\<rparr>)"
    and q2: "holds_queue d2 (a_enqueue (made (?u 1) b ''image_grayscale'' ?jb 1) (a_enqueue ?a q))" by (auto simp: set_priorities queued_enqueue)
  let ?b = "made (?u 1) b ''image_grayscale'' ?jb 1"
  from run [of "w\<lparr>w_db := d2, w_tick := k2\<rparr>" "a_enqueue ?b (a_enqueue ?a q)" 0 "?u 2" "''image_resize''" ?jc "(ids @ [?u 0]) @ [?u 1]"]
    q2 clock' fresh obtain d3 k3 c where
    r3: "run_state (submit_one ?rq (?u 2) ''image_resize'' ?jc 0 ((ids @ [?u 0]) @ [?u 1])) (w\<lparr>w_db := d2, w_tick := k2\<rparr>) =
      (Some (((ids @ [?u 0]) @ [?u 1]) @ [?u 2]), w\<lparr>w_db := d3, w_tick := k3\<rparr>)"
    and q3: "holds_queue d3 (a_enqueue (made (?u 2) c ''image_resize'' ?jc 0) (a_enqueue ?b (a_enqueue ?a q)))"
    by (auto simp: set_priorities queued_enqueue)
  let ?c = "made (?u 2) c ''image_resize'' ?jc 0"
  from run [of "w\<lparr>w_db := d3, w_tick := k3\<rparr>" "a_enqueue ?c (a_enqueue ?b (a_enqueue ?a q))" 1 "?u 3" "''image_watermark''" ?jd
      "((ids @ [?u 0]) @ [?u 1]) @ [?u 2]"] q3 clock' fresh obtain d4 k4 d where
    r4: "run_state (submit_one ?rq (?u 3) ''image_watermark'' ?jd 1 (((ids @ [?u 0]) @ [?u 1]) @ [?u 2])) (w\<lparr>w_db := d3, w_tick := k3\<rparr>) =
      (Some ((((ids @ [?u 0]) @ [?u 1]) @ [?u 2]) @ [?u 3]), w\<lparr>w_db := d4, w_tick := k4\<rparr>)"
    and q4: "holds_queue d4 (a_enqueue (made (?u 3) d ''image_watermark'' ?jd 1) (a_enqueue ?c (a_enqueue ?b (a_enqueue ?a q))))"
    by (auto simp: set_priorities queued_enqueue)
  let ?d = "made (?u 3) d ''image_watermark'' ?jd 1"
  have "image_queue uuids (Suc n) (a_enqueue ?d (a_enqueue ?c (a_enqueue ?b (a_enqueue ?a q))))"
    by (rule image_queue_step [OF q(2)]) (simp_all add: image_jobs)
  with q4 r1 r2 r3 r4 show ?thesis
    by (intro exI [of _ d4] exI [of _ k4] exI conjI) (simp_all add: submit_image_def)
qed

lemma run_submit_loop:
  assumes "holds_queue (w_db w) q" "image_queue uuids n q" and "clock_ok w" and "inj_on uuids {..< 4 * (n + length images)}"
  shows "\<exists>d k q'. run_state (submit_loop (RQ (redis_client pk)) uuids dir n images ids) w =
      (ids @ map uuids [4 * n ..< 4 * (n + length images)], w\<lparr>w_db := d, w_tick := k\<rparr>) \<and>
    holds_queue d q' \<and> image_queue uuids (n + length images) q'"
  using assms
proof (induction images arbitrary: w q n ids)
  case Nil
  then show ?case by (intro exI [of _ "w_db w"] exI [of _ "w_tick w"] exI [of _ q]) simp
next
  case (Cons path images)
  have "inj_on uuids {..< 4 * Suc n}" using Cons.prems(4) by (rule inj_on_subset) auto
  from run_submit_image [OF Cons.prems(1-3) this, of pk dir path ids] obtain d1 k1 q1 where
    r: "run_state (submit_image (RQ (redis_client pk)) uuids dir n path ids) w =
      (ids @ map uuids [4 * n, 4 * n + 1, 4 * n + 2, 4 * n + 3], w\<lparr>w_db := d1, w_tick := k1\<rparr>)"
    and q1: "holds_queue d1 q1" "image_queue uuids (Suc n) q1" by blast
  have "clock_ok (w\<lparr>w_db := d1, w_tick := k1\<rparr>)" using Cons.prems(3) by (simp add: clock_ok_def)
  with Cons.IH [of "w\<lparr>w_db := d1, w_tick := k1\<rparr>" q1 "Suc n" "ids @ map uuids [4 * n, 4 * n + 1, 4 * n + 2, 4 * n + 3]"]
    q1 Cons.prems(4) obtain d k q' where
    "run_state (submit_loop (RQ (redis_client pk)) uuids dir (Suc n) images (ids @ map uuids [4 * n, 4 * n + 1, 4 * n + 2, 4 * n + 3]))
       (w\<lparr>w_db := d1, w_tick := k1\<rparr>) = ((ids @ map uuids [4 * n, 4 * n + 1, 4 * n + 2, 4 * n + 3]) @
         map uuids [4 * Suc n ..< 4 * (Suc n + length images)], w\<lparr>w_db := d, w_tick := k\<rparr>)"
    "holds_queue d q'" "image_queue uuids (Suc n + length images) q'" by auto
  moreover have four: "Suc (Suc (Suc (Suc (4 * n)))) = 4 + 4 * n" by simp
  have "[4 * n ..< 4 * (n + length (path # images))] = [4 * n, 4 * n + 1, 4 * n + 2, 4 * n + 3] @ [4 * Suc n ..< 4 * (Suc n + length images)]"
    by (simp add: upt_conv_Cons four)
  ultimately show ?case using r by (intro exI [of _ d] exI [of _ k] exI [of _ q']) simp
qed

lemma image_queue_empty: "image_queue uuids 0 (\<lambda>_. [])"
  by (simp add: image_queue_def queued_ids_def a_order_def)

lemma sim_submit_one [sim_intros]:
  "redis_server ex view pk \<Longrightarrow> simulates view (submit_one (RQ ex) u ty p pr ids) (submit_one (RQ (redis_client pk)) u ty p pr ids)"
  unfolding submit_one_def by (intro sim_intros)

lemma sim_submit_image [sim_intros]:
  "redis_server ex view pk \<Longrightarrow>
    simulates view (submit_image (RQ ex) u dir i path ids) (submit_image (RQ (redis_client pk)) u dir i path ids)"
  unfolding submit_image_def by (intro sim_intros)

lemma sim_submit_loop [sim_intros]:
  assumes "redis_server ex view pk"
  shows "simulates view (submit_loop (RQ ex) u dir i images ids) (submit_loop (RQ (redis_client pk)) u dir i images ids)"
  by (induction images arbitrary: i ids) (simp_all only: submit_loop.simps, (intro sim_intros assms; assumption)+)

subsection \<open>Watching\<close>

lemma count_results_bounds:
  assumes "run_state (count_results store is c f) w = ((c', f'), w')"
  shows "c \<le> c' \<and> f \<le> f' \<and> c' + f' \<le> c + f + int (length is)"
  using assms
proof (induction "is" arbitrary: c f w)
  case (Cons i "is")
  obtain r v where "run_state (GetResult store Live i) w = (r, v)" by fastforce
  with Cons.prems Cons.IH [of "c + 1" f v] Cons.IH [of c "f + 1" v] Cons.IH [of c f v] show ?case
    by (auto split: sum.splits if_splits)
qed simp

lemma monitorTasks_progress:
  assumes "run_state (monitorTasks bg store ids n es out) w = ((out', stop), w')"
    and "\<forall>g \<in> set out. 0 \<le> pg_processing g \<and> pg_completed g + pg_failed g + pg_processing g = int (length ids)"
  shows "\<forall>g \<in> set out'. 0 \<le> pg_processing g \<and> pg_completed g + pg_failed g + pg_processing g = int (length ids)"
  using assms
proof (induction bg store ids n es out arbitrary: w rule: monitorTasks.induct)
  case (3 bg store ids n es out)
  obtain w1 where bg: "run_state (bg n) w = ((), w1)" by (metis old.unit.exhaust surj_pair)
  obtain c f w2 where cr: "run_state (count_results store ids 0 0) w1 = ((c, f), w2)" by (metis surj_pair)
  let ?g = "\<lparr>pg_completed = c, pg_failed = f, pg_processing = int (length ids) - c - f\<rparr>"
  from count_results_bounds [OF cr]
  have g: "\<forall>g \<in> set (out @ [?g]). 0 \<le> pg_processing g \<and> pg_completed g + pg_failed g + pg_processing g = int (length ids)"
    using "3.prems"(2) by auto
  show ?case
  proof (cases "c + f = int (length ids)")
    case True
    with "3.prems"(1) bg cr g show ?thesis by (auto simp: Let_def)
  next
    case False
    with "3.prems"(1) bg cr have "run_state (monitorTasks bg store ids (Suc n) es (out @ [?g])) w2 = ((out', stop), w')"
      by (simp add: Let_def)
    from "3.IH" [OF refl refl False this g] show ?thesis .
  qed
qed auto

section \<open>Properties\<close>

text \<open>C29: 
  For any number of images, on an empty queue and with different identifiers, \<open>submitImageTasks\<close>
  enqueues four tasks per image and returns their identifiers in that order: the thumbnails
  with high priority, the grey images and watermarks alternating with normal priority, the
  resized images with low priority. Each task's payload has what its handler reads without
  asking: both paths, and width and height where it resizes.
\<close>

theorem image_tasks_submitted:
  assumes srv: "redis_server ex view pk" and q: "holds_queue (view (w_db w)) (\<lambda>_. [])" and clock: "clock_ok w"
    and inj: "inj_on uuids {..< 4 * length images}"
  shows "\<exists>w' q'. run_state (submitImageTasks (RQ ex) uuids images dir) w = (map uuids [0 ..< 4 * length images], w') \<and>
    holds_queue (view (w_db w')) q' \<and> q' PriorityCritical = [] \<and>
    map t_Type (q' PriorityHigh) = replicate (length images) ''image_thumbnail'' \<and>
    map t_Type (q' PriorityNormal) = concat (replicate (length images) [''image_grayscale'', ''image_watermark'']) \<and>
    map t_Type (q' PriorityLow) = replicate (length images) ''image_resize'' \<and>
    (\<forall>t \<in> set (a_order q'). image_job t)"
proof -
  have c: "clock_ok (world_map view w)" using clock by (simp add: clock_ok_def)
  have h: "holds_queue (w_db (world_map view w)) (\<lambda>_. [])" using q by simp
  have "inj_on uuids {..< 4 * (0 + length images)}" using inj by simp
  from run_submit_loop [OF h image_queue_empty c this, of pk dir "[]"] obtain d k q' where
    run: "run_state (submit_loop (RQ (redis_client pk)) uuids dir 0 images []) (world_map view w) =
      (map uuids [0 ..< 4 * length images], (world_map view w)\<lparr>w_db := d, w_tick := k\<rparr>)"
    and q': "holds_queue d q'" "image_queue uuids (length images) q'"
    by (simp only: add_0 mult_0_right append_Nil) blast
  from simulates_run [OF sim_submit_loop [OF srv] run] obtain w' where
    "run_state (submit_loop (RQ ex) uuids dir 0 images []) w = (map uuids [0 ..< 4 * length images], w')"
    and w': "world_map view w' = (world_map view w)\<lparr>w_db := d, w_tick := k\<rparr>" by blast
  moreover have "view (w_db w') = d" using arg_cong [OF w', of w_db] by simp
  ultimately show ?thesis
    using q' by (intro exI [of _ w'] exI [of _ q']) (simp add: submitImageTasks_def image_queue_def)
qed

theorem image_tasks_submitted_witness:
  "\<exists>w' q'. run_state (submitImageTasks (RQ (redis_client first_pick)) (\<lambda>n. show_int (int n)) [''a'', ''b''] ''./output'')
       ((start_world empty_db)\<lparr>w_clock := \<lambda>_. 0\<rparr>) = (map (\<lambda>n. show_int (int n)) [0 ..< 8], w') \<and>
     map t_Type (q' PriorityHigh) = [''image_thumbnail'', ''image_thumbnail''] \<and> holds_queue (id (w_db w')) q'"
proof -
  let ?w = "(start_world empty_db)\<lparr>w_clock := \<lambda>_. 0\<rparr>" and ?u = "\<lambda>n. show_int (int n)"
  have "holds_queue (id (w_db ?w)) (\<lambda>_. [])" "clock_ok ?w" "inj_on ?u {..< 4 * length [''a'', ''b'']}"
    by (simp_all add: clock_ok_def time_marshalable_def inj_on_def)
  from image_tasks_submitted [OF redis_server_refl this, where dir = "''./output''" and pk = first_pick] obtain w' q' where
    "run_state (submitImageTasks (RQ (redis_client first_pick)) ?u [''a'', ''b''] ''./output'') ?w = (map ?u [0 ..< 4 * length [''a'', ''b'']], w')"
    "holds_queue (id (w_db w')) q'" "map t_Type (q' PriorityHigh) = replicate (length [''a'', ''b'']) ''image_thumbnail''"
    by blast
  then show ?thesis by (intro exI [of _ w'] exI [of _ q']) (simp add: numeral_2_eq_2)
qed

text \<open>
  Whatever the other goroutines do, each line that \<open>monitorTasks\<close> prints accounts for every task:
  completed, failed and processing add up to the number of tasks, and no number is negative.
\<close>

theorem progress_accounts_for_all:
  assumes "run_state (monitorTasks bg store ids n es []) w = ((out, stop), w')"
  shows "\<forall>g \<in> set out. 0 \<le> pg_processing g \<and> pg_completed g + pg_failed g + pg_processing g = int (length ids)"
  using monitorTasks_progress [OF assms] by simp

theorem progress_accounts_for_all_witness:
  "\<exists>out w'. run_state (monitorTasks (\<lambda>_. ret ()) (RS (redis_client first_pick)) [''a''] 0 [MTick, MTimeout] []) (start_world empty_db) =
       ((out, True), w') \<and> (\<forall>g \<in> set out. pg_completed g + pg_failed g + pg_processing g = 1)"
proof -
  have run: "run_state (monitorTasks (\<lambda>_. ret ()) (RS (redis_client first_pick)) [''a''] 0 [MTick, MTimeout] []) (start_world empty_db) =
      (([\<lparr>pg_completed = 0, pg_failed = 0, pg_processing = 1\<rparr>], True), start_world empty_db)"
    by (simp add: GetResult_def run_simps Let_def)
  from run progress_accounts_for_all [OF run] show ?thesis by auto
qed

end
