(* ===== verification/Spool_DashboardDemo.thy ===== *)
theory Spool_DashboardDemo
  imports Spool_Demos Spool_Instrumented Spool_Web
begin

text \<open>
  \<open>examples/dashboard/main.go\<close>: the dashboard with five instrumented workers, a generator of tasks
  and a feed of made-up task events. A number that \<open>math/rand\<close> supplies is an argument: \<open>rand_Intn r n\<close>
  is \<open>rand.Intn(n)\<close> where the source of random numbers yields \<open>r\<close>, so that it is below \<open>n\<close> and may be
  any such number. The goroutines are functions of their own; what they do while \<open>main\<close> waits is a
  parameter of \<open>main\<close>.
\<close>

section \<open>Definitions\<close>

definition rand_Intn :: "nat \<Rightarrow> nat \<Rightarrow> nat" where
  "rand_Intn r n = r mod n"

subsection \<open>Handlers\<close>

text \<open>
  A handler fails at random: \<open>roll n\<close> is \<open>rand.Float64()\<close> in its \<open>n\<close>-th run. The sleep takes time that
  the clock of the world accounts for.
\<close>

definition sample_handler :: "rounding \<Rightarrow> (nat \<Rightarrow> float64) \<Rightarrow> rat \<Rightarrow> string \<Rightarrow> handler" where
  "sample_handler rnd roll rate msg n timeout payload =
     (if roll n < rnd rate then Inl (Err msg) else Inr (GJson (JStr ''success'')))"

definition setupTaskHandlers :: "rounding \<Rightarrow> (string \<Rightarrow> nat \<Rightarrow> float64) \<Rightarrow> Registry \<Rightarrow> Registry" where
  "setupTaskHandlers rnd roll r =
     (let add = (\<lambda>ty rate msg r. snd (Register r ty (sample_handler rnd (roll ty) rate msg)))
      in add ''backup_database'' (3 / 100) ''backup failed: connection lost''
        (add ''data_export'' (12 / 100) ''data export failed: disk full''
        (add ''generate_report'' (8 / 100) ''report generation failed: insufficient data''
        (add ''send_email'' (5 / 100) ''email send failed: SMTP timeout''
        (add ''process_image'' (10 / 100) ''image processing failed: corrupted file'' r)))))"

subsection \<open>The components\<close>

text \<open>The metrics that the components share are those of the dashboard.\<close>

record 's DashboardComponents =
  dc_queue :: "'s RedisQueue"
  dc_store :: "'s RedisStorage"
  dc_registry :: Registry
  dc_dashboard :: "'s Server"

definition dc_metrics :: "'s DashboardComponents \<Rightarrow> 's Metrics" where
  "dc_metrics d = sv_metrics (dc_dashboard d)"

definition set_metrics :: "'s Metrics \<Rightarrow> 's DashboardComponents \<Rightarrow> 's DashboardComponents" where
  "set_metrics m d = d\<lparr>dc_dashboard := (dc_dashboard d)\<lparr>sv_metrics := m\<rparr>\<rparr>"

definition initializeComponents ::
  "(redis_options \<Rightarrow> 's client) \<Rightarrow> rounding \<Rightarrow> (string \<Rightarrow> nat \<Rightarrow> float64) \<Rightarrow> ('s, gerr + 's DashboardComponents) io" where
  "initializeComponents newClient rnd roll = do {
     r \<leftarrow> NewRedisQueue newClient ''localhost:6379'' [] 0 10;
     (case r of
        Inl err \<Rightarrow> ret (Inl (Wrap ''failed to create queue'' err))
      | Inr q \<Rightarrow> do {
          _ \<leftarrow> Purge q Live;
          let redisClient = newClient (addr_options ''localhost:6379'');
          let store = NewRedisStorage redisClient;
          metrics \<leftarrow> NewMetrics q;
          let registry = setupTaskHandlers rnd roll NewRegistry;
          let dashboard = NewServer '':8080'' metrics q (Some store);
          ret (Inr \<lparr>dc_queue = q, dc_store = store, dc_registry = registry, dc_dashboard = dashboard\<rparr>)
        })
   }"

text \<open>Closing the queue closes its connections only.\<close>

definition cleanup :: "'s DashboardComponents \<Rightarrow> ('s, unit) io" where
  "cleanup d = do { _ \<leftarrow> Storage_Close (dc_store d); ret () }"

subsection \<open>Workers\<close>

text \<open>The loop over the numbers of the workers; each worker is then handed to a goroutine of its own.\<close>

primrec start_demo_workers ::
  "int list \<Rightarrow> 's DashboardComponents \<Rightarrow> 's InstrumentedWorker list \<Rightarrow> ('s, 's InstrumentedWorker list \<times> 's DashboardComponents) io" where
  "start_demo_workers [] d iws = ret (iws, d)"
| "start_demo_workers (i # is) d iws = do {
     x \<leftarrow> NewWorker (dc_queue d) (Some (dc_store d)) (dc_registry d) (''worker-'' @ show_int (i + 1)) (100 * Millisecond);
     m \<leftarrow> RegisterWorker (Worker_ID (fst x)) (dc_metrics d);
     let iw = NewInstrumentedWorker (fst x) (snd x) (new_life (wk_id (fst x)));
     start_demo_workers is (set_metrics m d) (iws @ [iw])
   }"

definition startWorkers :: "'s DashboardComponents \<Rightarrow> ('s, 's InstrumentedWorker list \<times> 's DashboardComponents) io" where
  "startWorkers d = start_demo_workers [0 .. 4] d []"

subsection \<open>The feed of events\<close>

definition sample_types :: "string list" where
  "sample_types = [''process_image'', ''send_email'', ''generate_report'', ''data_export'', ''backup_database'']"

text \<open>
  One of the two loops that broadcast an event per new task, with a made-up type and duration;
  \<open>k\<close> is the number of random numbers used before.
\<close>

primrec broadcast_new ::
  "(nat \<Rightarrow> nat) \<Rightarrow> string \<Rightarrow> nat \<Rightarrow> nat \<Rightarrow> nat \<Rightarrow> nat \<Rightarrow> 's Server \<Rightarrow> ('s, 's Server) io" where
  "broadcast_new rand status spread base k 0 s = ret s"
| "broadcast_new rand status spread base k (Suc n) s = do {
     let taskType = sample_types ! rand_Intn (rand k) (length sample_types);
     let duration = int (rand_Intn (rand (k + 1)) spread + base) * Millisecond;
     now \<leftarrow> time_Now;
     s \<leftarrow> BroadcastTaskEvent (''task-'' @ show_int (wrap64 now)) taskType status duration s;
     broadcast_new rand status spread base (k + 2) n s
   }"

text \<open>A tick of the loop: the new values of \<open>lastProcessed\<close> and \<open>lastFailed\<close>, and the server.\<close>

definition event_tick ::
  "(nat \<Rightarrow> nat) \<Rightarrow> 's InstrumentedWorker \<Rightarrow> int \<Rightarrow> int \<Rightarrow> 's Server \<Rightarrow> ('s, int \<times> int \<times> 's Server) io" where
  "event_tick rand iw lastProcessed lastFailed s =
     (let (processed, failed, _) = IW_Stats iw;
          newCompleted = (if processed > lastProcessed then nat (wrap64 (processed - lastProcessed)) else 0);
          newFailed = (if failed > lastFailed then nat (wrap64 (failed - lastFailed)) else 0)
      in do {
        s \<leftarrow> broadcast_new rand ''success'' 800 200 0 newCompleted s;
        s \<leftarrow> broadcast_new rand ''failed'' 500 100 (2 * newCompleted) newFailed s;
        ret (if processed > lastProcessed then processed else lastProcessed,
             if failed > lastFailed then failed else lastFailed, s)
      })"

text \<open>
  The loop on what its \<open>select\<close> receives: \<open>None\<close> when the context ends, and at each tick the
  counters that the worker has then.
\<close>

fun event_loop ::
  "(nat \<Rightarrow> nat \<Rightarrow> nat) \<Rightarrow> 's InstrumentedWorker \<Rightarrow> worker_stats option list \<Rightarrow> int \<Rightarrow> int \<Rightarrow> 's Server \<Rightarrow> ('s, 's Server) io" where
  "event_loop rand iw [] lastProcessed lastFailed s = ret s"
| "event_loop rand iw (None # rs) lastProcessed lastFailed s = ret s"
| "event_loop rand iw (Some st # rs) lastProcessed lastFailed s = do {
     x \<leftarrow> event_tick (rand (length rs)) (iw\<lparr>iw_stats := st\<rparr>) lastProcessed lastFailed s;
     (case x of (lastProcessed, lastFailed, s) \<Rightarrow> event_loop rand iw rs lastProcessed lastFailed s)
   }"

definition startWorkerWithEventBroadcast ::
  "(nat \<Rightarrow> nat \<Rightarrow> nat) \<Rightarrow> 's InstrumentedWorker \<Rightarrow> worker_stats option list \<Rightarrow> 's Server \<Rightarrow> ('s, 's InstrumentedWorker \<times> 's Server) io" where
  "startWorkerWithEventBroadcast rand iw readings s = do {
     x \<leftarrow> IW_Start iw (sv_metrics s);
     (case x of
        (Some err, iw, m) \<Rightarrow> ret (iw, s\<lparr>sv_metrics := m\<rparr>)
      | (None, iw, m) \<Rightarrow> do {
          s \<leftarrow> event_loop rand iw readings 0 0 (s\<lparr>sv_metrics := m\<rparr>);
          ret (iw, s)
        })
   }"

subsection \<open>The generator\<close>

definition sample_payload :: "nat \<Rightarrow> int \<Rightarrow> nat \<Rightarrow> json" where
  "sample_payload user now batch =
     JObj [(''batch_id'', JStr (''batch-'' @ show_int (int batch))),
       (''parameters'', JObj [(''format'', JStr ''json''), (''quality'', JStr ''high'')]),
       (''timestamp'', JNum (time_Unix now)), (''user_id'', JNum (int user))]"

text \<open>It uses four random numbers.\<close>

definition generateSingleTask ::
  "'s RedisQueue \<Rightarrow> ctx \<Rightarrow> string list \<Rightarrow> priority list \<Rightarrow> (nat \<Rightarrow> nat) \<Rightarrow> string \<Rightarrow> 's Metrics \<Rightarrow> ('s, 's Metrics) io" where
  "generateSingleTask q ctx taskTypes prios rand uuid m = do {
     let taskType = taskTypes ! rand_Intn (rand 0) (length taskTypes);
     let prio = prios ! rand_Intn (rand 1) (length prios);
     now \<leftarrow> time_Now;
     r \<leftarrow> task_NewTask uuid taskType (GJson (sample_payload (rand_Intn (rand 2) 10000) now (rand_Intn (rand 3) 100)));
     (case r of
        Inl err \<Rightarrow> ret m
      | Inr t \<Rightarrow> do {
          let t = WithTimeout (WithMaxRetries (WithPriority t prio) 3) (5 * Second);
          e \<leftarrow> Enqueue q ctx (Some t);
          (case e of
             Some err \<Rightarrow> ret m
           | None \<Rightarrow> ret (RecordTaskEnqueued m))
        })
   }"

definition sample_priorities :: "priority list" where
  "sample_priorities = [PriorityLow, PriorityNormal, PriorityHigh, PriorityCritical]"

text \<open>
  A loop that generates \<open>n\<close> tasks, the first of them the \<open>k\<close>-th of the program, and sleeps for \<open>pause\<close>
  after each where the source does. The \<open>k\<close>-th task has the \<open>k\<close>-th identifier and the random
  numbers \<open>rand k\<close>.
\<close>

primrec generate_n ::
  "'s RedisQueue \<Rightarrow> ctx \<Rightarrow> (nat \<Rightarrow> nat \<Rightarrow> nat) \<Rightarrow> (nat \<Rightarrow> string) \<Rightarrow> int option \<Rightarrow> nat \<Rightarrow> nat \<Rightarrow> 's Metrics \<Rightarrow> ('s, 's Metrics) io" where
  "generate_n q ctx rand uuids pause k 0 m = ret m"
| "generate_n q ctx rand uuids pause k (Suc n) m = do {
     m \<leftarrow> generateSingleTask q ctx sample_types sample_priorities (rand k) (uuids k) m;
     _ \<leftarrow> (case pause of None \<Rightarrow> ret () | Some d \<Rightarrow> time_Sleep d);
     generate_n q ctx rand uuids pause (Suc k) n m
   }"

text \<open>What the \<open>select\<close> receives; a regular tick comes with a random number.\<close>

datatype gen_event = GDone | GTick nat | GBurst

fun workload_loop ::
  "'s RedisQueue \<Rightarrow> ctx \<Rightarrow> (nat \<Rightarrow> nat \<Rightarrow> nat) \<Rightarrow> (nat \<Rightarrow> string) \<Rightarrow> gen_event list \<Rightarrow> nat \<Rightarrow> 's Metrics \<Rightarrow> ('s, 's Metrics) io" where
  "workload_loop q ctx rand uuids [] k m = ret m"
| "workload_loop q ctx rand uuids (GDone # es) k m = ret m"
| "workload_loop q ctx rand uuids (GTick r # es) k m = do {
     let count = rand_Intn r 3 + 1;
     m \<leftarrow> generate_n q ctx rand uuids None k count m;
     workload_loop q ctx rand uuids es (k + count) m
   }"
| "workload_loop q ctx rand uuids (GBurst # es) k m = do {
     m \<leftarrow> generate_n q ctx rand uuids (Some (50 * Millisecond)) k 10 m;
     workload_loop q ctx rand uuids es (k + 10) m
   }"

definition generateTasks ::
  "'s RedisQueue \<Rightarrow> ctx \<Rightarrow> (nat \<Rightarrow> nat \<Rightarrow> nat) \<Rightarrow> (nat \<Rightarrow> string) \<Rightarrow> gen_event list \<Rightarrow> 's Metrics \<Rightarrow> ('s, 's Metrics) io" where
  "generateTasks q ctx rand uuids events m = do {
     m \<leftarrow> generate_n q ctx rand uuids (Some (100 * Millisecond)) 0 20 m;
     workload_loop q ctx rand uuids events 20 m
   }"

subsection \<open>Monitoring and shutdown\<close>

text \<open>The goroutine on the choices of its \<open>select\<close>; an error is only logged.\<close>

fun startQueueMonitor :: "select_case list \<Rightarrow> ctx \<Rightarrow> 's Metrics \<Rightarrow> ('s, 's Metrics) io" where
  "startQueueMonitor [] ctx m = ret m"
| "startQueueMonitor (Tick # cs) ctx m = do { x \<leftarrow> UpdateQueueDepth ctx m; startQueueMonitor cs ctx (snd x) }"
| "startQueueMonitor (_ # cs) ctx m = ret m"

record final_stats =
  fs_enqueued :: int
  fs_processed :: int
  fs_failed :: int
  fs_retried :: int
  fs_successRate :: "float64 option" \<comment> \<open>\<open>None\<close>: a division by zero, which is not a finite number\<close>
  fs_avgThroughput :: float64
  fs_avgProcessing :: int
  fs_uptime :: int

definition printFinalStats :: "rounding \<Rightarrow> 's Metrics \<Rightarrow> ('s, final_stats) io" where
  "printFinalStats rnd m = do {
     snapshot \<leftarrow> Snapshot rnd m;
     ret \<lparr>fs_enqueued = ms_TasksEnqueued snapshot, fs_processed = ms_TasksProcessed snapshot,
       fs_failed = ms_TasksFailed snapshot, fs_retried = ms_TasksRetried snapshot,
       fs_successRate = (if float_of rnd (ms_TasksEnqueued snapshot) = 0 then None
         else Some (rnd (rnd (float_of rnd (ms_TasksProcessed snapshot) / float_of rnd (ms_TasksEnqueued snapshot)) * 100))),
       fs_avgThroughput = ms_AvgThroughput snapshot, fs_avgProcessing = ms_AvgProcessingTime snapshot,
       fs_uptime = ms_Uptime snapshot\<rparr>
   }"

text \<open>
  From the signal, or the end of the server, on. \<open>late\<close> is what the other goroutines do in the two
  seconds of the sleep: nothing has told them to stop. The error of \<open>Stop\<close> is only logged.
\<close>

definition waitForShutdown ::
  "rounding \<Rightarrow> (ctx \<Rightarrow> gerr option) \<Rightarrow> ('s DashboardComponents \<Rightarrow> ('s, 's DashboardComponents) io) \<Rightarrow>
     's DashboardComponents \<Rightarrow> ('s, (final_stats \<times> 's DashboardComponents) call_outcome) io" where
  "waitForShutdown rnd shutdown late d = do {
     _ \<leftarrow> time_Sleep (2 * Second);
     d \<leftarrow> late d;
     (case Server_Stop shutdown Live (dc_dashboard d) of
        Returns (err, s) \<Rightarrow> do {
          let d = d\<lparr>dc_dashboard := s\<rparr>;
          stats \<leftarrow> printFinalStats rnd (dc_metrics d);
          ret (Returns (stats, d))
        }
      | Panics \<Rightarrow> ret Panics
      | Blocks \<Rightarrow> ret Blocks)
   }"

text \<open>\<open>bg\<close> is what the goroutines do until the signal comes, given the workers that were made.\<close>

definition runDemo ::
  "rounding \<Rightarrow> (ctx \<Rightarrow> gerr option) \<Rightarrow> ('s InstrumentedWorker list \<Rightarrow> 's DashboardComponents \<Rightarrow> ('s, 's DashboardComponents) io) \<Rightarrow>
     ('s DashboardComponents \<Rightarrow> ('s, 's DashboardComponents) io) \<Rightarrow> 's DashboardComponents \<Rightarrow>
     ('s, (final_stats \<times> 's DashboardComponents) call_outcome) io" where
  "runDemo rnd shutdown bg late d =
     (case Server_Start (dc_dashboard d) of
        Returns s \<Rightarrow> do {
          let d = d\<lparr>dc_dashboard := s\<rparr>;
          _ \<leftarrow> time_Sleep (500 * Millisecond);
          x \<leftarrow> startWorkers d;
          d \<leftarrow> bg (fst x) (snd x);
          waitForShutdown rnd shutdown late d
        }
      | Panics \<Rightarrow> ret Panics
      | Blocks \<Rightarrow> ret Blocks)"

text \<open>\<open>Running None\<close>: \<open>Stop\<close> does not return. The deferred \<open>cleanup\<close> runs before the deferred \<open>cancel\<close>.\<close>

definition dashboard_main ::
  "(redis_options \<Rightarrow> 's client) \<Rightarrow> rounding \<Rightarrow> (string \<Rightarrow> nat \<Rightarrow> float64) \<Rightarrow> (ctx \<Rightarrow> gerr option) \<Rightarrow>
     ('s InstrumentedWorker list \<Rightarrow> 's DashboardComponents \<Rightarrow> ('s, 's DashboardComponents) io) \<Rightarrow>
     ('s DashboardComponents \<Rightarrow> ('s, 's DashboardComponents) io) \<Rightarrow> ('s, final_stats option main_run) io" where
  "dashboard_main newClient rnd roll shutdown bg late = do {
     r \<leftarrow> initializeComponents newClient rnd roll;
     (case r of
        Inl err \<Rightarrow> ret (fatal ''Failed to initialize components'' err)
      | Inr components \<Rightarrow> do {
          x \<leftarrow> runDemo rnd shutdown bg late components;
          (case x of
             Returns (stats, d) \<Rightarrow> do { _ \<leftarrow> cleanup d; ret (Running (Some stats)) }
           | Panics \<Rightarrow> ret Panic
           | Blocks \<Rightarrow> ret (Running None))
        })
   }"

section \<open>Lemmas\<close>

subsection \<open>Registration\<close>

text \<open>\<open>n\<close> registrations of the workers \<open>ks\<close>, none of which has been busy.\<close>

definition registrations :: "nat \<Rightarrow> string set \<Rightarrow> 's Metrics \<Rightarrow> bool" where
  "registrations n ks m \<longleftrightarrow> GetWorkerCounts m = (int n, int n, 0) \<and> distinct (map fst (m_workerStats m)) \<and> fst ` set (m_workerStats m) = ks"

lemma registrations_RegisterWorker:
  assumes "registrations n ks m" and "n < 1000" and "run_state (RegisterWorker i m) w = (m', w')"
  shows "registrations (Suc n) (insert i ks) m'"
proof -
  have "wrap32 (int n + 1) = int (Suc n)" using assms(2) by (simp add: wrap32_id in32_def)
  with assms show ?thesis
    by (clarsimp simp: RegisterWorker_def run_simps registrations_def GetWorkerCounts_def Let_def)
       (simp add: distinct_update AList.dom_update)
qed

lemma registrations_start_demo_workers:
  assumes "registrations n ks (dc_metrics d)" and "n + length is < 1000" and "run_state (start_demo_workers is d iws) w = ((iws', d'), w')"
    and "\<forall>iw \<in> set iws. iw_life iw = new_life (wk_id (iw_worker iw))"
  shows "registrations (n + length is) (ks \<union> (\<lambda>i. ''worker-'' @ show_int (i + 1)) ` set is) (dc_metrics d') \<and>
    map (\<lambda>iw. wk_id (iw_worker iw)) iws' = map (\<lambda>iw. wk_id (iw_worker iw)) iws @ map (\<lambda>i. ''worker-'' @ show_int (i + 1)) is \<and>
    (\<forall>iw \<in> set iws'. iw_life iw = new_life (wk_id (iw_worker iw)))"
  using assms
proof (induction "is" arbitrary: n ks d iws w)
  case (Cons i "is")
  let ?id = "''worker-'' @ show_int (i + 1)"
  obtain m v where reg: "run_state (RegisterWorker ?id (dc_metrics d)) w = (m, v)" by fastforce
  have "registrations (Suc n) (insert ?id ks) (dc_metrics (set_metrics m d))"
    using registrations_RegisterWorker [OF Cons.prems(1) _ reg] Cons.prems(2) by (simp add: dc_metrics_def set_metrics_def)
  moreover define iw where "iw = NewInstrumentedWorker (fst (fst (run_state (NewWorker (dc_queue d) (Some (dc_store d)) (dc_registry d) ?id
     (100 * Millisecond)) w))) \<lparr>tasksProcessed = 0, tasksFailed = 0, tasksRetried = 0\<rparr> (new_life ?id)"
  then have "run_state (start_demo_workers is (set_metrics m d) (iws @ [iw])) v = ((iws', d'), w')"
    using Cons.prems(3) reg by (simp add: NewWorker_def Worker_ID_def run_simps Let_def)
  moreover have iw: "wk_id (iw_worker iw) = ?id" "iw_life iw = new_life ?id"
    by (simp_all add: iw_def NewWorker_def NewInstrumentedWorker_def run_simps Let_def)
  then have "\<forall>iw \<in> set (iws @ [iw]). iw_life iw = new_life (wk_id (iw_worker iw))" using Cons.prems(4) by simp
  moreover have "Suc n + length is < 1000" using Cons.prems(2) by simp
  ultimately have "registrations (Suc n + length is) (insert ?id ks \<union> (\<lambda>i. ''worker-'' @ show_int (i + 1)) ` set is) (dc_metrics d')"
    "map (\<lambda>iw. wk_id (iw_worker iw)) iws' = map (\<lambda>iw. wk_id (iw_worker iw)) (iws @ [iw]) @ map (\<lambda>i. ''worker-'' @ show_int (i + 1)) is"
    "\<forall>iw \<in> set iws'. iw_life iw = new_life (wk_id (iw_worker iw))"
    using Cons.IH by blast+
  then show ?case using iw(1) by auto
qed auto

lemma registrations_StartAll:
  assumes "registrations n ks m" and "n + length iws < 1000" and "run_state (StartAll iws m) w = ((e, iws', m'), w')"
    and "\<forall>iw \<in> set iws. iw_life iw = new_life (wk_id (iw_worker iw))"
  shows "e = None \<and> registrations (n + length iws) (ks \<union> (\<lambda>iw. wk_id (iw_worker iw)) ` set iws) m'"
  using assms
proof (induction iws arbitrary: n ks m w iws')
  case (Cons iw iws)
  let ?id = "wk_id (iw_worker iw)"
  obtain m1 v where reg: "run_state (RegisterWorker ?id m) w = (m1, v)" by fastforce
  obtain x v' where rest: "run_state (StartAll iws m1) v = (x, v')" by fastforce
  have "registrations (Suc n) (insert ?id ks) m1" using registrations_RegisterWorker [OF Cons.prems(1) _ reg] Cons.prems(2) by simp
  from Cons.IH [OF this] Cons.prems(2-4) reg rest show ?case
    by (cases x) (auto simp: IW_Start_def Worker_Start_def Start_lock_def new_life_def)
qed simp

subsection \<open>The feed\<close>

definition feed :: "string list \<Rightarrow> 's Server \<Rightarrow> bool" where
  "feed evs s \<longleftrightarrow> sv_maxRecentEvents s = 20 \<and> map te_Status (sv_recentEvents s) = drop (length evs - 20) evs \<and>
     map te_Status (sv_taskEvents s) = take 100 evs"

lemma feed_BroadcastTaskEvent:
  assumes "feed evs s" and "run_state (BroadcastTaskEvent i ty st d s) w = (s', w')"
  shows "feed (evs @ [st]) s'"
proof -
  define e where "e = \<lparr>te_ID = i, te_Type = ty, te_Status = st, te_Duration = round_string d Millisecond,
    te_Timestamp = rfc3339 (w_clock w (w_tick w))\<rparr>"
  with assms(2) have e: "te_Status e = st" "sv_maxRecentEvents s' = sv_maxRecentEvents s"
      "sv_recentEvents s' = push_bounded (sv_maxRecentEvents s) (sv_recentEvents s) e"
      "sv_taskEvents s' = try_send 100 (sv_taskEvents s) e"
    by (auto simp: BroadcastTaskEvent_def run_simps Let_def)
  have old: "map te_Status (sv_recentEvents s) = drop (length evs - 20) evs" "map te_Status (sv_taskEvents s) = take 100 evs"
    "sv_maxRecentEvents s = 20" using assms(1) by (simp_all add: feed_def)
  have "map te_Status (sv_recentEvents s') = push_bounded 20 (map te_Status (sv_recentEvents s)) st"
    using e old(3) by (auto simp: push_bounded_def Let_def drop_map)
  with push_bounded_suffix [OF old(1), of st]
  have "map te_Status (sv_recentEvents s') = drop (length (evs @ [st]) - 20) (evs @ [st])" by simp
  moreover have "length (sv_taskEvents s) = min 100 (length evs)" using arg_cong [OF old(2), of length] by simp
  then have "map te_Status (sv_taskEvents s') = take 100 (evs @ [st])" using e old(2) by (auto simp: try_send_def)
  ultimately show ?thesis using e(2) old(3) by (simp add: feed_def)
qed

lemma feed_broadcast_new:
  "feed evs s \<Longrightarrow> run_state (broadcast_new rand st sp b k n s) w = (s', w') \<Longrightarrow> feed (evs @ replicate n st) s'"
proof (induction n arbitrary: evs k s w)
  case (Suc n)
  from Suc.prems(2) obtain i ty d v u v' where
    "run_state (BroadcastTaskEvent i ty st d s) v = (u, v')" "run_state (broadcast_new rand st sp b (k + 2) n u) v' = (s', w')"
    by (auto simp: run_simps Let_def split: prod.splits)
  with feed_BroadcastTaskEvent [OF Suc.prems(1)] Suc.IH show ?case by fastforce
qed simp

text \<open>The statuses that the goroutine broadcasts, when the counters read in turn only grow.\<close>

fun new_events :: "int \<Rightarrow> int \<Rightarrow> worker_stats list \<Rightarrow> string list" where
  "new_events p f [] = []"
| "new_events p f (st # sts) = replicate (nat (tasksProcessed st - p)) ''success'' @
     replicate (nat (tasksFailed st - f)) ''failed'' @ new_events (tasksProcessed st) (tasksFailed st) sts"

definition counters_grow :: "int \<Rightarrow> int \<Rightarrow> worker_stats list \<Rightarrow> bool" where
  "counters_grow p f sts \<longleftrightarrow> 0 \<le> p \<and> 0 \<le> f \<and> sorted (p # map tasksProcessed sts) \<and> sorted (f # map tasksFailed sts) \<and>
     (\<forall>st \<in> set sts. tasksProcessed st < 2 ^ 63 \<and> tasksFailed st < 2 ^ 63)"

lemma counters_grow_Cons:
  "counters_grow p f (st # sts) \<longleftrightarrow> 0 \<le> p \<and> 0 \<le> f \<and> p \<le> tasksProcessed st \<and> f \<le> tasksFailed st \<and>
     tasksProcessed st < 2 ^ 63 \<and> tasksFailed st < 2 ^ 63 \<and> counters_grow (tasksProcessed st) (tasksFailed st) sts"
  by (auto simp: counters_grow_def)

lemma feed_event_loop:
  assumes "feed evs s" and "counters_grow p f sts" and "run_state (event_loop rand iw (map Some sts) p f s) w = (s', w')"
  shows "feed (evs @ new_events p f sts) s'"
  using assms
proof (induction sts arbitrary: evs p f s w)
  case (Cons st sts)
  let ?P = "tasksProcessed st" and ?F = "tasksFailed st"
  from Cons.prems(2) have g: "0 \<le> p" "0 \<le> f" "p \<le> ?P" "f \<le> ?F" "?P < 2 ^ 63" "?F < 2 ^ 63" "counters_grow ?P ?F sts"
    by (simp_all add: counters_grow_Cons)
  then have "wrap64 (?P - p) = ?P - p" "wrap64 (?F - f) = ?F - f" by (simp_all add: wrap64_id in64_def)
  then have n: "(if p < ?P then nat (wrap64 (?P - p)) else 0) = nat (?P - p)" "(if f < ?F then nat (wrap64 (?F - f)) else 0) = nat (?F - f)"
    "(if p < ?P then ?P else p) = ?P" "(if f < ?F then ?F else f) = ?F" using g by auto
  obtain s1 w1 where r1: "run_state (broadcast_new (rand (length sts)) ''success'' 800 200 0 (nat (?P - p)) s) w = (s1, w1)" by fastforce
  obtain s2 w2 where r2: "run_state (broadcast_new (rand (length sts)) ''failed'' 500 100 (2 * nat (?P - p)) (nat (?F - f)) s1) w1 = (s2, w2)"
    by fastforce
  have "run_state (event_loop rand iw (map Some sts) ?P ?F s2) w2 = (s', w')"
    using Cons.prems(3) r1 r2 by (simp add: event_tick_def IW_Stats_def Worker_Stats_def n Let_def)
  from Cons.IH [OF feed_broadcast_new [OF feed_broadcast_new [OF Cons.prems(1) r1] r2] g(7) this] show ?case by simp
qed simp

lemma count_new_events:
  "counters_grow p f sts \<Longrightarrow>
     count_list (new_events p f sts) ''success'' = nat (last (p # map tasksProcessed sts) - p) \<and>
     count_list (new_events p f sts) ''failed'' = nat (last (f # map tasksFailed sts) - f) \<and>
     set (new_events p f sts) \<subseteq> {''success'', ''failed''}"
proof (induction sts arbitrary: p f)
  case (Cons st sts)
  have count: "count_list (replicate n x) y = (if x = y then n else 0)" for n and x y :: string by (induction n) auto
  have last: "y \<le> last (y # ys)" if "sorted (y # ys)" for y :: int and ys using that by (cases ys rule: rev_cases) auto
  from Cons.prems have g: "p \<le> tasksProcessed st" "f \<le> tasksFailed st" "counters_grow (tasksProcessed st) (tasksFailed st) sts"
    by (simp_all add: counters_grow_Cons)
  from g(3) have "tasksProcessed st \<le> last (tasksProcessed st # map tasksProcessed sts)" "tasksFailed st \<le> last (tasksFailed st # map tasksFailed sts)"
    by (auto simp: counters_grow_def intro!: last simp del: last.simps)
  with g Cons.IH [OF g(3)] show ?case by (auto simp: count nat_add_distrib [symmetric] last_ConsR simp del: last.simps)
qed simp

subsection \<open>The workload\<close>

lemma sample_handlers:
  "isl (Registry_Get (setupTaskHandlers rnd roll NewRegistry) ty) \<longleftrightarrow> ty \<notin> set sample_types"
  by (auto simp: setupTaskHandlers_def Let_def Register_def NewRegistry_def Registry_Get_def sample_types_def)

definition demo_task :: "task \<Rightarrow> bool" where
  "demo_task t \<longleftrightarrow> t_Type t \<in> set sample_types \<and> t_MaxRetries t = 3 \<and> t_Timeout t = 5 * Second \<and> t_State t = StatePending"

lemma nth_rand: "xs \<noteq> [] \<Longrightarrow> xs ! rand_Intn r (length xs) \<in> set xs"
  by (simp add: rand_Intn_def)

lemma run_generateSingleTask:
  assumes q: "holds_queue (w_db w) q" and clock: "clock_ok w" and fresh: "u \<notin> set (queued_ids q)"
  shows "\<exists>d n t. run_state (generateSingleTask (RQ (redis_client pk)) Live sample_types sample_priorities rand u m) w =
      (RecordTaskEnqueued m, w\<lparr>w_db := d, w_tick := n\<rparr>) \<and>
    holds_queue d (a_enqueue t q) \<and> t_ID t = u \<and> t_Priority t \<in> set priorities \<and> demo_task t"
proof -
  let ?ty = "sample_types ! rand_Intn (rand 0) (length sample_types)" and ?p = "sample_priorities ! rand_Intn (rand 1) (length sample_priorities)"
  let ?j = "sample_payload (rand_Intn (rand 2) 10000) (w_clock w (w_tick w)) (rand_Intn (rand 3) 100)"
  let ?w = "w\<lparr>w_tick := Suc (Suc (w_tick w))\<rparr>"
  let ?t = "WithTimeout (WithMaxRetries (WithPriority (made u (w_clock w (Suc (w_tick w))) ?ty ?j PriorityNormal) ?p) 3) (5 * Second)"
  have ty: "?ty \<in> set sample_types" by (rule nth_rand) (simp add: sample_types_def)
  have "?p \<in> set sample_priorities" by (rule nth_rand) (simp add: sample_priorities_def)
  then have p: "?p \<in> set priorities" by (auto simp: sample_priorities_def set_priorities)
  with clock have ok: "task_ok ?t"
    using made_ok [of "w_clock w (Suc (w_tick w))" ?p u ?ty ?j]
    by (simp add: clock_ok_def WithTimeout_def WithMaxRetries_def task_ok_def times_marshalable_def in64_def)
  have t: "t_ID ?t = u" "t_Priority ?t = ?p" "demo_task ?t"
    using ty by (simp_all add: WithTimeout_def WithMaxRetries_def demo_task_def made_def WithPriority_def)
  have "t_ID v \<noteq> t_ID ?t" if "r \<in> set priorities" "v \<in> set (q r)" for r v
    using queued_fresh [OF fresh that] t(1) by simp
  with holds_queue_Enqueue [of ?w q ?t pk Live] q ok p t(2) obtain d where
    "run_state (Enqueue (RQ (redis_client pk)) Live (Some ?t)) ?w = (None, ?w\<lparr>w_db := d, w_tick := Suc (w_tick ?w)\<rparr>)"
    and "holds_queue d (a_enqueue ?t q)" by auto
  with t p show ?thesis
    by (intro exI [of _ d] exI [of _ "Suc (w_tick ?w)"] exI [of _ ?t]) (simp add: generateSingleTask_def run_simps Let_def)
qed

text \<open>A queue that holds \<open>n\<close> generated tasks and nothing else, and a world that can go on.\<close>

definition generated :: "(nat \<Rightarrow> string) \<Rightarrow> nat \<Rightarrow> db world \<Rightarrow> bool" where
  "generated uuids n w \<longleftrightarrow> clock_ok w \<and> (\<exists>q. holds_queue (w_db w) q \<and> set (queued_ids q) = uuids ` {..< n} \<and>
     length (a_order q) = n \<and> (\<forall>t \<in> set (a_order q). demo_task t))"

lemma generated_step:
  assumes "generated uuids k w" and "inj_on uuids {..k}"
  shows "\<exists>w'. run_state (generateSingleTask (RQ (redis_client pk)) Live sample_types sample_priorities rand (uuids k) m) w =
    (RecordTaskEnqueued m, w') \<and> generated uuids (Suc k) w'"
proof -
  from assms(1) obtain q where q: "holds_queue (w_db w) q" "set (queued_ids q) = uuids ` {..< k}" "length (a_order q) = k"
    "\<forall>t \<in> set (a_order q). demo_task t" and clock: "clock_ok w" by (auto simp: generated_def)
  have "uuids k \<notin> uuids ` {..< k}" using inj_onD [OF assms(2), of k] by fastforce
  with run_generateSingleTask [OF q(1) clock, of "uuids k" pk rand m] q(2) obtain d n t where
    run: "run_state (generateSingleTask (RQ (redis_client pk)) Live sample_types sample_priorities rand (uuids k) m) w =
      (RecordTaskEnqueued m, w\<lparr>w_db := d, w_tick := n\<rparr>)"
    and t: "holds_queue d (a_enqueue t q)" "t_ID t = uuids k" "t_Priority t \<in> set priorities" "demo_task t" by auto
  have "set (queued_ids (a_enqueue t q)) = uuids ` {..< Suc k}" "length (a_order (a_enqueue t q)) = Suc k"
    using queued_enqueue [OF t(3), of q] q(2,3) t(2) by (simp_all add: lessThan_Suc)
  moreover have "\<forall>u \<in> set (a_order (a_enqueue t q)). demo_task u"
    using q(4) t(3,4) by (auto simp: set_a_order a_enqueue_def split: if_splits)
  ultimately have "generated uuids (Suc k) (w\<lparr>w_db := d, w_tick := n\<rparr>)"
    using clock t(1) by (auto simp: generated_def clock_ok_def)
  with run show ?thesis by blast
qed

lemma generated_n:
  assumes "generated uuids k w" and "inj uuids"
  shows "\<exists>w'. run_state (generate_n (RQ (redis_client pk)) Live rand uuids pause k n m) w = ((RecordTaskEnqueued ^^ n) m, w') \<and>
    generated uuids (k + n) w'"
  using assms(1)
proof (induction n arbitrary: k m w)
  case (Suc n)
  from generated_step [OF Suc.prems inj_on_subset [OF assms(2)], of pk "rand k" m] obtain v where
    v: "run_state (generateSingleTask (RQ (redis_client pk)) Live sample_types sample_priorities (rand k) (uuids k) m) w = (RecordTaskEnqueued m, v)"
      "generated uuids (Suc k) v" by auto
  obtain v' where "run_state (case pause of None \<Rightarrow> ret () | Some d \<Rightarrow> time_Sleep d) v = ((), v')" "w_db v' = w_db v" "w_clock v' = w_clock v"
    by (cases pause) (simp_all add: run_simps)
  moreover from this v(2) have "generated uuids (Suc k) v'" by (simp add: generated_def clock_ok_def)
  ultimately show ?case using Suc.IH [of "Suc k" v' "RecordTaskEnqueued m"] v(1) by (auto simp: funpow_swap1)
qed auto

text \<open>The number of tasks that a sequence of events makes.\<close>

fun workload :: "gen_event list \<Rightarrow> nat" where
  "workload [] = 0"
| "workload (GDone # es) = 0"
| "workload (GTick r # es) = rand_Intn r 3 + 1 + workload es"
| "workload (GBurst # es) = 10 + workload es"

lemma funpow_join: "(f ^^ n) ((f ^^ k) x) = (f ^^ (n + k)) x"
  by (simp add: funpow_add)

lemma generated_loop:
  assumes "generated uuids k w" and "inj uuids"
  shows "\<exists>w'. run_state (workload_loop (RQ (redis_client pk)) Live rand uuids es k m) w = ((RecordTaskEnqueued ^^ workload es) m, w') \<and>
    generated uuids (k + workload es) w'"
  using assms(1)
proof (induction es arbitrary: k m w rule: workload.induct)
  case (3 r es)
  let ?c = "rand_Intn r 3 + 1"
  from generated_n [OF "3.prems" assms(2), of pk rand None ?c m] obtain v where
    "run_state (generate_n (RQ (redis_client pk)) Live rand uuids None k ?c m) w = ((RecordTaskEnqueued ^^ ?c) m, v)" "generated uuids (k + ?c) v" by auto
  with "3.IH" [of "k + ?c" v "(RecordTaskEnqueued ^^ ?c) m"] show ?case
    by (auto simp: Let_def funpow_join ac_simps simp del: funpow.simps generate_n.simps)
next
  case (4 es)
  from generated_n [OF "4.prems" assms(2), of pk rand "Some (50 * Millisecond)" 10 m] obtain v where
    "run_state (generate_n (RQ (redis_client pk)) Live rand uuids (Some (50 * Millisecond)) k 10 m) w = ((RecordTaskEnqueued ^^ 10) m, v)"
    "generated uuids (k + 10) v" by auto
  with "4.IH" [of "k + 10" v "(RecordTaskEnqueued ^^ 10) m"] show ?case
    by (auto simp: funpow_join ac_simps simp del: funpow.simps generate_n.simps)
qed auto

section \<open>Properties\<close>

text \<open>C40: 
  The five workers of the demo are registered twice, by \<open>startWorkers\<close> and again by
  \<open>InstrumentedWorker.Start\<close>: in whatever order their goroutines start, the metrics then count ten
  active and ten idle workers, and have details of five.
\<close>

theorem dashboard_counts_workers_twice:
  assumes start: "run_state (startWorkers d) w = ((iws, d'), w1)"
    and empty: "GetWorkerCounts (dc_metrics d) = (0, 0, 0)" "m_workerStats (dc_metrics d) = []"
    and order: "mset order = mset iws" and run: "run_state (StartAll order (dc_metrics d')) w1 = ((e, iws', m'), w')"
  shows "e = None \<and> length iws = 5 \<and> GetWorkerCounts m' = (10, 10, 0) \<and> length (GetAllWorkerDetails m') = 5"
proof -
  let ?name = "\<lambda>i :: int. ''worker-'' @ show_int (i + 1)" and ?ids = "\<lambda>iws. map (\<lambda>iw. wk_id (iw_worker iw)) iws"
  have "registrations 0 {} (dc_metrics d)" using empty by (simp add: registrations_def)
  from registrations_start_demo_workers [OF this _ start [unfolded startWorkers_def]]
  have d': "registrations 5 (?name ` {0 .. 4}) (dc_metrics d')" "?ids iws = map ?name [0 .. 4]"
    "\<forall>iw \<in> set iws. iw_life iw = new_life (wk_id (iw_worker iw))" by simp_all
  have len: "length iws = 5" using arg_cong [OF d'(2), of length] by simp
  have o: "set order = set iws" "length order = 5" using order len mset_eq_setD [OF order] mset_eq_length [OF order] by simp_all
  have "set (?ids iws) = ?name ` {0 .. 4}" unfolding d'(2) by simp
  then have "(\<lambda>iw. wk_id (iw_worker iw)) ` set order = ?name ` {0 .. 4}" by (simp add: o(1))
  with registrations_StartAll [OF d'(1) _ run] d'(3) o
  have m': "e = None" "registrations 10 (?name ` {0 .. 4}) m'" by simp_all
  have "inj_on ?name {0 .. 4}" by (simp add: inj_on_def)
  from card_image [OF this] have "card (?name ` {0 .. 4}) = 5" by simp
  moreover have "distinct (map fst (m_workerStats m'))" "fst ` set (m_workerStats m') = ?name ` {0 .. 4}"
    using m'(2) by (auto simp only: registrations_def)
  note distinct_card [OF this(1)] this(2)
  ultimately have "length (m_workerStats m') = 5" by simp
  with m' len show ?thesis by (simp add: registrations_def GetAllWorkerDetails_def)
qed

theorem dashboard_counts_workers_twice_witness:
  "\<exists>d iws d' w1 e iws' m' w'. run_state (startWorkers d) (start_world empty_db) = ((iws, d'), w1) \<and>
     run_state (StartAll (rev iws) (dc_metrics d')) w1 = ((e, iws', m'), w') \<and>
     e = None \<and> GetWorkerCounts m' = (10, 10, 0) \<and> length (GetAllWorkerDetails m') = 5"
proof -
  let ?q = "RQ (redis_client first_pick)"
  let ?m = "fst (run_state (NewMetrics ?q) (start_world empty_db))"
  let ?d = "\<lparr>dc_queue = ?q, dc_store = RS (redis_client first_pick), dc_registry = NewRegistry,
    dc_dashboard = NewServer [] ?m ?q None\<rparr>"
  obtain iws d' w1 where s: "run_state (startWorkers ?d) (start_world empty_db) = ((iws, d'), w1)" by (metis prod.exhaust)
  obtain e iws' m' w' where r: "run_state (StartAll (rev iws) (dc_metrics d')) w1 = ((e, iws', m'), w')" by (metis prod.exhaust)
  have "GetWorkerCounts (dc_metrics ?d) = (0, 0, 0)" "m_workerStats (dc_metrics ?d) = []"
    by (simp_all add: dc_metrics_def NewServer_def NewMetrics_def GetWorkerCounts_def run_simps)
  from dashboard_counts_workers_twice [OF s this _ r] s r show ?thesis
    by (intro exI [of _ ?d] exI [of _ iws] exI [of _ d'] exI [of _ w1] exI [of _ e] exI [of _ iws'] exI [of _ m'] exI [of _ w']) simp
qed

text \<open>C30: 
  The feed of a worker has one event for each task that the worker's counters ever counted, however
  the counters grow from tick to tick: as many successes as tasks were processed and as many failures as
  failed. The server keeps the last 20 events for new clients and, while nobody takes events from
  the channel, the first 100.
\<close>

theorem feed_shows_each_task_once:
  assumes "run_state (event_loop rand iw (map Some (sts @ [st])) 0 0 s) w = (s', w')"
    and "sorted (0 # map tasksProcessed (sts @ [st]))" "sorted (0 # map tasksFailed (sts @ [st]))"
    and "\<forall>r \<in> set (sts @ [st]). tasksProcessed r < 2 ^ 63 \<and> tasksFailed r < 2 ^ 63"
    and "sv_recentEvents s = []" "sv_taskEvents s = []" "sv_maxRecentEvents s = 20"
  shows "\<exists>evs. count_list evs ''success'' = nat (tasksProcessed st) \<and> count_list evs ''failed'' = nat (tasksFailed st) \<and>
    set evs \<subseteq> {''success'', ''failed''} \<and>
    map te_Status (getRecentEvents s') = drop (length evs - 20) evs \<and> map te_Status (sv_taskEvents s') = take 100 evs"
proof -
  have grow: "counters_grow 0 0 (sts @ [st])" using assms(2-4) by (simp add: counters_grow_def)
  have "feed [] s" using assms(5-7) by (simp add: feed_def)
  from feed_event_loop [OF this grow assms(1)] have "feed (new_events 0 0 (sts @ [st])) s'" by simp
  moreover have "last (0 # map tasksProcessed (sts @ [st])) = tasksProcessed st" "last (0 # map tasksFailed (sts @ [st])) = tasksFailed st"
    by simp_all
  ultimately show ?thesis
    using count_new_events [OF grow] by (intro exI [of _ "new_events 0 0 (sts @ [st])"]) (simp add: feed_def getRecentEvents_def)
qed

theorem feed_shows_each_task_once_witness:
  "\<exists>iw s s' w' evs. run_state (event_loop (\<lambda>_ _. 0) iw (map Some ([\<lparr>tasksProcessed = 1, tasksFailed = 0, tasksRetried = 0\<rparr>] @
       [\<lparr>tasksProcessed = 3, tasksFailed = 1, tasksRetried = 0\<rparr>])) 0 0 s) (start_world empty_db) = (s', w') \<and>
     count_list evs ''success'' = 3 \<and> count_list evs ''failed'' = 1 \<and> map te_Status (sv_taskEvents s') = take 100 evs"
proof -
  let ?q = "RQ (redis_client first_pick)"
  let ?s = "NewServer [] (fst (run_state (NewMetrics ?q) (start_world empty_db))) ?q None"
  let ?a = "\<lparr>tasksProcessed = 1, tasksFailed = 0, tasksRetried = 0\<rparr>" and ?b = "\<lparr>tasksProcessed = 3, tasksFailed = 1, tasksRetried = 0\<rparr>"
  let ?iw = "NewInstrumentedWorker (WK (redis_client first_pick) ''a'' NewRegistry 1) \<lparr>tasksProcessed = 0, tasksFailed = 0, tasksRetried = 0\<rparr> (new_life ''a'')"
  obtain s' w' where run: "run_state (event_loop (\<lambda>_ _. 0) ?iw (map Some ([?a] @ [?b])) 0 0 ?s) (start_world empty_db) = (s', w')"
    by (metis prod.exhaust)
  from feed_shows_each_task_once [OF run] obtain evs where
    "count_list evs ''success'' = nat 3" "count_list evs ''failed'' = nat 1" "map te_Status (sv_taskEvents s') = take 100 evs"
    by (auto simp: NewServer_def)
  with run show ?thesis by (intro exI [of _ ?iw] exI [of _ ?s] exI [of _ s'] exI [of _ w'] exI [of _ evs]) simp
qed

text \<open>
  The generator against an empty queue, with different identifiers: after any sequence of regular
  ticks and bursts the queue holds the initial 20 tasks and those of the ticks, the metrics count
  exactly the tasks that are queued, and each of them has a handler in the registry.
\<close>

theorem generator_counts_its_tasks:
  assumes "holds_queue (w_db w) (\<lambda>_. [])" and "clock_ok w" and "inj uuids" and "m_tasksEnqueued m = 0" and "workload events < 2 ^ 62"
  shows "\<exists>m' w' q. run_state (generateTasks (RQ (redis_client pk)) Live rand uuids events m) w = (m', w') \<and>
    m_tasksEnqueued m' = int (20 + workload events) \<and> holds_queue (w_db w') q \<and> length (a_order q) = 20 + workload events \<and>
    (\<forall>t \<in> set (a_order q). \<not> isl (Registry_Get (setupTaskHandlers rnd roll NewRegistry) (t_Type t)) \<and> t_MaxRetries t = 3)"
proof -
  have "generated uuids 0 w" using assms(1,2) by (auto simp: generated_def queued_ids_def a_order_def intro!: exI [of _ "\<lambda>_. []"])
  from generated_n [OF this assms(3), of pk rand "Some (100 * Millisecond)" 20 m] obtain v where
    v: "run_state (generate_n (RQ (redis_client pk)) Live rand uuids (Some (100 * Millisecond)) 0 20 m) w = ((RecordTaskEnqueued ^^ 20) m, v)"
    "generated uuids 20 v" by auto
  from generated_loop [OF v(2) assms(3), of pk rand events "(RecordTaskEnqueued ^^ 20) m"] obtain w' where
    w': "run_state (workload_loop (RQ (redis_client pk)) Live rand uuids events 20 ((RecordTaskEnqueued ^^ 20) m)) v =
      ((RecordTaskEnqueued ^^ (20 + workload events)) m, w')" "generated uuids (20 + workload events) w'"
    by (auto simp only: funpow_join add.commute)
  from w'(2) obtain q where "holds_queue (w_db w') q" "length (a_order q) = 20 + workload events" "\<forall>t \<in> set (a_order q). demo_task t"
    by (auto simp: generated_def)
  moreover have "m_tasksEnqueued ((RecordTaskEnqueued ^^ (20 + workload events)) m) = int (20 + workload events)"
    using assms(4,5) by (intro RecordTaskEnqueued_funpow) simp_all
  ultimately show ?thesis using v(1) w'(1)
    by (intro exI [of _ "(RecordTaskEnqueued ^^ (20 + workload events)) m"] exI [of _ w'] exI [of _ q])
       (simp add: generateTasks_def sample_handlers demo_task_def del: generate_n.simps funpow.simps)
qed

theorem generator_counts_its_tasks_witness:
  "\<exists>m m' w' q. run_state (generateTasks (RQ (redis_client first_pick)) Live (\<lambda>_ _. 0) (\<lambda>n. show_int (int n)) [GTick 1, GBurst, GDone, GBurst] m)
       ((start_world empty_db)\<lparr>w_clock := \<lambda>_. 0\<rparr>) = (m', w') \<and>
     m_tasksEnqueued m' = 32 \<and> holds_queue (w_db w') q \<and> length (a_order q) = 32"
proof -
  let ?w = "(start_world empty_db)\<lparr>w_clock := \<lambda>_. 0\<rparr>" and ?m = "fst (run_state (NewMetrics (RQ (redis_client first_pick))) (start_world empty_db))"
  let ?es = "[GTick 1, GBurst, GDone, GBurst]" and ?u = "\<lambda>n. show_int (int n)"
  have load: "workload ?es = 12" by (simp add: rand_Intn_def)
  have "holds_queue (w_db ?w) (\<lambda>_. [])" "clock_ok ?w" "inj ?u" "m_tasksEnqueued ?m = 0" "workload ?es < 2 ^ 62"
    by (simp_all add: clock_ok_def time_marshalable_def inj_on_def NewMetrics_def run_simps rand_Intn_def)
  from generator_counts_its_tasks [OF this, of first_pick "\<lambda>_ _. 0" id "\<lambda>_ _. 0"] obtain m' w' q where
    "run_state (generateTasks (RQ (redis_client first_pick)) Live (\<lambda>_ _. 0) ?u ?es ?m) ?w = (m', w')"
    "m_tasksEnqueued m' = int (20 + workload ?es)" "holds_queue (w_db w') q" "length (a_order q) = 20 + workload ?es" by blast
  then show ?thesis unfolding load by (intro exI [of _ ?m] exI [of _ m'] exI [of _ w'] exI [of _ q]) simp
qed

end
