(* ===== verification/Spool_AutoscalingDemo.thy ===== *)
theory Spool_AutoscalingDemo
  imports Spool_Demos Spool_Images
begin

text \<open>
  \<open>examples/autoscaling/main.go\<close>: a pool of two to ten workers under the auto-scaler, a burst of
  fifty tasks, and the reports. The goroutines are functions of their own; what the others do while
  one sleeps is a parameter. Printed output is the data that is printed.
\<close>

section \<open>Definitions\<close>

definition demo_scaling :: "(string \<Rightarrow> string) \<Rightarrow> AutoScalingConfig" where
  "demo_scaling env =
     (wc_AutoScaling (cfg_Worker (Default env)))\<lparr>as_Enabled := True, as_MinWorkers := 2, as_MaxWorkers := 10,
        as_ScaleUpThreshold := 20, as_ScaleDownIdleTime := 5 * Second, as_CheckInterval := 2 * Second\<rparr>"

text \<open>A missing \<open>id\<close> is the nil interface value, which is encoded as \<open>null\<close>.\<close>

definition heavy_handler :: handler where
  "heavy_handler n timeout payload =
     (case unmarshal_map payload of
        Inl err \<Rightarrow> Inl err
      | Inr data \<Rightarrow>
        (let i = (case map_of data ''id'' of None \<Rightarrow> JNull | Some j \<Rightarrow> j)
         in Inr (GJson (JObj [(''id'', i), (''result'', JStr ''processed'')]))))"

definition demo_pool_config :: "AutoScalingConfig \<Rightarrow> PoolConfig" where
  "demo_pool_config cfg =
     \<lparr>pc_MinWorkers = as_MinWorkers cfg, pc_MaxWorkers = as_MaxWorkers cfg, pc_PollInterval = 100 * Millisecond,
      pc_ShutdownTimeout = 10 * Second\<rparr>"

text \<open>\<open>main\<close> up to the wait for the signal: the pool, the metrics and the scaler.\<close>

definition autoscaling_main ::
  "(redis_options \<Rightarrow> 's client) \<Rightarrow> (string \<Rightarrow> string) \<Rightarrow> ('s, ('s Pool \<times> 's Metrics \<times> AutoScaler) main_run) io" where
  "autoscaling_main newClient env = do {
     let cfg = demo_scaling env;
     r \<leftarrow> NewRedisQueue newClient ''localhost:6379'' [] 0 10;
     (case r of
        Inl err \<Rightarrow> ret (fatal ''Failed to connect to Redis'' err)
      | Inr redisQueue \<Rightarrow> do {
          let client = newClient ((addr_options ''localhost:6379'')\<lparr>o_PoolSize := 10\<rparr>);
          let redisStorage = NewRedisStorage client;
          _ \<leftarrow> Purge redisQueue Live;
          let registry = snd (Register NewRegistry ''heavy_task'' heavy_handler);
          metrics \<leftarrow> NewMetrics redisQueue;
          let pool = NewPool redisQueue (Some redisStorage) registry True (demo_pool_config cfg);
          x \<leftarrow> Pool_Start pool metrics;
          (case x of
             (Some err, _) \<Rightarrow> ret (fatal ''Failed to start worker pool'' err)
           | (None, pool, metrics) \<Rightarrow>
             (case Scaler_Start (NewAutoScaler cfg) of
                (Some err, _) \<Rightarrow> ret (fatal ''Failed to start auto-scaler'' err)
              | (None, scaler) \<Rightarrow> ret (Running (pool, metrics, scaler))))
        })
   }"

text \<open>The first phase: the tasks \<open>i\<close>, \<open>i + 1\<close>, ...; a task is counted even when it was not enqueued.\<close>

primrec enqueue_burst ::
  "'s RedisQueue \<Rightarrow> ctx \<Rightarrow> (nat \<Rightarrow> string) \<Rightarrow> nat \<Rightarrow> nat \<Rightarrow> 's Metrics \<Rightarrow> ('s, 's Metrics) io" where
  "enqueue_burst q ctx uuids i 0 m = ret m"
| "enqueue_burst q ctx uuids i (Suc n) m = do {
     r \<leftarrow> task_NewTask (uuids i) ''heavy_task'' (GJson (JObj [(''id'', JNum (int i + 1))]));
     (case r of
        Inl err \<Rightarrow> enqueue_burst q ctx uuids (Suc i) n m
      | Inr t \<Rightarrow> do {
          _ \<leftarrow> Enqueue q ctx (Some t);
          enqueue_burst q ctx uuids (Suc i) n (RecordTaskEnqueued m)
        })
   }"

record monitor_line =
  ml_workers :: pool_stats
  ml_queueDepth :: int
  ml_processed :: int
  ml_throughput :: float64
  ml_scaled :: "int \<times> int" \<comment> \<open>up, down\<close>

definition monitor_tick :: "rounding \<Rightarrow> 's Metrics \<Rightarrow> 's Pool \<Rightarrow> AutoScaler \<Rightarrow> ('s, monitor_line) io" where
  "monitor_tick rnd m p s = do {
     snapshot \<leftarrow> Snapshot rnd m;
     let poolStats = Pool_GetStats p;
     let scalerStats = Scaler_GetStats s;
     _ \<leftarrow> time_Now;
     ret \<lparr>ml_workers = poolStats, ml_queueDepth = ms_QueueDepth snapshot, ml_processed = ms_TasksProcessed snapshot,
       ml_throughput = ms_CurrentThroughput snapshot,
       ml_scaled = (st_scale_up_count scalerStats, st_scale_down_count scalerStats)\<rparr>
   }"

text \<open>The loop: at each tick the state the others have reached, \<open>None\<close> when the context ends.\<close>

fun monitorMetrics ::
  "rounding \<Rightarrow> ('s Metrics \<times> 's Pool \<times> AutoScaler) option list \<Rightarrow> monitor_line list \<Rightarrow> ('s, monitor_line list) io" where
  "monitorMetrics rnd [] out = ret out"
| "monitorMetrics rnd (None # es) out = ret out"
| "monitorMetrics rnd (Some (m, p, s) # es) out = do { l \<leftarrow> monitor_tick rnd m p s; monitorMetrics rnd es (out @ [l]) }"

record scaling_report =
  sr_tasks :: "int \<times> int \<times> int \<times> int" \<comment> \<open>enqueued, processed, failed, in progress\<close>
  sr_workers :: "int \<times> int \<times> int" \<comment> \<open>active, idle, busy\<close>
  sr_throughput :: "float64 \<times> float64"
  sr_uptime :: int
  sr_scaled :: "int \<times> int"
  sr_decisions :: "(int \<times> ScalingDecision) list"

definition print_scaling_stats :: "rounding \<Rightarrow> 's Metrics \<Rightarrow> AutoScaler \<Rightarrow> ('s, scaling_report) io" where
  "print_scaling_stats rnd m s = do {
     snapshot \<leftarrow> Snapshot rnd m;
     let scalerStats = Scaler_GetStats s;
     let history = GetDecisionHistory 5 s;
     ret \<lparr>sr_tasks = (ms_TasksEnqueued snapshot, ms_TasksProcessed snapshot, ms_TasksFailed snapshot, ms_TasksInProgress snapshot),
       sr_workers = (ms_ActiveWorkers snapshot, ms_IdleWorkers snapshot, ms_BusyWorkers snapshot),
       sr_throughput = (ms_CurrentThroughput snapshot, ms_AvgThroughput snapshot),
       sr_uptime = duration_Round (ms_Uptime snapshot) Second,
       sr_scaled = (st_scale_up_count scalerStats, st_scale_down_count scalerStats),
       sr_decisions = filter (\<lambda>(i, d). sd_Action d \<noteq> NoAction) (zip (map (\<lambda>i. int i + 1) [0 ..< length history]) history)\<rparr>
   }"

text \<open>
  The goroutine that makes the workload, up to the signal it sends: \<open>bg k\<close> is what the others do
  in its \<open>k\<close>-th sleep.
\<close>

definition simulate_workload ::
  "rounding \<Rightarrow> 's RedisQueue \<Rightarrow> ctx \<Rightarrow> (nat \<Rightarrow> string) \<Rightarrow>
     (nat \<Rightarrow> 's Pool \<times> 's Metrics \<times> AutoScaler \<Rightarrow> ('s, 's Pool \<times> 's Metrics \<times> AutoScaler) io) \<Rightarrow>
     's Pool \<times> 's Metrics \<times> AutoScaler \<Rightarrow> ('s, scaling_report \<times> 's Pool \<times> 's Metrics \<times> AutoScaler) io" where
  "simulate_workload rnd q ctx uuids bg x = do {
     _ \<leftarrow> time_Sleep (2 * Second);
     (p, m, s) \<leftarrow> bg 0 x;
     m \<leftarrow> enqueue_burst q ctx uuids 0 50 m;
     _ \<leftarrow> time_Sleep (20 * Second);
     x \<leftarrow> bg 1 (p, m, s);
     _ \<leftarrow> time_Sleep (15 * Second);
     (p, m, s) \<leftarrow> bg 2 x;
     report \<leftarrow> print_scaling_stats rnd m s;
     _ \<leftarrow> time_Sleep (10 * Second);
     x \<leftarrow> bg 3 (p, m, s);
     ret (report, x)
   }"

text \<open>
  The end of \<open>main\<close>: \<open>ctx\<close> is cancelled, then the deferred calls run, the last one first. \<open>None\<close>: a
  panic, or a call that does not return.
\<close>

definition autoscaling_exit :: "bool \<Rightarrow> 's Pool \<Rightarrow> AutoScaler \<Rightarrow> (gerr option \<times> 's Pool \<times> AutoScaler) option" where
  "autoscaling_exit done_first p s =
     (let ctx = Canceled
      in case Scaler_Stop s of
           None \<Rightarrow> None
         | Some s \<Rightarrow> map_option (\<lambda>(e, p). (e, p, s)) (Pool_Shutdown ctx done_first p))"

section \<open>Lemmas\<close>

lemma demo_scaling_simps [simp]:
  "as_MinWorkers (demo_scaling env) = 2" "as_MaxWorkers (demo_scaling env) = 10" "as_ScaleUpThreshold (demo_scaling env) = 20"
  "as_ScaleDownIdleTime (demo_scaling env) = 5 * Second"
  by (simp_all add: demo_scaling_def)

subsection \<open>The burst\<close>

definition burst_queue :: "(nat \<Rightarrow> string) \<Rightarrow> nat \<Rightarrow> db world \<Rightarrow> bool" where
  "burst_queue uuids n w \<longleftrightarrow> clock_ok w \<and>
     (\<exists>q. holds_queue (w_db w) q \<and> set (queued_ids q) = uuids ` {..< n} \<and> length (a_order q) = n)"

lemma burst_step:
  assumes "burst_queue uuids k w" and "inj_on uuids {..k}" and run: "run_state (task_NewTask (uuids k) ty (GJson j)) w = (Inr t, v)"
  shows "\<exists>d n. run_state (Enqueue (RQ (redis_client pk)) Live (Some t)) v = (None, w\<lparr>w_db := d, w_tick := n\<rparr>) \<and>
    burst_queue uuids (Suc k) (w\<lparr>w_db := d, w_tick := n\<rparr>)"
proof -
  from assms(1) obtain q where q: "holds_queue (w_db w) q" "set (queued_ids q) = uuids ` {..< k}" "length (a_order q) = k"
    and clock: "clock_ok w" by (auto simp: burst_queue_def)
  have new: "uuids k \<notin> set (queued_ids q)" using inj_onD [OF assms(2), of k] q(2) by fastforce
  from run_demo_add [OF q(1) clock _ _ new, of None 1 pk ty j] obtain d n now where
    add: "run_state (demo_add (RQ (redis_client pk)) (uuids k) ty j None) w = (Running (made (uuids k) now ty j 1), w\<lparr>w_db := d, w_tick := n\<rparr>)"
    and d: "holds_queue d (a_enqueue (made (uuids k) now ty j 1) q)" by (auto simp: set_priorities)
  let ?t = "made (uuids k) now ty j 1"
  have e: "run_state (Enqueue (RQ (redis_client pk)) Live (Some t)) v = (None, w\<lparr>w_db := d, w_tick := n\<rparr>)"
    using add run by (auto simp: demo_add_def Let_def fatal_def split: prod.splits option.splits)
  have "set (queued_ids (a_enqueue ?t q)) = uuids ` {..< Suc k}" "length (a_order (a_enqueue ?t q)) = Suc k"
    using queued_enqueue [of ?t q] q(2,3) by (simp_all add: set_priorities lessThan_Suc)
  then have "burst_queue uuids (Suc k) (w\<lparr>w_db := d, w_tick := n\<rparr>)"
    using clock d by (auto simp: burst_queue_def clock_ok_def)
  with e show ?thesis by blast
qed

lemma run_enqueue_burst:
  assumes "burst_queue uuids k w" and "inj_on uuids {..< k + n}"
  shows "\<exists>d t. run_state (enqueue_burst (RQ (redis_client pk)) Live uuids k n m) w =
      ((RecordTaskEnqueued ^^ n) m, w\<lparr>w_db := d, w_tick := t\<rparr>) \<and> burst_queue uuids (k + n) (w\<lparr>w_db := d, w_tick := t\<rparr>)"
  using assms
proof (induction n arbitrary: k m w)
  case 0
  then show ?case by (intro exI [of _ "w_db w"] exI [of _ "w_tick w"]) simp
next
  case (Suc n)
  have "inj_on uuids {..k}" using Suc.prems(2) by (rule inj_on_subset) auto
  from burst_step [OF Suc.prems(1) this run_task_NewTask, of pk] obtain d t where
    e: "run_state (Enqueue (RQ (redis_client pk)) Live (Some (made (uuids k) (w_clock w (w_tick w)) ''heavy_task'' (JObj [(''id'', JNum (int k + 1))]) 1)))
      (w\<lparr>w_tick := Suc (w_tick w)\<rparr>) = (None, w\<lparr>w_db := d, w_tick := t\<rparr>)"
    and q: "burst_queue uuids (Suc k) (w\<lparr>w_db := d, w_tick := t\<rparr>)" by blast
  from Suc.IH [OF q, of "RecordTaskEnqueued m"] Suc.prems(2) obtain d' t' where
    "run_state (enqueue_burst (RQ (redis_client pk)) Live uuids (Suc k) n (RecordTaskEnqueued m)) (w\<lparr>w_db := d, w_tick := t\<rparr>) =
      ((RecordTaskEnqueued ^^ n) (RecordTaskEnqueued m), w\<lparr>w_db := d', w_tick := t'\<rparr>)"
    "burst_queue uuids (Suc k + n) (w\<lparr>w_db := d', w_tick := t'\<rparr>)" by auto
  with e show ?case by (intro exI [of _ d'] exI [of _ t']) (simp add: run_task_NewTask funpow_swap1)
qed

subsection \<open>Evaluations\<close>

text \<open>What a snapshot shows, in particular when some worker has been idle since \<open>t\<close>.\<close>

lemma oldest_time_le:
  assumes "\<forall>u \<in> set ts. 0 \<le> u" and "t \<in> set ts"
  shows "0 \<le> oldest_time ts \<and> oldest_time ts \<le> t"
proof -
  let ?f = "\<lambda>oldest t. if time_IsZero oldest \<or> t < oldest then t else oldest"
  have zero: "\<not> time_IsZero u" if "0 \<le> u" for u using that by (simp add: time_IsZero_def zero_time_def)
  have fold: "0 \<le> foldl ?f a us \<and> foldl ?f a us \<le> a \<and> (\<forall>u \<in> set us. foldl ?f a us \<le> u)" if "0 \<le> a" "\<forall>u \<in> set us. 0 \<le> u" for a us
    using that
  proof (induction us arbitrary: a)
    case (Cons u us)
    from Cons.IH [of "?f a u"] Cons.prems zero [of a] show ?case by force
  qed simp
  from assms obtain u us where ts: "ts = u # us" by (cases ts) auto
  have "oldest_time ts = foldl ?f u us" by (simp add: ts oldest_time_def time_IsZero_def)
  with fold [of u us] assms ts show ?thesis by auto
qed

lemma run_Snapshot:
  "\<exists>snap n. run_state (Snapshot rnd m) w = (snap, w\<lparr>w_tick := n\<rparr>) \<and> w_tick w \<le> n \<and>
     ms_QueueDepth snap = m_queueDepth m \<and> ms_IdleWorkers snap = m_idleWorkers m \<and>
     (\<not> time_IsZero (oldest_time (map snd (m_workerLastIdle m))) \<longrightarrow>
        (\<exists>k \<ge> w_tick w. ms_OldestIdleTime snap = time_Sub (w_clock w k) (oldest_time (map snd (m_workerLastIdle m)))))"
  by (intro exI [of _ "fst (run_state (Snapshot rnd m) w)"] exI [of _ "w_tick (snd (run_state (Snapshot rnd m) w))"])
     (auto simp: Snapshot_def GetWorkerCounts_def GetOldestIdleTime_def GetQueueDepth_def run_simps Let_def split: prod.split
       intro!: exI [of _ "Suc (w_tick w)"])

lemma run_UpdateQueueDepth:
  assumes "m_queue m = RQ (redis_client pk)" and "holds_queue (w_db w) q" and "length (a_order q) < 2 ^ 63"
  shows "\<exists>t t'. run_state (UpdateQueueDepth Live m) w =
    ((None, observe_depth (int (length (a_order q))) t t' m), w\<lparr>w_tick := Suc (Suc (w_tick w))\<rparr>)"
  using run_sizes(1) [OF assms(2,3), of pk] assms(1)
  by (intro exI [of _ "w_clock w (w_tick w)"] exI [of _ "w_clock w (Suc (w_tick w))"]) (simp add: UpdateQueueDepth_def run_simps)

text \<open>An evaluation up to its decision.\<close>

lemma evaluate_on_queue:
  assumes "m_queue m = RQ (redis_client pk)" and "holds_queue (w_db w) q" and "length (a_order q) < 2 ^ 63"
  obtains snap n t t' where "w_tick w \<le> n" and "ms_QueueDepth snap = int (length (a_order q))" and "ms_IdleWorkers snap = m_idleWorkers m"
    and "\<not> time_IsZero (oldest_time (map snd (m_workerLastIdle m))) \<longrightarrow>
      (\<exists>k \<ge> w_tick w. ms_OldestIdleTime snap = time_Sub (w_clock w k) (oldest_time (map snd (m_workerLastIdle m))))"
    and "run_state (evaluate rnd ctl Live s p m) w =
      run_state (do { x \<leftarrow> decide s snap (ctl_GetWorkerCount ctl p); let s = recordDecision (fst x) (snd x);
        if sd_Action (fst x) \<noteq> NoAction then execute ctl Live (fst x) s p (observe_depth (int (length (a_order q))) t t' m)
        else ret (None, s, p, observe_depth (int (length (a_order q))) t t' m) }) (w\<lparr>w_tick := n\<rparr>)"
proof -
  from run_UpdateQueueDepth [OF assms] obtain t t' where
    u: "run_state (UpdateQueueDepth Live m) w = ((None, observe_depth (int (length (a_order q))) t t' m), w\<lparr>w_tick := Suc (Suc (w_tick w))\<rparr>)"
    by blast
  let ?m = "observe_depth (int (length (a_order q))) t t' m" and ?w = "w\<lparr>w_tick := Suc (Suc (w_tick w))\<rparr>"
  have m: "m_queueDepth ?m = int (length (a_order q))" "m_idleWorkers ?m = m_idleWorkers m" "m_workerLastIdle ?m = m_workerLastIdle m"
    by (simp_all add: observe_depth_def Let_def)
  from run_Snapshot [of rnd ?m ?w] obtain snap n where
    s: "run_state (Snapshot rnd ?m) ?w = (snap, ?w\<lparr>w_tick := n\<rparr>)" "w_tick ?w \<le> n" "ms_QueueDepth snap = int (length (a_order q))"
      "ms_IdleWorkers snap = m_idleWorkers m"
      "\<not> time_IsZero (oldest_time (map snd (m_workerLastIdle m))) \<Longrightarrow>
        \<exists>k \<ge> w_tick ?w. ms_OldestIdleTime snap = time_Sub (w_clock w k) (oldest_time (map snd (m_workerLastIdle m)))"
    unfolding m by auto
  show thesis
  proof (rule that [of n snap t t'])
    show "\<not> time_IsZero (oldest_time (map snd (m_workerLastIdle m))) \<longrightarrow>
        (\<exists>k \<ge> w_tick w. ms_OldestIdleTime snap = time_Sub (w_clock w k) (oldest_time (map snd (m_workerLastIdle m))))"
      using s(5) by (auto intro: Suc_leD)
  qed (use s u in \<open>simp_all add: evaluate_def\<close>)
qed

lemma long_since_zero: "0 \<le> t \<Longrightarrow> d \<le> maxDuration \<Longrightarrow> d \<le> time_Sub t zero_time"
  by (simp add: time_Sub_def zero_time_def)

lemma evaluate_scales_up_by_one:
  assumes m: "m_queue m = RQ (redis_client pk)" and q: "holds_queue (w_db w) q" "20 < length (a_order q)" "length (a_order q) < 100"
    and s: "s_config s = demo_scaling env" "s_lastScaleUp s = zero_time" "s_scaleUpCooldown s = 30 * Second"
    and p: "controlled ords 2 10 p m" "GetWorkerCount p = 2" "0 < names_left p" and clock: "\<forall>k. 0 \<le> w_clock w k"
  shows "\<exists>s' p' m' w'. run_state (evaluate rnd (pool_controller ords) Live s p m) w = ((None, s', p', m'), w') \<and>
    GetWorkerCount p' = 3 \<and> pool_inv (p', m')"
proof -
  let ?n = "int (length (a_order q))"
  from q(3) have "length (a_order q) < 2 ^ 63" by simp
  then obtain snap n t t' where
    snap: "ms_QueueDepth snap = ?n" and
    run: "run_state (evaluate rnd (pool_controller ords) Live s p m) w =
      run_state (do { x \<leftarrow> decide s snap (ctl_GetWorkerCount (pool_controller ords) p); let s = recordDecision (fst x) (snd x);
        if sd_Action (fst x) \<noteq> NoAction then execute (pool_controller ords) Live (fst x) s p (observe_depth ?n t t' m)
        else ret (None, s, p, observe_depth ?n t t' m) }) (w\<lparr>w_tick := n\<rparr>)"
    by (rule evaluate_on_queue [OF m q(1), where rnd = rnd and ctl = "pool_controller ords" and s = s and p = p])
  have count: "ctl_GetWorkerCount (pool_controller ords) p = 2" using p(2) by (simp add: pool_controller_def)
  have wrap: "wrap32 10 = 10" "wrap32 2 = 2" "wrap32 3 = 3" "wrap32 4 = 4" "wrap32 (?n div 50) = ?n div 50" "wrap32 (2 + ?n div 50) = 2 + ?n div 50"
    using q(3) by (simp_all add: wrap32_exact)
  have "?n div 50 \<le> 1" using q(3) by simp
  then have target: "calculateScaleUpTarget s snap 2 = 3"
    by (auto simp: calculateScaleUpTarget_def snap s(1) sdiv_nonneg wrap Let_def)
  have "30 * Second \<le> time_Sub (w_clock w k) zero_time" for k using clock by (intro long_since_zero) simp_all
  then have up: "run_state (shouldScaleUp s snap 2) v = (True, v\<lparr>w_tick := Suc (w_tick v)\<rparr>)" if "w_clock v = w_clock w" for v :: "db world"
    using that q(2) by (simp add: shouldScaleUp_def time_Since_def s snap wrap run_simps not_less)
  obtain d v where dec: "run_state (decide s snap 2) (w\<lparr>w_tick := n\<rparr>) = ((d, s), v)"
    and d: "sd_Action d = ScaleUp" "sd_DesiredCount d = 3" "sd_CurrentCount d = 2"
    by (simp add: decide_def up target run_simps Let_def)
  have "nat (wrap32 (sd_DesiredCount d - sd_CurrentCount d)) \<le> names_left p" using d p(3) by (simp add: wrap32_exact)
  from pc.scaleUp_run [OF controlled_depth [OF p(1), of ?n t t'] this, of "Live" "recordDecision d s" v] obtain e s' p' m' w' where
    x: "run_state (scaleUp (pool_controller ords) Live d (recordDecision d s) p (observe_depth ?n t t' m)) v = ((e, s', p', m'), w')"
      "controlled ords 2 10 p' m'" and c: "GetWorkerCount p' = 3" "e = None"
    by (fastforce simp: d p(2) wrap32_exact pool_controller_def Let_def)
  have "run_state (evaluate rnd (pool_controller ords) Live s p m) w = ((None, s', p', m'), w')"
    using run x(1) c(2) by (simp add: count dec d(1) execute_def Let_def)
  with x(2) c(1) show ?thesis by (auto simp: controlled_def)
qed

text \<open>While the cooldown for scaling up lasts, an evaluation counts an idle worker, or scales down.\<close>

lemma shouldScaleDown_idle:
  assumes s: "s_config s = demo_scaling env" "s_lastScaleDown s = zero_time" "s_scaleDownCooldown s = 2 * Minute" "s_consecutiveIdle s \<in> {0, 1}"
    and clock: "0 \<le> w_clock v (w_tick v)" and cur: "2 < cur"
    and snap: "ms_IdleWorkers snap \<noteq> 0" "5 * Second < ms_OldestIdleTime snap"
  shows "run_state (shouldScaleDown s snap cur) v =
    ((s_consecutiveIdle s = 1, s\<lparr>s_consecutiveIdle := s_consecutiveIdle s + 1\<rparr>), v\<lparr>w_tick := Suc (w_tick v)\<rparr>)"
proof -
  have "2 * Minute \<le> time_Sub (w_clock v (w_tick v)) zero_time" using clock by (intro long_since_zero) simp_all
  moreover have "wrap64 (s_consecutiveIdle s + 1) = s_consecutiveIdle s + 1" using s(4) by (intro wrap64_id) (auto simp: in64_def)
  ultimately show ?thesis
    using s(4) snap cur by (auto simp: shouldScaleDown_def time_Since_def s(1-3) wrap32_exact run_simps Let_def not_less)
qed

lemma decide_idle:
  assumes s: "s_config s = demo_scaling env" "s_lastScaleDown s = zero_time" "s_scaleDownCooldown s = 2 * Minute" "s_consecutiveIdle s \<in> {0, 1}"
      "s_scaleUpCooldown s = 30 * Second"
    and clock: "\<forall>k \<ge> w_tick v. 0 \<le> w_clock v k \<and> s_lastScaleUp s \<le> w_clock v k \<and> w_clock v k < s_lastScaleUp s + 30 * Second" and cur: "2 < cur"
    and snap: "ms_IdleWorkers snap \<noteq> 0" "5 * Second < ms_OldestIdleTime snap"
  shows "\<exists>d n. run_state (decide s snap cur) v = ((d, s\<lparr>s_consecutiveIdle := s_consecutiveIdle s + 1\<rparr>), v\<lparr>w_tick := n\<rparr>) \<and> w_tick v \<le> n \<and>
    sd_CurrentCount d = cur \<and> (s_consecutiveIdle s = 0 \<longrightarrow> sd_Action d = NoAction) \<and>
    (s_consecutiveIdle s = 1 \<longrightarrow> sd_Action d = ScaleDown \<and> sd_DesiredCount d = calculateScaleDownTarget s snap cur)"
proof -
  have "time_Sub (w_clock v k) (s_lastScaleUp s) < 30 * Second" if "w_tick v \<le> k" for k
    using clock that by (auto simp: time_Sub_def)
  then have up: "\<exists>n. run_state (shouldScaleUp s snap cur) (v\<lparr>w_tick := Suc (w_tick v)\<rparr>) = (False, v\<lparr>w_tick := n\<rparr>) \<and> w_tick v \<le> n"
    by (auto simp: shouldScaleUp_def time_Since_def s run_simps)
  then obtain n where u: "run_state (shouldScaleUp s snap cur) (v\<lparr>w_tick := Suc (w_tick v)\<rparr>) = (False, v\<lparr>w_tick := n\<rparr>)" "w_tick v \<le> n"
    by blast
  have "run_state (shouldScaleDown s snap cur) (v\<lparr>w_tick := n\<rparr>) =
    ((s_consecutiveIdle s = 1, s\<lparr>s_consecutiveIdle := s_consecutiveIdle s + 1\<rparr>), v\<lparr>w_tick := Suc n\<rparr>)"
    using shouldScaleDown_idle [OF s(1-4) _ cur snap, of "v\<lparr>w_tick := n\<rparr>"] clock u(2) by simp
  moreover have "calculateScaleDownTarget (s\<lparr>s_consecutiveIdle := i\<rparr>) snap cur = calculateScaleDownTarget s snap cur" for i
    by (simp add: calculateScaleDownTarget_def Let_def)
  ultimately show ?thesis using u s(4) by (auto simp: decide_def run_simps Let_def intro!: exI [of _ "Suc n"])
qed

text \<open>A worker that has been marked idle for more than five seconds, as far as the metrics know.\<close>

definition looks_idle :: "'s world \<Rightarrow> 's Metrics \<Rightarrow> bool" where
  "looks_idle w m \<longleftrightarrow> (\<forall>x \<in> set (m_workerLastIdle m). 0 \<le> snd x) \<and>
     (\<exists>x \<in> set (m_workerLastIdle m). \<forall>k \<ge> w_tick w. snd x + 5 * Second < w_clock w k)"

lemma looks_idle_depth [simp]: "looks_idle w (observe_depth d t t' m) = looks_idle w m"
  by (simp add: looks_idle_def observe_depth_def Let_def)

text \<open>The scaler in the first seconds after the pool has grown.\<close>

definition just_scaled_up :: "(string \<Rightarrow> string) \<Rightarrow> 's world \<Rightarrow> AutoScaler \<Rightarrow> bool" where
  "just_scaled_up env w s \<longleftrightarrow> s_config s = demo_scaling env \<and> s_lastScaleDown s = zero_time \<and> s_scaleDownCooldown s = 2 * Minute \<and>
     s_scaleUpCooldown s = 30 * Second \<and>
     (\<forall>k \<ge> w_tick w. 0 \<le> w_clock w k \<and> s_lastScaleUp s \<le> w_clock w k \<and> w_clock w k < s_lastScaleUp s + 30 * Second)"

lemma evaluate_idle:
  assumes m: "m_queue m = RQ (redis_client pk)" and q: "holds_queue (w_db w) q" "length (a_order q) < 2 ^ 63"
    and s: "just_scaled_up env w s" "s_consecutiveIdle s \<in> {0, 1}" and idle: "looks_idle w m"
    and p: "controlled ords 2 10 p m" "2 < GetWorkerCount p"
  obtains d n t t' where "w_tick w \<le> n"
    and "sd_CurrentCount d = GetWorkerCount p" and "s_consecutiveIdle s = 0 \<Longrightarrow> sd_Action d = NoAction"
    and "s_consecutiveIdle s = 1 \<Longrightarrow> sd_Action d = ScaleDown \<and> 2 \<le> sd_DesiredCount d \<and> sd_DesiredCount d < GetWorkerCount p"
    and "run_state (evaluate rnd (pool_controller ords) Live s p m) w =
      run_state (let s = recordDecision d (s\<lparr>s_consecutiveIdle := s_consecutiveIdle s + 1\<rparr>) in
        if sd_Action d \<noteq> NoAction then execute (pool_controller ords) Live d s p (observe_depth (int (length (a_order q))) t t' m)
        else ret (None, s, p, observe_depth (int (length (a_order q))) t t' m)) (w\<lparr>w_tick := n\<rparr>)"
proof -
  let ?n = "int (length (a_order q))" and ?old = "oldest_time (map snd (m_workerLastIdle m))"
  obtain snap n t t' where n: "w_tick w \<le> n" and snap: "ms_QueueDepth snap = ?n" "ms_IdleWorkers snap = m_idleWorkers m"
      "\<not> time_IsZero ?old \<longrightarrow> (\<exists>k \<ge> w_tick w. ms_OldestIdleTime snap = time_Sub (w_clock w k) ?old)" and
    run: "run_state (evaluate rnd (pool_controller ords) Live s p m) w =
      run_state (do { x \<leftarrow> decide s snap (ctl_GetWorkerCount (pool_controller ords) p); let s = recordDecision (fst x) (snd x);
        if sd_Action (fst x) \<noteq> NoAction then execute (pool_controller ords) Live (fst x) s p (observe_depth ?n t t' m)
        else ret (None, s, p, observe_depth ?n t t' m) }) (w\<lparr>w_tick := n\<rparr>)"
    by (rule evaluate_on_queue [OF m q, where rnd = rnd and ctl = "pool_controller ords" and s = s and p = p], rule that)
  from idle obtain x where x: "x \<in> set (m_workerLastIdle m)" "\<forall>k \<ge> w_tick w. snd x + 5 * Second < w_clock w k" "\<forall>x \<in> set (m_workerLastIdle m). 0 \<le> snd x"
    by (auto simp: looks_idle_def)
  have old: "0 \<le> ?old \<and> ?old \<le> snd x" by (rule oldest_time_le) (use x in auto)
  then have "\<not> time_IsZero ?old" by (auto simp: time_IsZero_def zero_time_def)
  with snap(3) obtain k where k: "k \<ge> w_tick w" "ms_OldestIdleTime snap = time_Sub (w_clock w k) ?old" by blast
  from x(2) k(1) have "snd x + 5 * Second < w_clock w k" by blast
  with old k(2) have long: "5 * Second < ms_OldestIdleTime snap" by (simp add: time_Sub_def)
  have ok: "metrics_ok m" using p(1) by (simp add: controlled_def pool_inv_def metered_def)
  from x(1) have "m_workerLastIdle m \<noteq> []" by auto
  with ok snap(2) have idle: "0 < ms_IdleWorkers snap" "ms_IdleWorkers snap < 2 ^ 31"
    using idle_le_active [OF ok] by (auto simp: metrics_ok_def)
  have count: "GetWorkerCount p \<le> 10" using controlledD(5) [OF p(1)] .
  let ?v = "w\<lparr>w_tick := n\<rparr>"
  have "\<forall>k \<ge> w_tick ?v. 0 \<le> w_clock ?v k \<and> s_lastScaleUp s \<le> w_clock ?v k \<and> w_clock ?v k < s_lastScaleUp s + 30 * Second"
    using s(1) n by (simp add: just_scaled_up_def)
  with decide_idle [of s env ?v "GetWorkerCount p" snap] s p(2) idle(1) long obtain d k where
    d: "run_state (decide s snap (GetWorkerCount p)) ?v = ((d, s\<lparr>s_consecutiveIdle := s_consecutiveIdle s + 1\<rparr>), ?v\<lparr>w_tick := k\<rparr>)" "n \<le> k"
      "sd_CurrentCount d = GetWorkerCount p" "s_consecutiveIdle s = 0 \<longrightarrow> sd_Action d = NoAction"
      "s_consecutiveIdle s = 1 \<longrightarrow> sd_Action d = ScaleDown \<and> sd_DesiredCount d = calculateScaleDownTarget s snap (GetWorkerCount p)"
    by (auto simp: just_scaled_up_def)
  have "2 \<le> calculateScaleDownTarget s snap (GetWorkerCount p) \<and> calculateScaleDownTarget s snap (GetWorkerCount p) < GetWorkerCount p"
    using scale_down_target [of s "GetWorkerCount p" snap] s(1) p(2) idle count by (simp add: just_scaled_up_def)
  with d run n show thesis
    by (intro that [of k d t t']) (simp_all add: pool_controller_def Let_def)
qed

lemma two_idle_evaluations:
  assumes m: "m_queue m = RQ (redis_client pk)" and q: "holds_queue (w_db w) q" "length (a_order q) < 2 ^ 63"
    and s: "just_scaled_up env w s" "s_consecutiveIdle s = 0" and idle: "looks_idle w m"
    and p: "controlled ords 2 10 p m" "2 < GetWorkerCount p"
  shows "\<exists>s' p' m' w'. run_state (evaluate_n 2 rnd (pool_controller ords) Live s p m) w = ((s', p', m'), w') \<and>
    GetWorkerCount p' < GetWorkerCount p \<and> pool_inv (p', m')"
proof -
  let ?n = "int (length (a_order q))" and ?ctl = "pool_controller ords"
  from s(2) have "s_consecutiveIdle s \<in> {0, 1}" by simp
  then obtain d n t t' where n: "w_tick w \<le> n" and d: "sd_Action d = NoAction"
    and e1: "run_state (evaluate rnd ?ctl Live s p m) w =
      run_state (let s = recordDecision d (s\<lparr>s_consecutiveIdle := s_consecutiveIdle s + 1\<rparr>) in
        if sd_Action d \<noteq> NoAction then execute ?ctl Live d s p (observe_depth ?n t t' m) else ret (None, s, p, observe_depth ?n t t' m)) (w\<lparr>w_tick := n\<rparr>)"
    by (rule evaluate_idle [OF m q s(1) _ idle p, where rnd = rnd]) (use s(2) in auto)
  let ?s = "recordDecision d (s\<lparr>s_consecutiveIdle := 1\<rparr>)" and ?m = "observe_depth ?n t t' m" and ?w = "w\<lparr>w_tick := n\<rparr>"
  have "m_queue ?m = RQ (redis_client pk)" using m by (simp add: observe_depth_def Let_def)
  moreover have "just_scaled_up env ?w ?s" "s_consecutiveIdle ?s \<in> {0, 1}"
    using s(1) n by (simp_all add: just_scaled_up_def recordDecision_def)
  moreover have "looks_idle ?w ?m" unfolding looks_idle_depth using idle n unfolding looks_idle_def by (auto intro: order_trans)
  moreover have "holds_queue (w_db ?w) q" using q by simp
  ultimately obtain d' k u u' where d': "sd_CurrentCount d' = GetWorkerCount p"
      "sd_Action d' = ScaleDown \<and> 2 \<le> sd_DesiredCount d' \<and> sd_DesiredCount d' < GetWorkerCount p"
    and e2: "run_state (evaluate rnd ?ctl Live ?s p ?m) ?w =
      run_state (let s = recordDecision d' (?s\<lparr>s_consecutiveIdle := s_consecutiveIdle ?s + 1\<rparr>) in
        if sd_Action d' \<noteq> NoAction then execute ?ctl Live d' s p (observe_depth ?n u u' ?m) else ret (None, s, p, observe_depth ?n u u' ?m)) (?w\<lparr>w_tick := k\<rparr>)"
    by (elim evaluate_idle [OF _ _ q(2) _ _ _ controlled_depth [OF p(1)] p(2), where rnd = rnd]) (auto simp: recordDecision_def)
  let ?s2 = "recordDecision d' (?s\<lparr>s_consecutiveIdle := s_consecutiveIdle ?s + 1\<rparr>)"
  have "GetWorkerCount p \<le> 10" using controlledD(5) [OF p(1)] .
  then have wr: "wrap32 (GetWorkerCount p - sd_DesiredCount d') = GetWorkerCount p - sd_DesiredCount d'" using d'(2) by (simp add: wrap32_exact)
  have any: "True \<longrightarrow> (\<forall>k m j. controlled ords 2 10 k m \<longrightarrow> ctl_GetIdleWorker ?ctl j k \<noteq> [])" using pc.idle_any by blast
  from pc.scaleDown_run [OF controlled_depth [OF controlled_depth [OF p(1), of ?n t t'], of ?n u u'] any, of Live d' ?s2 "?w\<lparr>w_tick := k\<rparr>"]
  obtain e s' p' m' w' where
    x: "run_state (scaleDown ?ctl Live d' ?s2 p (observe_depth ?n u u' ?m)) (?w\<lparr>w_tick := k\<rparr>) = ((e, s', p', m'), w')" "controlled ords 2 10 p' m'"
    and c: "GetWorkerCount p' = max (GetWorkerCount p - (GetWorkerCount p - sd_DesiredCount d')) 2"
    using d' by (fastforce simp: wr pool_controller_def Let_def)
  have "run_state (evaluate_n 2 rnd ?ctl Live s p m) w = ((s', p', m'), w')"
    using e1 e2 d d'(2) x(1) s(2) by (simp add: numeral_2_eq_2 execute_def Let_def)
  with x(2) c d'(2) show ?thesis by (auto simp: controlled_def)
qed

subsection \<open>Starting\<close>

lemma run_Purge:
  "\<exists>d. run_state (Purge (RQ (redis_client pk)) Live) w = (None, w\<lparr>w_db := d\<rparr>) \<and> holds_queue d (\<lambda>_. [])"
proof -
  let ?rq = "RQ (redis_client pk)"
  from run_purge_queues obtain d1 where "run_state (purge_queues ?rq Live init_queueKeys) w = (None, w\<lparr>w_db := d1\<rparr>)" by blast
  moreover from run_purge_prefix [of pk init_queueKeys taskKeyPrefix _ "w\<lparr>w_db := d1\<rparr>"] obtain d2 where
    "run_state (purge_prefix ?rq Live taskKeyPrefix ''failed to delete task data'') (w\<lparr>w_db := d1\<rparr>) = (None, w\<lparr>w_db := d2\<rparr>)" by auto
  moreover from run_purge_prefix [of pk init_queueKeys processingKeyPrefix _ "w\<lparr>w_db := d2\<rparr>"] obtain d3 where
    "run_state (purge_prefix ?rq Live processingKeyPrefix ''failed to delete processing data'') (w\<lparr>w_db := d2\<rparr>) = (None, w\<lparr>w_db := d3\<rparr>)" by auto
  ultimately have "run_state (Purge ?rq Live) w = (None, w\<lparr>w_db := d3\<rparr>)" by (simp add: Purge_def del: append.simps)
  moreover from Purge_empties [OF redis_server_refl refl, of pk w] obtain w' where
    "run_state (Purge ?rq Live) w = (None, w')" "holds_queue (w_db w') (\<lambda>_. [])" by auto
  ultimately show ?thesis by auto
qed

lemma start_workers_metrics:
  "run_state (start_workers n p m) w = ((p', m'), w') \<Longrightarrow> m_queue m' = m_queue m \<and> m_tasksEnqueued m' = m_tasksEnqueued m \<and>
     ((\<forall>k. 0 \<le> w_clock w k) \<and> (\<forall>x \<in> set (m_workerLastIdle m). 0 \<le> snd x) \<longrightarrow> (\<forall>x \<in> set (m_workerLastIdle m'). 0 \<le> snd x))"
proof (induction n arbitrary: p m w)
  case (Suc n)
  obtain r p1 m1 w1 where add: "run_state (AddWorker (p_ctx p) p m) w = ((r, p1, m1), w1)" by (metis surj_pair)
  then have "m_queue m1 = m_queue m \<and> m_tasksEnqueued m1 = m_tasksEnqueued m \<and>
      (m_workerLastIdle m1 = m_workerLastIdle m \<or> m_workerLastIdle m1 = AList.update (worker_id (p_nextWorkerID p)) (w_clock w (w_tick w)) (m_workerLastIdle m))"
    by (auto simp: AddWorker_def RegisterWorker_def run_simps Let_def split: if_splits prod.splits option.splits)
  moreover have "w_clock w1 = w_clock w" using AddWorker_later [OF add] by (simp add: later_def)
  moreover have "\<forall>x \<in> set (AList.update (worker_id (p_nextWorkerID p)) (w_clock w (w_tick w)) (m_workerLastIdle m)). 0 \<le> snd x"
    if "\<forall>k. 0 \<le> w_clock w k" "\<forall>x \<in> set (m_workerLastIdle m). 0 \<le> snd x"
    using that set_AList_update_subset [of "worker_id (p_nextWorkerID p)" "w_clock w (w_tick w)" "m_workerLastIdle m"] by auto
  ultimately have "(\<forall>k. 0 \<le> w_clock w k) \<and> (\<forall>x \<in> set (m_workerLastIdle m). 0 \<le> snd x) \<longrightarrow>
      (\<forall>k. 0 \<le> w_clock w1 k) \<and> (\<forall>x \<in> set (m_workerLastIdle m1). 0 \<le> snd x)" "m_queue m1 = m_queue m" "m_tasksEnqueued m1 = m_tasksEnqueued m"
    by metis+
  moreover have "run_state (start_workers n p1 m1) w1 = ((p', m'), w')" using Suc.prems add by simp
  ultimately show ?case using Suc.IH [of p1 m1 w1] by presburger
qed simp

lemma RecordTaskEnqueued_keeps:
  "m_queue ((RecordTaskEnqueued ^^ n) m) = m_queue m \<and> controlled ords lo hi p ((RecordTaskEnqueued ^^ n) m) = controlled ords lo hi p m"
  by (induction n) (simp_all add: RecordTaskEnqueued_def controlled_def pool_inv_def metered_def metrics_ok_def)

lemma run_autoscaling_main:
  obtains p m w' where
    "run_state (autoscaling_main (\<lambda>_. redis_client pk) env) w = (Running (p, m, (NewAutoScaler (demo_scaling env))\<lparr>s_running := True\<rparr>), w')"
    and "pool_inv (p, m)" and "p_minWorkers p = 2" and "p_maxWorkers p = 10" and "GetWorkerCount p = 2" and "0 < names_left p"
    and "m_queue m = RQ (redis_client pk)" and "m_tasksEnqueued m = 0" and "holds_queue (w_db w') (\<lambda>_. [])"
    and "w_clock w' = w_clock w" and "p_hasMetrics p" and "(\<forall>k. 0 \<le> w_clock w k) \<longrightarrow> (\<forall>x \<in> set (m_workerLastIdle m). 0 \<le> snd x)"
proof -
  let ?ex = "redis_client pk" and ?reg = "snd (Register NewRegistry ''heavy_task'' heavy_handler)"
  let ?p = "NewPool (RQ ?ex) (Some (RS ?ex)) ?reg True (demo_pool_config (demo_scaling env))"
  have q: "run_state (NewRedisQueue (\<lambda>_. ?ex) ''localhost:6379'' [] 0 10) w = (Inr (RQ ?ex), w)"
    by (simp add: NewRedisQueue_def run_simps Let_def)
  from run_Purge [of pk w] obtain w1 where
    pu: "run_state (Purge (RQ ?ex) Live) w = (None, w1)" and w1: "holds_queue (w_db w1) (\<lambda>_. [])" "w_clock w1 = w_clock w" by auto
  obtain m2 n where m2: "run_state (NewMetrics (RQ ?ex)) w1 = (m2, w1\<lparr>w_tick := n\<rparr>)" "metrics_ok m2" "m_workerStartTime m2 = []"
      "m_queue m2 = RQ ?ex" "m_tasksEnqueued m2 = 0" "m_workerLastIdle m2 = []"
    by (simp add: NewMetrics_def run_simps metrics_ok_def stats_bounded_def)
  have p: "pool_quiet ?p" "crew ?p" "p_workers ?p = []" "p_minWorkers ?p = 2" "p_maxWorkers ?p = 10" "p_hasMetrics ?p"
    using NewPool_ok [of "demo_pool_config (demo_scaling env)"] by (simp_all add: NewPool_def demo_pool_config_def crew_def Let_def)
  have "metered ?p m2" using m2 by (simp add: metered_def NewPool_def Let_def)
  moreover have names: "names_left ?p = 2 ^ 63 - 2" by (rule NewPool_names)
  ultimately obtain p' m' w' where run: "run_state (Pool_Start ?p m2) (w1\<lparr>w_tick := n\<rparr>) = ((None, p', m'), w')"
    and inv: "pool_inv (p', m')" "int (length (p_workers p')) = p_minWorkers p'" "p_minWorkers p' = 2" "p_maxWorkers p' = 10"
      "names_left ?p \<le> names_left p' + 2" "p_hasMetrics p'"
    using Pool_Start_inv [OF p(1) _ p(3), of m2 "w1\<lparr>w_tick := n\<rparr>"] p(4-6) by auto
  from run have st: "run_state (start_workers 2 ?p m2) (w1\<lparr>w_tick := n\<rparr>) = ((p', m'), w')"
    using p(4) by (auto simp: Pool_Start_def split: prod.splits if_splits)
  from start_workers_crew [OF p(2) this] w1 have "holds_queue (w_db w') (\<lambda>_. [])" "w_clock w' = w_clock w" by auto
  moreover have "m_queue m' = RQ ?ex \<and> m_tasksEnqueued m' = 0 \<and> ((\<forall>k. 0 \<le> w_clock w k) \<longrightarrow> (\<forall>x \<in> set (m_workerLastIdle m'). 0 \<le> snd x))"
    using start_workers_metrics [OF st] m2 w1(2) by simp
  moreover have "GetWorkerCount p' = 2" using GetWorkerCount_exact [of p'] inv by (simp add: pool_inv_def pool_quiet_def)
  moreover have "0 < names_left p'" using inv(5) names by simp
  moreover have "run_state (autoscaling_main (\<lambda>_. ?ex) env) w = (Running (p', m', (NewAutoScaler (demo_scaling env))\<lparr>s_running := True\<rparr>), w')"
    using q pu m2 run by (simp add: autoscaling_main_def NewRedisStorage_def Scaler_Start_def NewAutoScaler_def Let_def)
  ultimately show thesis using inv by (intro that [of p' m' w']) simp_all
qed

section \<open>Properties\<close>

text \<open>C28: 
  The demo from its start: whatever Redis held before, two workers start; the burst puts fifty
  tasks into the queue and counts them; the first evaluation of the scaler after it, on the
  documented server and however the metrics round, makes the pool of two a pool of three.
\<close>

theorem burst_adds_one_worker:
  assumes clock: "\<forall>n. time_marshalable (w_clock w n) \<and> 0 \<le> w_clock w n" and inj: "inj_on uuids {..< 50}"
    and ords: "\<forall>n. order_ok (ords n)"
  shows "\<exists>p m s w1 m2 w2 s' p' m' w'.
    run_state (autoscaling_main (\<lambda>_. redis_client pk) env) w = (Running (p, m, s), w1) \<and> GetWorkerCount p = 2 \<and>
    run_state (enqueue_burst (RQ (redis_client pk)) Live uuids 0 50 m) w1 = (m2, w2) \<and> m_tasksEnqueued m2 = 50 \<and>
    run_state (Size (RQ (redis_client pk)) Live) w2 = (Inr 50, w2) \<and>
    run_state (evaluate rnd (pool_controller ords) Live s p m2) w2 = ((None, s', p', m'), w') \<and> GetWorkerCount p' = 3"
proof -
  obtain p m w1 where main: "run_state (autoscaling_main (\<lambda>_. redis_client pk) env) w =
      (Running (p, m, (NewAutoScaler (demo_scaling env))\<lparr>s_running := True\<rparr>), w1)" (is "_ = (Running (_, _, ?s), _)")
    and p: "pool_inv (p, m)" "p_minWorkers p = 2" "p_maxWorkers p = 10" "GetWorkerCount p = 2" "0 < names_left p"
    and m: "m_queue m = RQ (redis_client pk)" "m_tasksEnqueued m = 0" and q: "holds_queue (w_db w1) (\<lambda>_. [])"
    and w1: "w_clock w1 = w_clock w" by (rule run_autoscaling_main)
  from w1 have "burst_queue uuids 0 w1"
    using clock q by (auto simp: burst_queue_def clock_ok_def queued_ids_def a_order_def intro!: exI [of _ "\<lambda>_. []"])
  from run_enqueue_burst [OF this, of 50 pk m] inj obtain d t where
    burst: "run_state (enqueue_burst (RQ (redis_client pk)) Live uuids 0 50 m) w1 = ((RecordTaskEnqueued ^^ 50) m, w1\<lparr>w_db := d, w_tick := t\<rparr>)"
    and "burst_queue uuids 50 (w1\<lparr>w_db := d, w_tick := t\<rparr>)" by auto
  then obtain q' where q': "holds_queue (w_db (w1\<lparr>w_db := d, w_tick := t\<rparr>)) q'" "length (a_order q') = 50" by (auto simp: burst_queue_def)
  let ?m = "(RecordTaskEnqueued ^^ 50) m" and ?w = "w1\<lparr>w_db := d, w_tick := t\<rparr>"
  have "controlled ords 2 10 p m" using p(1-3) ords by (simp add: controlled_def)
  then have m': "m_queue ?m = RQ (redis_client pk)" "controlled ords 2 10 p ?m" by (simp_all only: RecordTaskEnqueued_keeps m(1))
  have cool: "s_config ?s = demo_scaling env" "s_lastScaleUp ?s = zero_time" "s_scaleUpCooldown ?s = 30 * Second"
    by (simp_all add: NewAutoScaler_def)
  have "\<forall>k. 0 \<le> w_clock ?w k" "20 < length (a_order q')" "length (a_order q') < 100" using clock w1 q'(2) by simp_all
  from evaluate_scales_up_by_one [OF m'(1) q'(1) this(2,3) cool m'(2) p(4,5) this(1), of rnd] obtain s' p' m'' w' where
    "run_state (evaluate rnd (pool_controller ords) Live ?s p ?m) ?w = ((None, s', p', m''), w')" "GetWorkerCount p' = 3" by blast
  moreover have "m_tasksEnqueued ?m = 50" using RecordTaskEnqueued_funpow [OF m(2), of 50] by simp
  moreover have "run_state (Size (RQ (redis_client pk)) Live) ?w = (Inr 50, ?w)" using run_sizes(1) [OF q'(1), of pk] q'(2) by simp
  ultimately show ?thesis using main p(4) burst
    by (intro exI [of _ p] exI [of _ m] exI [of _ ?s] exI [of _ w1] exI [of _ ?m] exI [of _ ?w] exI [of _ s'] exI [of _ p'] exI [of _ m''] exI [of _ w'])
       (simp only: simp_thms)
qed

theorem burst_adds_one_worker_witness:
  "\<exists>p m s w1 m2 w2 s' p' m' w'.
    run_state (autoscaling_main (\<lambda>_. redis_client first_pick) (\<lambda>_. [])) ((start_world empty_db)\<lparr>w_clock := \<lambda>_. 0\<rparr>) = (Running (p, m, s), w1) \<and>
    run_state (enqueue_burst (RQ (redis_client first_pick)) Live (\<lambda>n. show_int (int n)) 0 50 m) w1 = (m2, w2) \<and> m_tasksEnqueued m2 = 50 \<and>
    run_state (evaluate id (pool_controller (\<lambda>_. id)) Live s p m2) w2 = ((None, s', p', m'), w') \<and> GetWorkerCount p' = 3"
proof -
  let ?w = "(start_world empty_db)\<lparr>w_clock := \<lambda>_. 0\<rparr>"
  have "\<forall>n. time_marshalable (w_clock ?w n) \<and> 0 \<le> w_clock ?w n" "inj_on (\<lambda>n. show_int (int n)) {..< 50}"
    "\<forall>n. order_ok ((\<lambda>_. id :: map_order) n)" by (simp_all add: time_marshalable_def inj_on_def order_ok_def)
  from burst_adds_one_worker [OF this, of first_pick "\<lambda>_. []" id] show ?thesis by blast
qed



end
